(* ===== verification/Prelude.thy ===== *)
theory Prelude
  imports Main "HOL-Library.Word"
begin

text \<open>
  Shared vocabulary of the development: the fixed-width integer types of the C++ code,
  exceptions as values, and the small state-and-exception monad in which every
  side-effecting function of the program is written.  A program of type
  \<open>('s, 'a) prog\<close> maps a state to a result, which is an exception (\<open>Inl\<close>) or a value
  (\<open>Inr\<close>), together with the state it leaves behind: as in C++, the effects made before an
  exception is thrown stay.
\<close>

unbundle bit_operations_syntax

named_theorems exec_simps \<open>one-step execution rules of the monad\<close>
named_theorems safely_intro \<open>programs that keep a predicate of the state\<close>

type_synonym byte = "8 word"
type_synonym size_t = "64 word"
type_synonym path = "string list"

text \<open>
  The exceptions the code can raise.  \<open>FilesystemError\<close> carries the error number and the path of
  \<open>std::filesystem::filesystem_error\<close>, \<open>CerealException\<close> is the archive's end-of-input error,
  \<open>NetworkError\<close> is \<open>ZTError\<close>, \<open>LengthError\<close> is \<open>std::length_error\<close>, and \<open>Undefined\<close>
  marks the points where the C++ code would run into undefined behaviour.
  \<open>OutOfFuel\<close> is not an exception of the program: it is the value of a recursion whose fuel ran
  out.
\<close>

datatype exn =
    FilesystemError nat path
  | RuntimeError string
  | CerealException
  | NetworkError string
  | LengthError
  | Undefined string
  | OutOfFuel

type_synonym ('s, 'a) prog = "'s \<Rightarrow> (exn + 'a) \<times> 's"

definition ret :: "'a \<Rightarrow> ('s, 'a) prog" where
  "ret x = (\<lambda>s. (Inr x, s))"

definition throw :: "exn \<Rightarrow> ('s, 'a) prog" where
  "throw e = (\<lambda>s. (Inl e, s))"

definition bnd :: "('s, 'a) prog \<Rightarrow> ('a \<Rightarrow> ('s, 'b) prog) \<Rightarrow> ('s, 'b) prog" where
  "bnd m f = (\<lambda>s. case m s of (r, t) \<Rightarrow> (case r of Inl e \<Rightarrow> (Inl e, t) | Inr x \<Rightarrow> f x t))"

definition gets :: "('s \<Rightarrow> 'a) \<Rightarrow> ('s, 'a) prog" where
  "gets f = (\<lambda>s. (Inr (f s), s))"

definition updates :: "('s \<Rightarrow> 's) \<Rightarrow> ('s, unit) prog" where
  "updates f = (\<lambda>s. (Inr (), f s))"

definition catch :: "('s, 'a) prog \<Rightarrow> (exn \<Rightarrow> ('s, 'a) prog) \<Rightarrow> ('s, 'a) prog" where
  "catch m h = (\<lambda>s. case m s of (r, t) \<Rightarrow> (case r of Inl e \<Rightarrow> h e t | Inr x \<Rightarrow> (Inr x, t)))"

text \<open>\<open>need\<close> turns a missing value into undefined behaviour.\<close>

definition need :: "string \<Rightarrow> 'a option \<Rightarrow> ('s, 'a) prog" where
  "need why x = (case x of None \<Rightarrow> throw (Undefined why) | Some y \<Rightarrow> ret y)"

primrec for_each :: "('a \<Rightarrow> ('s, unit) prog) \<Rightarrow> 'a list \<Rightarrow> ('s, unit) prog" where
  "for_each f [] = ret ()"
| "for_each f (x # xs) = bnd (f x) (\<lambda>_. for_each f xs)"

section \<open>Execution rules\<close>

lemma ret_exec [exec_simps]: "ret x s = (Inr x, s)"
  by (simp add: ret_def)

lemma throw_exec [exec_simps]: "throw e s = (Inl e, s)"
  by (simp add: throw_def)

lemma gets_exec [exec_simps]: "gets f s = (Inr (f s), s)"
  by (simp add: gets_def)

lemma updates_exec [exec_simps]: "updates f s = (Inr (), f s)"
  by (simp add: updates_def)

lemma bnd_exec [exec_simps]:
  "bnd m f s = (case m s of (r, t) \<Rightarrow> (case r of Inl e \<Rightarrow> (Inl e, t) | Inr x \<Rightarrow> f x t))"
  by (simp add: bnd_def)

lemma catch_exec [exec_simps]:
  "catch m h s = (case m s of (r, t) \<Rightarrow> (case r of Inl e \<Rightarrow> h e t | Inr x \<Rightarrow> (Inr x, t)))"
  by (simp add: catch_def)

lemma need_exec [exec_simps]:
  "need why x s = (case x of None \<Rightarrow> (Inl (Undefined why), s) | Some y \<Rightarrow> (Inr y, s))"
  by (simp add: need_def ret_def throw_def split: option.split)

lemma bnd_ret [simp]: "bnd (ret x) f = f x"
  by (simp add: bnd_def ret_def)

lemma bnd_ret_right [simp]: "bnd m ret = m"
  by (rule ext) (simp add: bnd_def ret_def split: prod.split sum.split)

lemma bnd_assoc: "bnd (bnd m f) g = bnd m (\<lambda>x. bnd (f x) g)"
  by (rule ext) (simp add: bnd_def split: prod.split sum.split)

lemma bnd_throw [simp]: "bnd (throw e) f = throw e"
  by (simp add: bnd_def throw_def)

text \<open>A program that finished normally finished each of its parts normally.\<close>

lemma bnd_okE:
  assumes "bnd m f s = (Inr y, t)"
  obtains x s' where "m s = (Inr x, s')" and "f x s' = (Inr y, t)"
  using assms by (auto simp: bnd_def split: prod.splits sum.splits)

lemma for_each_append:
  "for_each f (xs @ ys) = bnd (for_each f xs) (\<lambda>_. for_each f ys)"
  by (induction xs) (simp_all add: bnd_assoc)

section \<open>Predicates kept by a program\<close>

text \<open>
  \<open>safely P E m\<close>: started in a state that satisfies \<open>P\<close>, \<open>m\<close> leaves one that does, whether it ends
  normally or with an exception, and does not end with one of the exceptions \<open>E\<close>.
\<close>

definition safely :: "('s \<Rightarrow> bool) \<Rightarrow> exn set \<Rightarrow> ('s, 'a) prog \<Rightarrow> bool" where
  "safely P E m \<longleftrightarrow> (\<forall>s. P s \<longrightarrow> P (snd (m s)) \<and> fst (m s) \<notin> Inl ` E)"

lemma safelyI: "(\<And>s. P s \<Longrightarrow> P (snd (m s)) \<and> fst (m s) \<notin> Inl ` E) \<Longrightarrow> safely P E m"
  by (simp add: safely_def)

lemma safelyD: "safely P E m \<Longrightarrow> P s \<Longrightarrow> m s = (r, t) \<Longrightarrow> P t \<and> r \<notin> Inl ` E"
  by (auto simp: safely_def dest!: spec [of _ s])

lemma safely_ret [safely_intro]: "safely P E (ret x)"
  by (auto simp: safely_def ret_def)

lemma safely_throw [safely_intro]: "e \<notin> E \<Longrightarrow> safely P E (throw e)"
  by (auto simp: safely_def throw_def)

lemma safely_gets [safely_intro]: "safely P E (gets f)"
  by (auto simp: safely_def gets_def)

lemma safely_need [safely_intro]: "Undefined why \<notin> E \<or> x \<noteq> None \<Longrightarrow> safely P E (need why x)"
  by (auto simp: safely_def exec_simps split: option.split)

lemma safely_updates: "(\<And>s. P s \<Longrightarrow> P (f s)) \<Longrightarrow> safely P E (updates f)"
  by (auto simp: safely_def updates_def)

lemma safely_bnd [safely_intro]:
  assumes m: "safely P E m" and f: "\<And>x. safely P E (f x)"
  shows "safely P E (bnd m f)"
proof (rule safelyI)
  fix s
  assume s: "P s"
  obtain r t where rt: "m s = (r, t)" by (cases "m s")
  have t: "P t \<and> r \<notin> Inl ` E" using m s rt by (rule safelyD)
  show "P (snd (bnd m f s)) \<and> fst (bnd m f s) \<notin> Inl ` E"
  proof (cases r)
    case (Inl e)
    then show ?thesis using t rt by (auto simp: bnd_def)
  next
    case (Inr x)
    then show ?thesis using t rt f [of x] by (simp add: bnd_def safely_def)
  qed
qed

text \<open>A branch that depends on what a test of the state returned.\<close>

lemma safely_gets_bnd:
  assumes "\<And>s. P s \<Longrightarrow> safely P E (f (g s))"
  shows "safely P E (bnd (gets g) f)"
  using assms by (auto simp: safely_def bnd_def gets_def)

lemma safely_catch:
  assumes m: "safely P F m" and h: "\<And>e. e \<notin> F \<Longrightarrow> safely P E (h e)"
  shows "safely P E (catch m h)"
proof (rule safelyI)
  fix s
  assume s: "P s"
  obtain r t where rt: "m s = (r, t)" by (cases "m s")
  have t: "P t \<and> r \<notin> Inl ` F" using m s rt by (rule safelyD)
  show "P (snd (catch m h s)) \<and> fst (catch m h s) \<notin> Inl ` E"
  proof (cases r)
    case (Inl e)
    then show ?thesis using t rt h [of e] by (auto simp: catch_def safely_def)
  next
    case (Inr x)
    then show ?thesis using t rt by (auto simp: catch_def)
  qed
qed

lemma safely_for_each [safely_intro]:
  "(\<And>x. x \<in> set xs \<Longrightarrow> safely P E (f x)) \<Longrightarrow> safely P E (for_each f xs)"
  by (induction xs) (simp_all add: safely_ret safely_bnd)

lemma safely_if [safely_intro]:
  "(b \<Longrightarrow> safely P E m) \<Longrightarrow> (\<not> b \<Longrightarrow> safely P E n) \<Longrightarrow> safely P E (if b then m else n)"
  by simp

lemma safely_option [safely_intro]:
  "(x = None \<Longrightarrow> safely P E m) \<Longrightarrow> (\<And>y. x = Some y \<Longrightarrow> safely P E (f y)) \<Longrightarrow>
    safely P E (case x of None \<Rightarrow> m | Some y \<Rightarrow> f y)"
  by (cases x) simp_all

lemma safely_prod [safely_intro]:
  "(\<And>a b. safely P E (f a b)) \<Longrightarrow> safely P E (case x of (a, b) \<Rightarrow> f a b)"
  by (cases x) simp

section \<open>Fixed-width integers as bytes\<close>

text \<open>Little-endian bytes of a word, as the memory of the machine holds it.\<close>

fun le_put :: "nat \<Rightarrow> 'a::len word \<Rightarrow> byte list" where
  "le_put 0 w = []"
| "le_put (Suc n) w = ucast w # le_put n (drop_bit 8 w)"

fun le_get :: "byte list \<Rightarrow> 'a::len word" where
  "le_get [] = 0"
| "le_get (b # bs) = ucast b OR push_bit 8 (le_get bs)"

lemma length_le_put [simp]: "length (le_put n w) = n"
  by (induction n arbitrary: w) auto

lemma le_get_put: "le_get (le_put n w) = take_bit (8 * n) w"
proof (induction n arbitrary: w)
  case 0
  then show ?case by simp
next
  case (Suc n)
  then show ?case
    by (auto intro!: bit_word_eqI simp: bit_simps)
qed

lemma le_get_put_full: "LENGTH('a) \<le> 8 * n \<Longrightarrow> le_get (le_put n w) = (w :: 'a::len word)"
  by (simp add: le_get_put take_bit_word_eq_self)

section \<open>Numbers as text\<close>

text \<open>\<open>std::to_string\<close> of an unsigned number.\<close>

fun to_string :: "nat \<Rightarrow> string" where
  "to_string n =
     (if n < 10 then [char_of (48 + n)] else to_string (n div 10) @ [char_of (48 + n mod 10)])"

declare to_string.simps [simp del]

text \<open>Integer division rounding towards zero, as C++ rounds.\<close>

definition tdiv :: "int \<Rightarrow> int \<Rightarrow> int" where
  "tdiv a b = sgn a * (\<bar>a\<bar> div b)"

lemma tdiv_nonneg: "0 \<le> a \<Longrightarrow> 0 < b \<Longrightarrow> tdiv a b = a div b"
  by (cases "a = 0") (auto simp: tdiv_def sgn_if)

lemma tdiv_mult [simp]: "0 < b \<Longrightarrow> tdiv (a * b) b = a"
  by (simp add: tdiv_def abs_mult sgn_mult mult_sgn_abs)

section \<open>Characters and bytes\<close>

definition byte_of_char :: "char \<Rightarrow> byte" where
  "byte_of_char c = of_nat (of_char c)"

definition char_of_byte :: "byte \<Rightarrow> char" where
  "char_of_byte b = char_of (unat b)"

lemma char_of_byte_of_char [simp]: "char_of_byte (byte_of_char c) = c"
proof -
  have "of_char c < (256 :: nat)" by (cases c) simp
  then show ?thesis by (simp add: char_of_byte_def byte_of_char_def unat_of_nat)
qed

lemma byte_of_char_of_byte [simp]: "byte_of_char (char_of_byte b) = b"
proof -
  have "unat b < 2 ^ LENGTH(8)" by (rule unsigned_less)
  then have "unat b < 256" by simp
  then show ?thesis by (simp add: char_of_byte_def byte_of_char_def)
qed

lemma map_char_byte [simp]:
  "map (char_of_byte \<circ> byte_of_char) s = s" "map (byte_of_char \<circ> char_of_byte) bs = bs"
  by (simp_all add: comp_def)

end
