(* ===== verification/Paths.thy ===== *)
theory Paths
  imports Prelude
begin

text \<open>
  Paths as the program uses \<open>std::filesystem::path\<close>: the list of the elements that iterating
  over the path yields (a leading \<open>''/''\<close> for an absolute path, an empty last element for a
  trailing separator), the members of the class the program calls, and the functions of
  \<open>src/src/include_everywhere.hpp\<close> and \<open>src/src/message_manager.cpp\<close> that compute the paths of the
  bookkeeping files: \<open>wntsPath\<close> (the file that caches a content hash) and \<open>lockFilePath\<close>.
\<close>

section \<open>The members of \<open>std::filesystem::path\<close> the program calls\<close>

definition is_absolute :: "path \<Rightarrow> bool" where
  "is_absolute q \<longleftrightarrow> q \<noteq> [] \<and> hd q = ''/''"

definition has_filename :: "path \<Rightarrow> bool" where
  "has_filename p \<longleftrightarrow> p \<noteq> [] \<and> last p \<noteq> '''' \<and> last p \<noteq> ''/''"

text \<open>\<open>p / q\<close>: an absolute \<open>q\<close> replaces \<open>p\<close>; an empty \<open>q\<close> adds a trailing separator.\<close>

definition path_div :: "path \<Rightarrow> path \<Rightarrow> path" where
  "path_div p q =
     (if is_absolute q then q
      else if q = [] then (if has_filename p then p @ [''''] else p)
      else if p \<noteq> [] \<and> last p = '''' then butlast p @ q
      else p @ q)"

text \<open>The path that dereferencing a path iterator yields.\<close>

definition elem :: "string \<Rightarrow> path" where
  "elem e = (if e = '''' then [] else [e])"

definition filename :: "path \<Rightarrow> string" where
  "filename p = (if has_filename p then last p else '''')"

definition remove_filename :: "path \<Rightarrow> path" where
  "remove_filename p =
     (if \<not> has_filename p then p
      else (let q = butlast p in if q = [] \<or> last q = ''/'' then q else q @ ['''']))"

text \<open>The native string of a path, and the path a string denotes.\<close>

fun path_string :: "path \<Rightarrow> string" where
  "path_string [] = ''''"
| "path_string [e] = e"
| "path_string (e # f # es) =
     (if e = ''/'' then e @ path_string (f # es) else e @ ''/'' @ path_string (f # es))"

fun split_slash :: "string \<Rightarrow> string \<Rightarrow> string list" where
  "split_slash acc [] = [rev acc]"
| "split_slash acc (c # cs) =
     (if c = CHR ''/'' then rev acc # split_slash [] cs else split_slash (c # acc) cs)"

definition parse_path :: "string \<Rightarrow> path" where
  "parse_path s =
     (if s = [] then []
      else (let names = filter (\<lambda>e. e \<noteq> []) (split_slash [] s)
            in (if hd s = CHR ''/'' then [''/''] else []) @ names
               @ (if last s = CHR ''/'' \<and> names \<noteq> [] then [''''] else [])))"

text \<open>
  \<open>lexically_normal\<close>: \<open>acc\<close> is the normalised path read so far, last element first; \<open>norm_end\<close>
  ends a path whose last separator stays.
\<close>

definition norm_end :: "path \<Rightarrow> path" where
  "norm_end acc =
     (if acc = [] \<or> hd acc = ''/'' \<or> hd acc = ''..'' then rev acc else rev ('''' # acc))"

fun norm_go :: "path \<Rightarrow> path \<Rightarrow> path" where
  "norm_go acc [] = rev acc"
| "norm_go acc (e # es) =
     (if e = ''.'' \<or> e = '''' then (if es = [] then norm_end acc else norm_go acc es)
      else if e = ''..'' then
        (case acc of
           [] \<Rightarrow> norm_go [''..''] es
         | a # acc' \<Rightarrow>
             if a = ''/'' then norm_go acc es
             else if a = ''..'' then norm_go (''..'' # acc) es
             else if es = [] then norm_end acc' else norm_go acc' es)
      else norm_go (e # acc) es)"

definition lexically_normal :: "path \<Rightarrow> path" where
  "lexically_normal p =
     (if p = [] then [] else (let q = norm_go [] p in if q = [] then [''.''] else q))"

section \<open>The bookkeeping paths\<close>

text \<open>
  \<open>wntsPath\<close> puts the folder \<open>.wnts\<close> after the first element of the path; it dereferences
  \<open>path.begin()\<close> before it looks at \<open>path.end()\<close>, which an empty path does not allow.
\<close>

definition wntsPath :: "path \<Rightarrow> path option" where
  "wntsPath p =
     (case p of
        [] \<Rightarrow> None
      | e # es \<Rightarrow>
          Some (foldl (\<lambda>w x. path_div w (elem x)) (path_div (elem e) [''.wnts'']) es))"

definition lockFilePath :: "path \<Rightarrow> path option" where
  "lockFilePath p =
     (case wntsPath p of
        None \<Rightarrow> None
      | Some lockPath \<Rightarrow> Some (path_div (remove_filename lockPath) [''.lock.'' @ filename p]))"

text \<open>The test of \<open>enumerateAllFiles\<close>: a path with an element \<open>.wnts\<close> is skipped.\<close>

fun is_good :: "path \<Rightarrow> bool" where
  "is_good [] = True"
| "is_good (folder # rest) = (if folder = ''.wnts'' then False else is_good rest)"

section \<open>Well-formed paths\<close>

text \<open>What iterating over a path can yield.\<close>

definition name_ok :: "string \<Rightarrow> bool" where
  "name_ok e \<longleftrightarrow> e \<noteq> [] \<and> CHR ''/'' \<notin> set e"

fun wf_tail :: "path \<Rightarrow> bool" where
  "wf_tail [] = True"
| "wf_tail (e # es) = (if e = '''' then es = [] else name_ok e \<and> wf_tail es)"

fun wf_path :: "path \<Rightarrow> bool" where
  "wf_path [] = True"
| "wf_path (e # es) =
     (if e = ''/'' then es = [] \<or> (hd es \<noteq> '''' \<and> wf_tail es) else name_ok e \<and> wf_tail es)"

text \<open>A path of a file inside a managed folder: at least two elements, no trailing separator.\<close>

definition file_path :: "path \<Rightarrow> bool" where
  "file_path p \<longleftrightarrow> wf_path p \<and> 2 \<le> length p \<and> last p \<noteq> ''''"

lemma is_good_iff: "is_good p \<longleftrightarrow> ''.wnts'' \<notin> set p"
  by (induction p) auto

lemma name_ok_simps [simp]:
  "name_ok e \<Longrightarrow> e \<noteq> []" "\<not> name_ok ''/''" "\<not> name_ok []"
  by (auto simp: name_ok_def)

lemma name_ok_lit [simp]: "name_ok ''.wnts''" "name_ok ''.''" "name_ok ''..''"
  by (simp_all add: name_ok_def)

lemma wf_tail_append: "\<forall>e \<in> set es. name_ok e \<Longrightarrow> wf_tail (es @ fs) = wf_tail fs"
  by (induction es) auto

lemma split_slash_name:
  "CHR ''/'' \<notin> set s \<Longrightarrow> split_slash acc s = [rev acc @ s]"
  by (induction s arbitrary: acc) auto

lemma parse_path_name: "name_ok e \<Longrightarrow> parse_path e = [e]"
proof -
  assume "name_ok e"
  then have "hd e \<noteq> CHR ''/''" "last e \<noteq> CHR ''/''" "e \<noteq> []" "CHR ''/'' \<notin> set e"
    by (metis hd_in_set last_in_set name_ok_def)+
  then show ?thesis by (simp add: parse_path_def split_slash_name)
qed

lemma parse_path_empty [simp]: "parse_path [] = []"
  by (simp add: parse_path_def)

lemma parse_path_root: "parse_path ''/'' = [''/'']"
  by (simp add: parse_path_def)

lemma path_div_name: "name_ok e \<Longrightarrow> p = [] \<or> last p \<noteq> '''' \<Longrightarrow> path_div p [e] = p @ [e]"
  by (auto simp: path_div_def is_absolute_def)

lemma path_div_empty: "has_filename p \<Longrightarrow> path_div p [] = p @ ['''']"
  by (simp add: path_div_def is_absolute_def)

text \<open>
  Appending the elements of a well-formed tail one by one, whatever function \<open>g\<close> turns an element
  into a path (\<open>elem\<close> in \<open>wntsPath\<close>, \<open>parse_path\<close> when a path is read from an archive).
\<close>

lemma foldl_path_div_tail:
  assumes g: "\<And>e. name_ok e \<Longrightarrow> g e = [e]" "g '''' = []"
  shows "wf_tail es \<Longrightarrow> p \<noteq> [] \<Longrightarrow> last p \<noteq> '''' \<Longrightarrow> last p = ''/'' \<longrightarrow> es = [] \<or> hd es \<noteq> ''''
    \<Longrightarrow> foldl (\<lambda>w x. path_div w (g x)) p es = p @ es"
proof (induction es arbitrary: p)
  case Nil
  then show ?case by simp
next
  case (Cons e es)
  show ?case
  proof (cases "e = ''''")
    case True
    with Cons.prems have "es = []" and "has_filename p"
      by (auto simp: has_filename_def)
    with True g show ?thesis by (simp add: path_div_empty)
  next
    case False
    with Cons.prems have e: "name_ok e" and es: "wf_tail es" by auto
    with Cons.prems have "path_div p (g e) = p @ [e]"
      by (simp add: g path_div_name)
    moreover have "e \<noteq> ''/''" using e by auto
    ultimately show ?thesis using Cons.IH [of "p @ [e]"] e es by auto
  qed
qed

lemma elem_name: "name_ok e \<Longrightarrow> elem e = [e]" "elem '''' = []"
  by (auto simp: elem_def)

lemma wntsPath_eq: "wf_path (e # es) \<Longrightarrow> wntsPath (e # es) = Some (e # ''.wnts'' # es)"
proof -
  assume wf: "wf_path (e # es)"
  then have tail: "wf_tail es" and ne: "e \<noteq> ''''"
    by (auto split: if_splits)
  have "path_div (elem e) [''.wnts''] = [e, ''.wnts'']"
    using ne by (simp add: elem_def path_div_name)
  moreover have "foldl (\<lambda>w x. path_div w (elem x)) [e, ''.wnts''] es = [e, ''.wnts''] @ es"
    by (rule foldl_path_div_tail) (use tail in \<open>auto simp: elem_name\<close>)
  ultimately show ?thesis by (simp add: wntsPath_def)
qed

lemma file_path_split:
  assumes "file_path p"
  obtains e es f where "p = e # es @ [f]" and "name_ok f"
    and "\<forall>x \<in> set es. name_ok x"
proof -
  from assms obtain e x r' where "p = e # x # r'"
    by (metis One_nat_def Suc_1 Suc_le_length_iff file_path_def)
  then obtain r where p: "p = e # r" and r: "r \<noteq> []" by simp
  from r obtain es f where rs: "r = es @ [f]"
    by (metis append_butlast_last_id)
  have tail: "wf_tail r" and f: "f \<noteq> ''''"
    using assms p rs r by (auto simp: file_path_def split: if_splits)
  have names: "wf_tail xs \<Longrightarrow> last xs \<noteq> '''' \<Longrightarrow> x \<in> set xs \<Longrightarrow> name_ok x" for xs x
    by (induction xs) (auto split: if_splits)
  have ok: "name_ok x" if "x \<in> set r" for x
    using names [OF tail _ that] f rs by simp
  then show thesis using that [of e es f] p rs by simp
qed

lemma wf_path_file_path: "file_path p \<Longrightarrow> wf_path p"
  by (simp add: file_path_def)

lemma lockFilePath_eq:
  assumes "name_ok f" and "wf_path (e # es @ [f])" and "\<forall>x \<in> set es. name_ok x"
  shows "lockFilePath (e # es @ [f]) = Some (e # ''.wnts'' # es @ [''.lock.'' @ f])"
proof -
  let ?w = "e # ''.wnts'' # es @ [f]"
  have w: "wntsPath (e # es @ [f]) = Some ?w"
    using wntsPath_eq [OF assms(2)] by simp
  have "es \<noteq> [] \<Longrightarrow> name_ok (last es)"
    using assms(3) by simp
  then have last: "last (e # ''.wnts'' # es) \<noteq> ''''" "last (e # ''.wnts'' # es) \<noteq> ''/''"
    by auto
  have "remove_filename ?w = (e # ''.wnts'' # es) @ ['''']"
    using last assms(1) by (auto simp: remove_filename_def has_filename_def Let_def butlast_append)
  moreover have "filename (e # es @ [f]) = f"
    using assms(1) by (auto simp: filename_def has_filename_def)
  ultimately show ?thesis
    by (simp add: lockFilePath_def w path_div_def is_absolute_def)
qed

section \<open>Where the bookkeeping files lie\<close>

lemma lockFilePath_Some:
  assumes "file_path p"
  obtains w where "lockFilePath p = Some w"
proof -
  from assms obtain e es f where p: "p = e # es @ [f]" and f: "name_ok f"
    and es: "\<forall>x \<in> set es. name_ok x"
    by (rule file_path_split)
  with assms lockFilePath_eq [OF f _ es] that show thesis
    by (auto simp: file_path_def)
qed

text \<open>The bookkeeping files of a managed file, its cached hash and its lock, have an element \<open>.wnts\<close> in
  their path.\<close>

lemma bookkeeping_not_good:
  assumes "file_path p"
  shows "\<exists>w l. wntsPath p = Some w \<and> lockFilePath p = Some l \<and> \<not> is_good w \<and> \<not> is_good l"
proof -
  from assms obtain e es f where p: "p = e # es @ [f]" and f: "name_ok f"
    and es: "\<forall>x \<in> set es. name_ok x"
    by (rule file_path_split)
  have wf: "wf_path (e # es @ [f])" using wf_path_file_path [OF assms] p by (simp only:)
  show ?thesis
    using wntsPath_eq [OF wf] lockFilePath_eq [OF f wf es] p by (simp add: is_good_iff)
qed

lemma lock_paths_inj:
  assumes "file_path p" and "file_path q" and "lockFilePath p = lockFilePath q"
  shows "p = q"
proof -
  from assms(1) obtain e es f where p: "p = e # es @ [f]" and f: "name_ok f"
    and es: "\<forall>x \<in> set es. name_ok x"
    by (rule file_path_split)
  from assms(2) obtain d ds g where q: "q = d # ds @ [g]" and g: "name_ok g"
    and ds: "\<forall>x \<in> set ds. name_ok x"
    by (rule file_path_split)
  have "lockFilePath p = Some (e # ''.wnts'' # es @ [''.lock.'' @ f])"
    using lockFilePath_eq [OF f _ es] wf_path_file_path [OF assms(1)] p by (simp only:)
  moreover have "lockFilePath q = Some (d # ''.wnts'' # ds @ [''.lock.'' @ g])"
    using lockFilePath_eq [OF g _ ds] wf_path_file_path [OF assms(2)] q by (simp only:)
  ultimately show ?thesis using assms(3) p q by simp
qed


text \<open>The hash cache of one file can be the lock file of another: the cached hash of
  \<open>.lock.f\<close> is stored where the lock of its sibling \<open>f\<close> is stored.\<close>

lemma wntsPath_can_be_a_lockFilePath:
  assumes h: "file_path (e # es @ [f])"
  shows "wntsPath (e # es @ [''.lock.'' @ f]) = lockFilePath (e # es @ [f])"
proof -
  from h obtain e' es' f' where eq: "e # es @ [f] = e' # es' @ [f']" and f': "name_ok f'"
    and es': "\<forall>x \<in> set es'. name_ok x"
    by (rule file_path_split)
  have f: "name_ok f" and es: "\<forall>x \<in> set es. name_ok x"
    using eq f' es' by auto
  have wf: "wf_path (e # es @ [f])" using h by (rule wf_path_file_path)
  have ok: "name_ok (''.lock.'' @ f)" using f by (simp add: name_ok_def)
  then have "wf_tail (es @ [''.lock.'' @ f])"
    using wf_tail_append [of es "[''.lock.'' @ f]"] es by simp
  moreover have "hd (es @ [''.lock.'' @ f]) \<noteq> ''''"
    using es by (cases es) auto
  ultimately have "wf_path (e # es @ [''.lock.'' @ f])"
    using wf by (auto split: if_splits)
  then show ?thesis
    using wntsPath_eq lockFilePath_eq [OF f wf es] by simp
qed


section \<open>Normalisation\<close>

text \<open>
  A reversed stack is normal when it has no \<open>.\<close>, no empty element and \<open>..\<close> only at its bottom:
  reading such a path again pushes it back unchanged.
\<close>

fun normal_stack :: "path \<Rightarrow> bool" where
  "normal_stack [] = True"
| "normal_stack (a # acc) =
     (normal_stack acc \<and> a \<noteq> '''' \<and> a \<noteq> ''.'' \<and> (a = ''..'' \<longrightarrow> acc = [] \<or> hd acc = ''..''))"

lemma norm_go_replay: "normal_stack acc \<Longrightarrow> norm_go [] (rev acc @ es) = norm_go acc es"
proof (induction acc arbitrary: es)
  case Nil
  then show ?case by simp
next
  case (Cons a acc)
  then have "norm_go [] (rev acc @ (a # es)) = norm_go acc (a # es)" by auto
  also have "\<dots> = norm_go (a # acc) es"
    using Cons.prems by (cases acc) auto
  finally show ?case by simp
qed

lemma norm_end_fixed: "normal_stack acc \<Longrightarrow> norm_go [] (norm_end acc) = norm_end acc"
  using norm_go_replay [of acc "[]"] norm_go_replay [of acc "['''']"]
  by (auto simp: norm_end_def)

lemma norm_go_fixed: "normal_stack acc \<Longrightarrow> norm_go [] (norm_go acc es) = norm_go acc es"
proof (induction acc es rule: norm_go.induct)
  case (1 acc)
  then show ?case using norm_go_replay [of acc "[]"] by simp
next
  case (2 acc e es)
  show ?case
    using 2 by (auto simp: norm_end_fixed split: list.splits)
qed

text \<open>Normalising a normalised path changes nothing, so a path keeps its spelling however often
  it is sent on.\<close>

lemma lexically_normal_idem: "lexically_normal (lexically_normal p) = lexically_normal p"
  using norm_go_fixed [of "[]" p] by (auto simp: lexically_normal_def norm_end_def Let_def)

text \<open>Normalising keeps a path well-formed.\<close>

fun wf_stack :: "path \<Rightarrow> bool" where
  "wf_stack [] = True"
| "wf_stack (a # acc) = ((name_ok a \<and> wf_stack acc) \<or> (a = ''/'' \<and> acc = []))"

lemma wf_stack_rev: "wf_stack acc \<Longrightarrow> wf_tail es \<Longrightarrow> acc = [] \<longrightarrow> es = [] \<Longrightarrow>
    acc \<noteq> [] \<and> hd acc = ''/'' \<longrightarrow> es = [] \<or> hd es \<noteq> '''' \<Longrightarrow> wf_path (rev acc @ es)"
proof (induction acc arbitrary: es)
  case Nil
  then show ?case by simp
next
  case (Cons a acc)
  show ?case
  proof (cases "acc = []")
    case True
    with Cons.prems show ?thesis by auto
  next
    case False
    with Cons.prems have "name_ok a" and "wf_stack acc" by auto
    moreover from this have "a \<noteq> ''''" by auto
    ultimately show ?thesis using Cons.IH [of "a # es"] Cons.prems False by auto
  qed
qed

lemma wf_norm_end: "wf_stack acc \<Longrightarrow> wf_path (norm_end acc)"
  using wf_stack_rev [of acc "[]"] wf_stack_rev [of acc "['''']"]
  by (auto simp: norm_end_def)

lemma wf_norm_go: "wf_stack acc \<Longrightarrow> wf_tail es \<Longrightarrow> wf_path (norm_go acc es)"
proof (induction acc es rule: norm_go.induct)
  case (1 acc)
  then show ?case using wf_stack_rev [of acc "[]"] by simp
next
  case (2 acc e es)
  then show ?case by (auto simp: wf_norm_end split: list.splits if_splits)
qed

lemma wf_lexically_normal:
  assumes "wf_path p"
  shows "wf_path (lexically_normal p)"
proof (cases p)
  case Nil
  then show ?thesis by (simp add: lexically_normal_def)
next
  case (Cons e es)
  have "wf_path (norm_go [] (e # es))"
  proof (cases "e = ''/''")
    case True
    with assms Cons show ?thesis by (auto intro: wf_norm_go)
  next
    case False
    with assms Cons show ?thesis by (intro wf_norm_go) (auto split: if_splits)
  qed
  with Cons show ?thesis by (auto simp: lexically_normal_def Let_def)
qed

text \<open>Reading back the elements of a well-formed path, as the archive's \<open>load\<close> does.\<close>

lemma foldl_parse_path:
  assumes "wf_path p"
  shows "foldl (\<lambda>q part. path_div q (parse_path part)) [] p = p"
proof (cases p)
  case Nil
  then show ?thesis by simp
next
  case (Cons e es)
  have first: "path_div [] (parse_path e) = [e]" and ne: "e \<noteq> ''''"
    using assms Cons
    by (auto simp: parse_path_name parse_path_root path_div_def is_absolute_def split: if_splits)
  have "foldl (\<lambda>q part. path_div q (parse_path part)) [e] es = [e] @ es"
    by (rule foldl_path_div_tail)
      (use assms Cons ne in \<open>auto simp: parse_path_name split: if_splits\<close>)
  then show ?thesis using Cons first by simp
qed

end
