(* ===== verification/Messages.thy ===== *)
theory Messages
  imports Paths
begin

text \<open>
  \<open>src/src/messages.hpp\<close>: the class hierarchy of messages, their serialisation and their hash.
  Each class is a record extending the record of its base class, and \<open>any_message\<close> is what a
  \<open>unique_ptr<Message>\<close> can point to.  The archive library (cereal), the ZeroTier address class and
  the text of a date are not part of the repository: \<open>lib\<close> collects what the code uses of them, and
  the locale \<open>lib_laws\<close> states the documented behaviour the proofs rely on.
\<close>

section \<open>What the code uses of its libraries\<close>

text \<open>Values of \<open>zt::IpAddress\<close>; \<open>NoAddress\<close> is a default-constructed one, which is not valid.\<close>

datatype ip_address = NoAddress | IPv4 "32 word" | IPv6 "128 word"

definition isValid :: "ip_address \<Rightarrow> bool" where
  "isValid ip \<longleftrightarrow> ip \<noteq> NoAddress"

abbreviation ipv6Unspecified :: ip_address where "ipv6Unspecified \<equiv> IPv6 0"
abbreviation ipv4Unspecified :: ip_address where "ipv4Unspecified \<equiv> IPv4 0"
abbreviation ipv6Loopback :: ip_address where "ipv6Loopback \<equiv> IPv6 1"
abbreviation ipv4Loopback :: ip_address where "ipv4Loopback \<equiv> IPv4 0x7F000001"

type_synonym 'a put = "'a \<Rightarrow> byte list"
type_synonym 'a get = "byte list \<Rightarrow> ('a \<times> byte list) option"

text \<open>
  \<open>put_*\<close> and \<open>get_*\<close> are the binary archive on the types the code hands to it (\<open>get\<close> returns what
  is left of the input, \<open>None\<close> is its exception); \<open>family_v4\<close>, \<open>family_v6\<close> and \<open>family_none\<close> are
  the numbers of \<open>zt::AddressFamily\<close>, \<open>raw_v6_none\<close> what \<open>getIPv6AddressInNetworkOrder\<close> gives on an
  invalid address, \<open>ip_string\<close> is \<open>IpAddress::toString\<close>, \<open>ctime\<close> the text \<open>std::ctime\<close> writes for a
  time in the local time zone, and \<open>sizeof_Message\<close> is \<open>sizeof(Message)\<close>.
\<close>

record lib =
  put_u8 :: "8 word put"
  get_u8 :: "8 word get"
  put_u16 :: "16 word put"
  get_u16 :: "16 word get"
  put_u32 :: "32 word put"
  get_u32 :: "32 word get"
  put_u64 :: "64 word put"
  get_u64 :: "64 word get"
  put_u128 :: "128 word put"
  get_u128 :: "128 word get"
  put_str :: "string put"
  get_str :: "string get"
  family_v4 :: "8 word"
  family_v6 :: "8 word"
  family_none :: "8 word"
  raw_v6_none :: "128 word"
  ip_string :: "ip_address \<Rightarrow> string"
  ctime :: "int \<Rightarrow> string"
  sizeof_Message :: nat

section \<open>Message types and classes\<close>

datatype msg_type =
    invalid | lock | unlock | deleteFile | contentChange | initialSync | initialSyncRequest
  | connect | disconnect | payload_t | resendRequest | linkLost

text \<open>The enumerators' values; a variable of the enumeration can hold any 8-bit value.\<close>

fun type_code :: "msg_type \<Rightarrow> 8 word" where
  "type_code invalid = 0"
| "type_code lock = 1"
| "type_code unlock = 2"
| "type_code deleteFile = 3"
| "type_code contentChange = 4"
| "type_code initialSync = 5"
| "type_code initialSyncRequest = 6"
| "type_code connect = 7"
| "type_code disconnect = 8"
| "type_code payload_t = 9"
| "type_code resendRequest = 10"
| "type_code linkLost = 11"

definition all_types :: "msg_type list" where
  "all_types = [invalid, lock, unlock, deleteFile, contentChange, initialSync, initialSyncRequest,
     connect, disconnect, payload_t, resendRequest, linkLost]"

definition type_of_code :: "8 word \<Rightarrow> msg_type option" where
  "type_of_code c = find (\<lambda>t. type_code t = c) all_types"

text \<open>Times are nanoseconds since the epoch.\<close>

record Message =
  mtype :: "8 word"
  receiverNode :: ip_address
  senderNode :: ip_address
  originatorNode :: ip_address
  messageHash :: size_t

record PayloadMessage = Message +
  payload :: string

record ResendRequestMessage = Message +
  requestedHash :: size_t
  originalDestination :: ip_address

record FileMessage = Message +
  targetFile :: path
  timestamp :: int

record FileContentMessage = FileMessage +
  fileContent :: string

record FileInitialSyncMessage = FileContentMessage +
  total :: size_t
  index :: size_t

record ConnectMessage = Message +
  backupPeers :: "(ip_address \<times> 16 word) list"
  managedPaths :: "path list"

text \<open>A freshly constructed base message of a type: the default member initialisers.\<close>

definition new_Message :: "msg_type \<Rightarrow> Message" where
  "new_Message t = \<lparr>mtype = type_code t, receiverNode = NoAddress, senderNode = ipv6Unspecified,
     originatorNode = ipv6Unspecified, messageHash = 0\<rparr>"

datatype any_message =
    MBase Message
  | MPayload PayloadMessage
  | MResend ResendRequestMessage
  | MFile FileMessage
  | MContent FileContentMessage
  | MSync FileInitialSyncMessage
  | MConnect ConnectMessage

primrec header :: "any_message \<Rightarrow> Message" where
  "header (MBase m) = m"
| "header (MPayload m) = Message.truncate m"
| "header (MResend m) = Message.truncate m"
| "header (MFile m) = Message.truncate m"
| "header (MContent m) = Message.truncate m"
| "header (MSync m) = Message.truncate m"
| "header (MConnect m) = Message.truncate m"

definition msg_kind :: "any_message \<Rightarrow> msg_type option" where
  "msg_kind m = type_of_code (mtype (header m))"

text \<open>
  \<open>header_update f\<close> changes fields of the base class, whatever the class of the object.
\<close>

definition on_base :: "(Message \<Rightarrow> Message) \<Rightarrow> 'a Message_scheme \<Rightarrow> 'a Message_scheme" where
  "on_base f m =
     (let b = f (Message.truncate m)
      in m\<lparr>mtype := mtype b, receiverNode := receiverNode b, senderNode := senderNode b,
           originatorNode := originatorNode b, messageHash := messageHash b\<rparr>)"

primrec header_update :: "(Message \<Rightarrow> Message) \<Rightarrow> any_message \<Rightarrow> any_message" where
  "header_update f (MBase m) = MBase (f m)"
| "header_update f (MPayload m) = MPayload (on_base f m)"
| "header_update f (MResend m) = MResend (on_base f m)"
| "header_update f (MFile m) = MFile (on_base f m)"
| "header_update f (MContent m) = MContent (on_base f m)"
| "header_update f (MSync m) = MSync (on_base f m)"
| "header_update f (MConnect m) = MConnect (on_base f m)"

section \<open>Hashes\<close>

text \<open>\<open>::hash\<close> adds the characters up; \<open>char\<close> is signed, so bytes above 127 subtract.\<close>

definition hash_str :: "string \<Rightarrow> size_t" where
  "hash_str str = foldl (\<lambda>h c. h + scast (byte_of_char c)) 0 str"

definition convertTimepoint :: "int \<Rightarrow> int \<Rightarrow> int \<Rightarrow> int" where
  "convertTimepoint tp now_in now_out = tp - now_in + now_out"

text \<open>\<open>std::chrono::system_clock::to_time_t\<close> and \<open>from_time_t\<close>.\<close>

definition sys_to_time_t :: "int \<Rightarrow> int" where
  "sys_to_time_t tp = tdiv tp 1000000000"

definition sys_from_time_t :: "int \<Rightarrow> int" where
  "sys_from_time_t t = t * 1000000000"

definition to_time_t :: "int \<Rightarrow> int \<Rightarrow> int \<Rightarrow> int" where
  "to_time_t tp now_in now_out = sys_to_time_t (convertTimepoint tp now_in now_out)"

text \<open>
  The \<open>hashString\<close> overrides.  \<open>t\<close> is what \<open>to_time_t(timestamp)\<close> returned: it depends on the two
  clock readings of \<open>convertTimepoint\<close>.
\<close>

definition hashString_Message :: "lib \<Rightarrow> 'a Message_scheme \<Rightarrow> string" where
  "hashString_Message L m =
     to_string (unat (mtype m)) @ ip_string L (receiverNode m) @ ip_string L (originatorNode m)"

definition hashString_Payload :: "lib \<Rightarrow> PayloadMessage \<Rightarrow> string" where
  "hashString_Payload L m = hashString_Message L m @ payload m"

definition hashString_Resend :: "lib \<Rightarrow> ResendRequestMessage \<Rightarrow> string" where
  "hashString_Resend L m = hashString_Message L m @ to_string (unat (requestedHash m))
     @ ip_string L (originalDestination m)"

definition hashString_File :: "lib \<Rightarrow> int \<Rightarrow> 'a FileMessage_scheme \<Rightarrow> string" where
  "hashString_File L t m = hashString_Message L m @ path_string (targetFile m) @ ctime L t"

definition hashString_Content :: "lib \<Rightarrow> int \<Rightarrow> 'a FileContentMessage_scheme \<Rightarrow> string" where
  "hashString_Content L t m = hashString_File L t m @ fileContent m"

definition hashString_Sync :: "lib \<Rightarrow> int \<Rightarrow> FileInitialSyncMessage \<Rightarrow> string" where
  "hashString_Sync L t m = hashString_Content L t m @ to_string (unat (total m))
     @ to_string (unat (index m))"

definition hashString_Connect :: "lib \<Rightarrow> ConnectMessage \<Rightarrow> string" where
  "hashString_Connect L m = hashString_Message L m
     @ concat (map (\<lambda>(ip, port). ip_string L ip @ to_string (unat port)) (backupPeers m))
     @ concat (map path_string (managedPaths m))"

primrec hashString :: "lib \<Rightarrow> int \<Rightarrow> any_message \<Rightarrow> string" where
  "hashString L t (MBase m) = hashString_Message L m"
| "hashString L t (MPayload m) = hashString_Payload L m"
| "hashString L t (MResend m) = hashString_Resend L m"
| "hashString L t (MFile m) = hashString_File L t m"
| "hashString L t (MContent m) = hashString_Content L t m"
| "hashString L t (MSync m) = hashString_Sync L t m"
| "hashString L t (MConnect m) = hashString_Connect L m"

definition msg_hash :: "lib \<Rightarrow> int \<Rightarrow> any_message \<Rightarrow> size_t" where
  "msg_hash L t m = hash_str (hashString L t m)"

text \<open>The time point a message's hash depends on, for the classes that have one.\<close>

primrec hash_timestamp :: "any_message \<Rightarrow> int option" where
  "hash_timestamp (MBase m) = None"
| "hash_timestamp (MPayload m) = None"
| "hash_timestamp (MResend m) = None"
| "hash_timestamp (MFile m) = Some (timestamp m)"
| "hash_timestamp (MContent m) = Some (timestamp m)"
| "hash_timestamp (MSync m) = Some (timestamp m)"
| "hash_timestamp (MConnect m) = None"

end
