(* ===== verification/MessageQueue.thy ===== *)
theory MessageQueue
  imports Messages "HOL-Library.Multiset"
begin

text \<open>
  The priority queue of \<open>src/src/message_manager.hpp\<close>: the comparison \<open>PrioComp\<close> and the use the
  program makes of \<open>std::priority_queue\<close> (\<open>emplace\<close>, \<open>top\<close>, \<open>pop\<close>).  The queue is the list of its
  entries in the order of insertion; \<open>pq_top\<close> is an entry that no other entry exceeds under
  \<open>PrioComp\<close>, the oldest such entry, where the standard leaves the choice open.  The entries are
  compared when the top is taken; a heap also compares when an entry is put in, but only entries that
  are in the queue together: as long as the queue is \<open>comparable\<close>, none of these comparisons is
  undefined.
\<close>

type_synonym prio = "size_t \<times> any_message"

definition payloadPriority :: size_t where "payloadPriority = 10"
definition resendPriority :: size_t where "resendPriority = 0"
definition lockPriority :: size_t where "lockPriority = 4"
definition filePriority :: size_t where "filePriority = 5"
definition connectPriority :: size_t where "connectPriority = 1"
definition disconnectPriority :: size_t where "disconnectPriority = 2"

lemmas priority_defs = payloadPriority_def resendPriority_def lockPriority_def filePriority_def
  connectPriority_def disconnectPriority_def

definition fileTypes :: "8 word" where
  "fileTypes = type_code lock OR type_code unlock OR type_code deleteFile
     OR type_code contentChange OR type_code initialSync"

definition has_file_bits :: "any_message \<Rightarrow> bool" where
  "has_file_bits m \<longleftrightarrow> mtype (header m) AND fileTypes \<noteq> 0"

text \<open>
  \<open>PrioComp()(a, b)\<close>.  Two entries of one priority whose types share bits with \<open>fileTypes\<close> are read
  as file messages; \<open>None\<close> is the undefined behaviour of doing so with an object that has no time
  stamp.
\<close>

definition prio_less :: "prio \<Rightarrow> prio \<Rightarrow> bool option" where
  "prio_less a b =
     (if fst a = fst b \<and> has_file_bits (snd a) \<and> has_file_bits (snd b)
      then (case (hash_timestamp (snd a), hash_timestamp (snd b)) of
              (Some s, Some t) \<Rightarrow> Some (s - t < 0)
            | _ \<Rightarrow> None)
      else Some (fst b < fst a))"

fun pq_select :: "prio \<Rightarrow> prio list \<Rightarrow> prio option" where
  "pq_select best [] = Some best"
| "pq_select best (x # xs) =
     (case prio_less best x of
        None \<Rightarrow> None
      | Some l \<Rightarrow> if l then pq_select x xs else pq_select best xs)"

definition pq_emplace :: "size_t \<Rightarrow> any_message \<Rightarrow> prio list \<Rightarrow> prio list" where
  "pq_emplace p m q = q @ [(p, m)]"

definition pq_empty :: "prio list \<Rightarrow> bool" where
  "pq_empty q \<longleftrightarrow> q = []"

definition pq_top :: "prio list \<Rightarrow> prio option" where
  "pq_top q = (case q of [] \<Rightarrow> None | x # xs \<Rightarrow> pq_select x xs)"

definition pq_pop :: "prio list \<Rightarrow> prio list" where
  "pq_pop q = (case pq_top q of None \<Rightarrow> q | Some x \<Rightarrow> remove1 x q)"

section \<open>The order of service\<close>

lemma prio_less_fst: "prio_less a b = Some True \<Longrightarrow> fst b \<le> fst a"
  by (auto simp: prio_less_def split: if_splits option.splits)

lemma prio_not_less_fst: "prio_less a b = Some False \<Longrightarrow> fst a \<le> fst b"
  by (auto simp: prio_less_def split: if_splits option.splits)

lemma prio_less_same:
  assumes "fst a = fst b" "has_file_bits (snd a)" "has_file_bits (snd b)"
    "hash_timestamp (snd a) = Some s" "hash_timestamp (snd b) = Some t"
  shows "prio_less a b = Some (s < t)"
  using assms by (simp add: prio_less_def)

lemma pq_select_in: "pq_select b xs = Some x \<Longrightarrow> x \<in> insert b (set xs)"
  by (induction b xs rule: pq_select.induct) (auto split: option.splits if_splits)

lemma pq_select_fst: "pq_select b xs = Some x \<Longrightarrow> y \<in> insert b (set xs) \<Longrightarrow> fst x \<le> fst y"
proof (induction b xs arbitrary: y rule: pq_select.induct)
  case (1 best)
  then show ?case by simp
next
  case (2 best z zs)
  then obtain l where l: "prio_less best z = Some l" by (auto split: option.splits)
  show ?case
  proof (cases l)
    case True
    with 2 l have IH: "\<forall>y \<in> insert z (set zs). fst x \<le> fst y" by simp
    moreover have "fst z \<le> fst best" using l True prio_less_fst by simp
    ultimately have "fst x \<le> fst best" by (meson insertI1 order.trans)
    with IH show ?thesis using "2.prems"(2) by (metis insert_iff list.set(2))
  next
    case False
    with 2 l have IH: "\<forall>y \<in> insert best (set zs). fst x \<le> fst y" by simp
    moreover have "fst best \<le> fst z" using l False prio_not_less_fst by simp
    ultimately have "fst x \<le> fst z" by (meson insertI1 order.trans)
    with IH show ?thesis using "2.prems"(2) by (metis insert_iff list.set(2))
  qed
qed

text \<open>
  Within one priority, the entry served has the greatest time stamp of the file messages.
\<close>

definition stamped :: "size_t \<Rightarrow> prio \<Rightarrow> bool" where
  "stamped p x \<longleftrightarrow> fst x = p \<longrightarrow> has_file_bits (snd x) \<and> hash_timestamp (snd x) \<noteq> None"

lemma pq_select_newest:
  "pq_select b xs = Some x \<Longrightarrow> \<forall>z \<in> insert b (set xs). stamped (fst x) z \<Longrightarrow>
    y \<in> insert b (set xs) \<Longrightarrow> fst y = fst x \<Longrightarrow>
    the (hash_timestamp (snd y)) \<le> the (hash_timestamp (snd x))"
proof (induction b xs arbitrary: y rule: pq_select.induct)
  case (1 best)
  then show ?case by simp
next
  case (2 best z zs)
  let ?t = "\<lambda>y. the (hash_timestamp (snd y))"
  from 2 obtain l where l: "prio_less best z = Some l" by (auto split: option.splits)
  have same: "l = (?t best < ?t z)" if "fst best = fst x" "fst z = fst x"
    using that "2.prems"(2) l prio_less_same [of best z] by (auto simp: stamped_def)
  show ?case
  proof (cases l)
    case True
    with 2 l have sel: "pq_select z zs = Some x" by simp
    have IH: "?t y \<le> ?t x" if "y \<in> insert z (set zs)" "fst y = fst x" for y
      using "2.IH"(1) [OF l True sel _ that] "2.prems"(2) by simp
    have "?t best \<le> ?t x" if "fst best = fst x"
    proof -
      have "fst z \<le> fst best" using l True prio_less_fst by simp
      moreover have "fst x \<le> fst z" using pq_select_fst [OF sel] by simp
      ultimately have "fst z = fst x" using that by simp
      with that True same IH [of z] show ?thesis by simp
    qed
    with IH "2.prems"(3,4) show ?thesis by (metis insert_iff list.set(2))
  next
    case False
    with 2 l have sel: "pq_select best zs = Some x" by simp
    have IH: "?t y \<le> ?t x" if "y \<in> insert best (set zs)" "fst y = fst x" for y
      using "2.IH"(2) [OF l False sel _ that] "2.prems"(2) by simp
    have "?t z \<le> ?t x" if "fst z = fst x"
    proof -
      have "fst best \<le> fst z" using l False prio_not_less_fst by simp
      moreover have "fst x \<le> fst best" using pq_select_fst [OF sel] by simp
      ultimately have "fst best = fst x" using that by simp
      with that False same IH [of best] show ?thesis by simp
    qed
    with IH "2.prems"(3,4) show ?thesis by (metis insert_iff list.set(2))
  qed
qed

lemma pq_top_in: "pq_top q = Some x \<Longrightarrow> x \<in> set q"
  by (cases q) (auto simp: pq_top_def dest: pq_select_in)

lemma pq_top_fst: "pq_top q = Some x \<Longrightarrow> y \<in> set q \<Longrightarrow> fst x \<le> fst y"
  by (cases q) (auto simp: pq_top_def dest: pq_select_fst)

lemma mset_pq_emplace [simp]: "mset (pq_emplace p m q) = add_mset (p, m) (mset q)"
  by (simp add: pq_emplace_def)

lemma mset_pq_pop: "pq_top q = Some x \<Longrightarrow> mset (pq_pop q) = mset q - {#x#}"
  by (simp add: pq_pop_def)

section \<open>Entries that can be compared\<close>

text \<open>Two messages that \<open>PrioComp\<close>, at equal priorities, reads as file messages although one of them
  has no time stamp; a queue without two such entries of one priority.\<close>

definition clash :: "any_message \<Rightarrow> any_message \<Rightarrow> bool" where
  "clash m m' \<longleftrightarrow> has_file_bits m \<and> has_file_bits m'
     \<and> (hash_timestamp m = None \<or> hash_timestamp m' = None)"

definition comparable :: "prio list \<Rightarrow> bool" where
  "comparable q \<longleftrightarrow> sorted_wrt (\<lambda>x y. \<not> (fst x = fst y \<and> clash (snd x) (snd y))) q"

lemma prio_less_None: "prio_less x y = None \<longleftrightarrow> fst x = fst y \<and> clash (snd x) (snd y)"
  by (auto simp: prio_less_def clash_def split: option.split)

lemma comparable_select: "comparable (x # xs) \<Longrightarrow> pq_select x xs \<noteq> None"
proof (induction x xs rule: pq_select.induct)
  case (1 best)
  then show ?case by simp
next
  case (2 best z zs)
  have "prio_less best z \<noteq> None" using 2(3) by (simp add: prio_less_None comparable_def)
  then obtain l where l: "prio_less best z = Some l" by blast
  have "comparable (z # zs)" "comparable (best # zs)" using 2(3) by (simp_all add: comparable_def)
  then show ?case using 2(1,2) [OF l] l by (cases l) simp_all
qed

lemma comparable_top: "comparable q \<Longrightarrow> q \<noteq> [] \<Longrightarrow> \<exists>x. pq_top q = Some x"
  using comparable_select by (cases q) (force simp: pq_top_def)+

text \<open>A symmetric relation on the entries of a list does not depend on their order.\<close>

lemma sorted_wrt_mset:
  assumes "\<And>x y. P x y \<Longrightarrow> P y x"
  shows "mset xs = mset ys \<Longrightarrow> sorted_wrt P xs \<Longrightarrow> sorted_wrt P ys"
proof (induction xs arbitrary: ys)
  case Nil
  then show ?case by simp
next
  case (Cons x xs)
  have "x \<in> set ys" using Cons.prems(1) by (metis list.set_intros(1) mset_eq_setD)
  then obtain as bs where ys: "ys = as @ x # bs" by (meson split_list)
  have m: "mset xs = mset (as @ bs)" using Cons.prems(1) ys by simp
  then have "set xs = set as \<union> set bs" by (metis mset_eq_setD set_append)
  then have "\<forall>y \<in> set as \<union> set bs. P x y" "sorted_wrt P (as @ bs)"
    using Cons.IH [OF m] Cons.prems(2) by simp_all
  then show ?case using assms [of x] by (auto simp: ys sorted_wrt_append)
qed

lemma clash_free_comparable: "sorted_wrt (\<lambda>m m'. \<not> clash m m') (map snd q) \<Longrightarrow> comparable q"
  by (simp add: comparable_def sorted_wrt_map) (erule sorted_wrt_mono_rel [rotated], simp)

section \<open>The interface of the queue\<close>

text \<open>
  What the message loop relies on: nothing is lost or invented, and the entry served has the least
  rank.
\<close>

locale ranked_queue =
  fixes emplace :: "'p::linorder \<Rightarrow> 'm \<Rightarrow> 'q \<Rightarrow> 'q"
    and top :: "'q \<Rightarrow> ('p \<times> 'm) option"
    and pop :: "'q \<Rightarrow> 'q"
    and items :: "'q \<Rightarrow> ('p \<times> 'm) multiset"
  assumes items_emplace: "items (emplace p m q) = add_mset (p, m) (items q)"
    and top_in: "top q = Some x \<Longrightarrow> x \<in># items q"
    and top_least: "top q = Some x \<Longrightarrow> y \<in># items q \<Longrightarrow> fst x \<le> fst y"
    and items_pop: "top q = Some x \<Longrightarrow> items (pop q) = items q - {#x#}"
begin

text \<open>An entry of lower rank is served before an entry of higher rank that was there first.\<close>

lemma overtakes:
  assumes "top (emplace p m q) = Some x" and "y \<in># items q" and "p < fst y"
  shows "x \<noteq> y"
  using top_least [OF assms(1), of "(p, m)"] assms(3) by (auto simp: items_emplace)

lemma size_pop: "top q = Some x \<Longrightarrow> size (items (pop q)) < size (items q)"
  using top_in items_pop by (metis size_Diff1_less)

lemma pop_emplace:
  assumes "top q = Some (p, m)"
  shows "items (emplace p' m (pop q)) = add_mset (p', m) (items q - {#(p, m)#})"
  using assms by (simp add: items_emplace items_pop)

end

interpretation mq: ranked_queue pq_emplace pq_top pq_pop mset
  by unfold_locales (auto simp: mset_pq_pop dest: pq_top_in pq_top_fst)

text \<open>The message taken from the queue has the least priority number of all waiting messages,
  and taking it removes it and nothing else.\<close>

lemma queue_serves_least_priority:
  assumes "pq_top q = Some x"
  shows "x \<in> set q \<and> (\<forall>y \<in> set q. fst x \<le> fst y) \<and> mset (pq_pop q) = mset q - {#x#}"
  using mq.top_in [OF assms] mq.top_least [OF assms] mq.items_pop [OF assms] by auto


text \<open>Among waiting file messages of one priority the one with the latest time stamp is served
  first, so two changes of a file that wait together are applied newest first.\<close>

lemma queue_serves_newest_file_message_first:
  assumes "pq_top q = Some x" and "\<forall>z \<in> set q. stamped (fst x) z"
    and "y \<in> set q" and "fst y = fst x"
  shows "the (hash_timestamp (snd y)) \<le> the (hash_timestamp (snd x))"
proof (cases q)
  case Nil
  with assms show ?thesis by simp
next
  case (Cons b xs)
  with assms show ?thesis
    by (intro pq_select_newest [of b xs x y]) (auto simp: pq_top_def)
qed

definition change_at :: "int \<Rightarrow> string \<Rightarrow> any_message" where
  "change_at t s = MContent \<lparr>mtype = type_code contentChange, receiverNode = ipv6Unspecified,
     senderNode = ipv6Unspecified, originatorNode = IPv6 7, messageHash = 0,
     targetFile = [''d'', ''f''], timestamp = t, fileContent = s\<rparr>"


text \<open>The mask test of the comparison is not a test for file messages: comparing two waiting
  messages of one priority that are payloads, connects, resend requests, sync requests or lost
  links reads a time stamp such objects do not have.\<close>

lemma comparing_two_non_file_messages_is_undefined:
  assumes "msg_kind m = Some t" and "msg_kind m' = Some t'"
    and "t \<in> {initialSyncRequest, connect, payload_t, resendRequest, linkLost}"
    and "t' \<in> {initialSyncRequest, connect, payload_t, resendRequest, linkLost}"
    and "hash_timestamp m = None" and "hash_timestamp m' = None"
  shows "prio_less (p, m) (p, m') = None"
proof -
  have code: "type_of_code c = Some u \<Longrightarrow> c = type_code u" for c u
    by (auto simp: type_of_code_def find_Some_iff)
  have "has_file_bits m" if "msg_kind m = Some t"
    "t \<in> {initialSyncRequest, connect, payload_t, resendRequest, linkLost}" for m t
    using that code [of "mtype (header m)" t] by (auto simp: has_file_bits_def msg_kind_def fileTypes_def)
  then have "has_file_bits m" "has_file_bits m'"
    using assms(1-4) by blast+
  then show ?thesis using assms(5,6) by (simp add: prio_less_def)
qed


end
