(* ===== verification/CircularBuffer.thy ===== *)
theory CircularBuffer
  imports Prelude
begin

text \<open>
  \<open>src/thirdparty/circular_buffer.hpp\<close>, the ring that keeps the last 100 messages: the class
  \<open>circular_buffer_base\<close> over an array, its finalising subclass, its iterators, and the range-based
  loop over it.  The abstraction of a buffer is the list \<open>contents\<close>, oldest element first; the
  locale \<open>bounded_log\<close> is the interface the message cache relies on.
\<close>

section \<open>State\<close>

record 'a circular_buffer =
  cells :: "'a list"
  bsize :: nat
  start :: nat

record 'a finalizeable_buffer = "'a circular_buffer" +
  finalizer :: "'a \<Rightarrow> exn + 'a"

definition capacity :: "('a, 'b) circular_buffer_scheme \<Rightarrow> nat" where
  "capacity b = length (cells b)"

definition cb_end :: "('a, 'b) circular_buffer_scheme \<Rightarrow> nat" where
  "cb_end b = (start b + bsize b) mod capacity b"

definition cb_empty :: "('a, 'b) circular_buffer_scheme \<Rightarrow> bool" where
  "cb_empty b \<longleftrightarrow> bsize b = 0"

definition increment :: "('a, 'b) circular_buffer_scheme \<Rightarrow> nat \<Rightarrow> nat" where
  "increment b n = (n + 1) mod capacity b"

definition decrement :: "('a, 'b) circular_buffer_scheme \<Rightarrow> nat \<Rightarrow> nat" where
  "decrement b n = (if n = 0 then capacity b - 1 else (n - 1) mod capacity b)"

section \<open>Iterators\<close>

record circular_iterator =
  it_i :: nat
  it_isBegin :: bool

definition cb_begin :: "('a, 'b) circular_buffer_scheme \<Rightarrow> circular_iterator" where
  "cb_begin b = \<lparr>it_i = start b, it_isBegin = True\<rparr>"

definition cb_end_iter :: "('a, 'b) circular_buffer_scheme \<Rightarrow> circular_iterator" where
  "cb_end_iter b = \<lparr>it_i = cb_end b, it_isBegin = False\<rparr>"

definition it_increment ::
    "('a, 'b) circular_buffer_scheme \<Rightarrow> circular_iterator \<Rightarrow> circular_iterator" where
  "it_increment b it = \<lparr>it_i = increment b (it_i it), it_isBegin = False\<rparr>"

text \<open>Two iterators of one buffer: its contents equal themselves, so the fields decide.\<close>

definition it_equal :: "circular_iterator \<Rightarrow> circular_iterator \<Rightarrow> bool" where
  "it_equal a c \<longleftrightarrow> it_i a = it_i c \<and> it_isBegin a = it_isBegin c"

text \<open>
  The range-based loop \<open>for(auto& e: b)\<close>: the elements visited, \<open>None\<close> when the fuel runs out.
\<close>

fun visit :: "nat \<Rightarrow> ('a, 'b) circular_buffer_scheme \<Rightarrow> circular_iterator \<Rightarrow> 'a list option" where
  "visit 0 b it = None"
| "visit (Suc fuel) b it =
     (if it_equal it (cb_end_iter b) then Some []
      else map_option ((#) (cells b ! it_i it)) (visit fuel b (it_increment b it)))"

definition range_for :: "('a, 'b) circular_buffer_scheme \<Rightarrow> 'a list option" where
  "range_for b = visit (Suc (capacity b)) b (cb_begin b)"

section \<open>Operations of \<open>circular_buffer_base\<close>\<close>

definition emplace_front ::
    "'a \<Rightarrow> ('a, 'b) circular_buffer_scheme \<Rightarrow> ('a, 'b) circular_buffer_scheme" where
  "emplace_front x b =
     (let b1 = (if bsize b < capacity b
                then b\<lparr>start := decrement b (start b), bsize := bsize b + 1\<rparr>
                else b\<lparr>start := decrement b (start b)\<rparr>)
      in b1\<lparr>cells := (cells b1)[start b1 := x]\<rparr>)"

definition pop_front :: "('a, 'b) circular_buffer_scheme \<Rightarrow> ('a, 'b) circular_buffer_scheme" where
  "pop_front b =
     (if 0 < bsize b then b\<lparr>start := increment b (start b), bsize := bsize b - 1\<rparr> else b)"

definition emplace_back ::
    "'a \<Rightarrow> ('a, 'b) circular_buffer_scheme \<Rightarrow> ('a, 'b) circular_buffer_scheme" where
  "emplace_back x b =
     (let b1 = b\<lparr>cells := (cells b)[cb_end b := x]\<rparr>
      in if bsize b1 < capacity b1 then b1\<lparr>bsize := bsize b1 + 1\<rparr>
         else b1\<lparr>start := increment b1 (start b1)\<rparr>)"

text \<open>The iterator \<open>emplace_back\<close> returns, at \<open>_end() - 1\<close> in \<open>size_t\<close> arithmetic.\<close>

definition emplace_back_iter :: "('a, 'b) circular_buffer_scheme \<Rightarrow> circular_iterator" where
  "emplace_back_iter b = \<lparr>it_i = (cb_end b + 2 ^ 64 - 1) mod 2 ^ 64, it_isBegin = False\<rparr>"

definition pop_back :: "('a, 'b) circular_buffer_scheme \<Rightarrow> ('a, 'b) circular_buffer_scheme" where
  "pop_back b = (if 0 < bsize b then b\<lparr>bsize := bsize b - 1\<rparr> else b)"

definition cb_index :: "('a, 'b) circular_buffer_scheme \<Rightarrow> nat \<Rightarrow> 'a" where
  "cb_index b i = cells b ! ((start b + i) mod 2 ^ 64 mod capacity b)"

definition cb_at :: "('a, 'b) circular_buffer_scheme \<Rightarrow> nat \<Rightarrow> exn + 'a" where
  "cb_at b i =
     (if bsize b < i then Inl (RuntimeError ''out of bounds of the buffer'')
      else Inr (cb_index b i))"

definition cb_front :: "('a, 'b) circular_buffer_scheme \<Rightarrow> 'a" where
  "cb_front b = cb_index b 0"

definition cb_back :: "('a, 'b) circular_buffer_scheme \<Rightarrow> 'a" where
  "cb_back b = cb_index b ((bsize b + 2 ^ 64 - 1) mod 2 ^ 64)"

section \<open>Operations of \<open>finalizeable_circular_buffer_base\<close>\<close>

text \<open>The finaliser runs on the slot itself: what it makes of the element stays in the slot.\<close>

definition finalize_at :: "nat \<Rightarrow> ('a finalizeable_buffer, unit) prog" where
  "finalize_at i = (\<lambda>b. case finalizer b (cells b ! i) of
     Inl e \<Rightarrow> (Inl e, b)
   | Inr y \<Rightarrow> (Inr (), b\<lparr>cells := (cells b)[i := y]\<rparr>))"

definition new_finalizeable :: "nat \<Rightarrow> 'a \<Rightarrow> 'a finalizeable_buffer" where
  "new_finalizeable n x =
     \<lparr>cells = replicate n x, bsize = 0, start = 0,
      finalizer = (\<lambda>_. Inl (RuntimeError ''Invalid finalizer!''))\<rparr>"

definition setFinalizer :: "('a \<Rightarrow> exn + 'a) \<Rightarrow> 'a finalizeable_buffer \<Rightarrow> 'a finalizeable_buffer" where
  "setFinalizer f b = b\<lparr>finalizer := f\<rparr>"

definition f_emplace_back :: "'a \<Rightarrow> ('a finalizeable_buffer, circular_iterator) prog" where
  "f_emplace_back x =
     bnd (gets id) (\<lambda>b.
     bnd (if capacity b \<le> bsize b then finalize_at (cb_end b) else ret ()) (\<lambda>_.
     bnd (updates (emplace_back x)) (\<lambda>_.
     gets emplace_back_iter)))"

definition f_emplace_front :: "'a \<Rightarrow> ('a finalizeable_buffer, circular_iterator) prog" where
  "f_emplace_front x =
     bnd (gets id) (\<lambda>b.
     bnd (if bsize b < capacity b
          then updates (\<lambda>b. b\<lparr>start := decrement b (start b), bsize := bsize b + 1\<rparr>)
          else bnd (updates (\<lambda>b. b\<lparr>start := decrement b (start b)\<rparr>)) (\<lambda>_.
               bnd (gets start) finalize_at)) (\<lambda>_.
     bnd (updates (\<lambda>b. b\<lparr>cells := (cells b)[start b := x]\<rparr>)) (\<lambda>_.
     gets cb_begin)))"

definition f_pop_front :: "('a finalizeable_buffer, unit) prog" where
  "f_pop_front =
     bnd (gets id) (\<lambda>b.
     if 0 < bsize b
     then bnd (finalize_at (start b)) (\<lambda>_.
          updates (\<lambda>b. b\<lparr>start := increment b (start b), bsize := bsize b - 1\<rparr>))
     else ret ())"

definition f_pop_back :: "('a finalizeable_buffer, unit) prog" where
  "f_pop_back =
     bnd (gets id) (\<lambda>b.
     if 0 < bsize b
     then bnd (updates (\<lambda>b. b\<lparr>bsize := bsize b - 1\<rparr>)) (\<lambda>_.
          bnd (gets cb_end) finalize_at)
     else ret ())"

text \<open>\<open>finalize_all\<close> finalises the slots the range-based loop visits, in its order.\<close>

fun finalize_from :: "nat \<Rightarrow> circular_iterator \<Rightarrow> ('a finalizeable_buffer, unit) prog" where
  "finalize_from 0 it = throw OutOfFuel"
| "finalize_from (Suc fuel) it =
     bnd (gets id) (\<lambda>b.
     if it_equal it (cb_end_iter b) then ret ()
     else bnd (finalize_at (it_i it)) (\<lambda>_. finalize_from fuel (it_increment b it)))"

definition finalize_all :: "('a finalizeable_buffer, unit) prog" where
  "finalize_all = bnd (gets id) (\<lambda>b. finalize_from (Suc (capacity b)) (cb_begin b))"

definition f_clear :: "('a finalizeable_buffer, unit) prog" where
  "f_clear = bnd finalize_all (\<lambda>_. updates (\<lambda>b. b\<lparr>start := 0, bsize := 0\<rparr>))"

section \<open>Abstraction and invariant\<close>

definition slot :: "('a, 'b) circular_buffer_scheme \<Rightarrow> nat \<Rightarrow> 'a" where
  "slot b j = cells b ! ((start b + j) mod capacity b)"

definition contents :: "('a, 'b) circular_buffer_scheme \<Rightarrow> 'a list" where
  "contents b = map (slot b) [0..<bsize b]"

definition cb_inv :: "('a, 'b) circular_buffer_scheme \<Rightarrow> bool" where
  "cb_inv b \<longleftrightarrow> 0 < capacity b \<and> start b < capacity b \<and> bsize b \<le> capacity b"

lemma length_contents [simp]: "length (contents b) = bsize b"
  by (simp add: contents_def)

lemma contents_nth: "i < bsize b \<Longrightarrow> contents b ! i = slot b i"
  by (simp add: contents_def)

text \<open>Distinct offsets below the capacity are distinct slots.\<close>

lemma offset_inj:
  assumes "i < n" "j < n" "(s + i) mod n = (s + j) mod (n::nat)"
  shows "i = j"
proof -
  have "int i mod int n = int j mod int n"
    using assms(3) by (metis add_diff_cancel_left' mod_diff_left_eq of_nat_add of_nat_mod)
  with assms show ?thesis by simp
qed

lemma mod_add_Suc: "((s + 1) mod n + j) mod n = (s + Suc j) mod (n::nat)"
  by (simp add: mod_add_left_eq)

lemma decrement_eq:
  assumes "cb_inv b"
  shows "decrement b (start b) = (start b + (capacity b - 1)) mod capacity b"
proof (cases "start b = 0")
  case True
  with assms show ?thesis by (simp add: decrement_def cb_inv_def)
next
  case False
  then have "start b + (capacity b - 1) = start b - 1 + capacity b"
    using assms by (simp add: cb_inv_def)
  with False show ?thesis by (simp only: decrement_def mod_add_self2 if_False)
qed

lemma tl_map_upt: "tl (map f [0..<n]) = map (\<lambda>j. f (Suc j)) [0..<n - 1]"
  by (cases n) (simp_all add: upt_conv_Cons map_Suc_upt [symmetric] del: upt_Suc map_Suc_upt)

lemma butlast_map_upt: "butlast (map f [0..<n]) = map f [0..<n - 1]"
  by (cases n) (simp_all add: butlast_append)

section \<open>The operations on the abstraction\<close>

lemma capacity_ops [simp]:
  "capacity (emplace_back x b) = capacity b"
  "capacity (emplace_front x b) = capacity b"
  "capacity (pop_front b) = capacity b"
  "capacity (pop_back b) = capacity b"
  by (simp_all add: capacity_def emplace_back_def emplace_front_def pop_front_def pop_back_def Let_def)

lemma cb_inv_ops [simp]:
  "cb_inv b \<Longrightarrow> cb_inv (emplace_back x b)"
  "cb_inv b \<Longrightarrow> cb_inv (emplace_front x b)"
  "cb_inv b \<Longrightarrow> cb_inv (pop_front b)"
  "cb_inv b \<Longrightarrow> cb_inv (pop_back b)"
  by (auto simp: cb_inv_def emplace_back_def emplace_front_def pop_front_def pop_back_def
      increment_def decrement_def capacity_def Let_def less_imp_diff_less)

lemma emplace_back_contents:
  assumes inv: "cb_inv b"
  shows "contents (emplace_back x b) =
    (if bsize b < capacity b then contents b @ [x] else tl (contents b) @ [x])"
proof -
  let ?n = "capacity b" and ?b = "emplace_back x b"
  have n: "0 < ?n" "start b < ?n" "bsize b \<le> ?n" using inv by (auto simp: cb_inv_def)
  show ?thesis
  proof (cases "bsize b < ?n")
    case True
    have "slot ?b j = slot b j" if "j < bsize b" for j
    proof -
      have "(start b + j) mod ?n \<noteq> (start b + bsize b) mod ?n"
        using offset_inj [of j ?n "bsize b" "start b"] that True by auto
      then show ?thesis
        using True by (simp add: slot_def emplace_back_def Let_def capacity_def cb_end_def)
    qed
    moreover have "slot ?b (bsize b) = x"
      using True n by (simp add: slot_def emplace_back_def Let_def capacity_def cb_end_def)
    moreover have "bsize ?b = Suc (bsize b)"
      using True by (simp add: emplace_back_def Let_def capacity_def)
    ultimately show ?thesis using True by (simp add: contents_def)
  next
    case False
    with n have full: "bsize b = ?n" by simp
    then have e: "cb_end b = start b" using n by (simp add: cb_end_def)
    have sl: "slot ?b j = (cells b)[start b := x] ! ((start b + Suc j) mod ?n)" for j
      using full e mod_add_Suc [of "start b" ?n j]
      by (simp add: slot_def emplace_back_def Let_def capacity_def increment_def)
    have "slot ?b j = slot b (Suc j)" if "Suc j < ?n" for j
    proof -
      have "(start b + Suc j) mod ?n \<noteq> start b"
        using offset_inj [of "Suc j" ?n 0 "start b"] that n by auto
      then show ?thesis using sl [of j] by (simp add: slot_def [of b])
    qed
    moreover have "slot ?b (?n - 1) = x"
      using sl [of "?n - 1"] n by (simp add: capacity_def)
    moreover have "bsize ?b = ?n"
      using full by (simp add: emplace_back_def Let_def capacity_def)
    moreover have "[0..<?n] = [0..<?n - 1] @ [?n - 1]"
      using n by (metis Suc_diff_1 upt_Suc_append zero_le)
    moreover have "tl (contents b) = map (\<lambda>j. slot b (Suc j)) [0..<?n - 1]"
      using full by (simp add: contents_def tl_map_upt)
    ultimately show ?thesis using full by (simp add: contents_def)
  qed
qed

lemma emplace_front_contents:
  assumes inv: "cb_inv b"
  shows "contents (emplace_front x b) =
    x # (if bsize b < capacity b then contents b else butlast (contents b))"
proof -
  let ?n = "capacity b" and ?b = "emplace_front x b"
  have n: "0 < ?n" "start b < ?n" "bsize b \<le> ?n" using inv by (auto simp: cb_inv_def)
  have st: "start ?b = (start b + (?n - 1)) mod ?n"
    using decrement_eq [OF inv] by (simp add: emplace_front_def Let_def)
  have ce: "cells ?b = (cells b)[start ?b := x]"
    by (simp add: emplace_front_def Let_def)
  have first: "slot ?b 0 = x"
  proof -
    have "start ?b < length (cells b)" using st n by (simp add: capacity_def)
    then show ?thesis using ce by (simp add: slot_def capacity_def)
  qed
  have later: "slot ?b (Suc j) = slot b j" if "Suc j < ?n" for j
  proof -
    have "(start ?b + Suc j) mod ?n = (start b + j) mod ?n"
    proof -
      have "(start ?b + Suc j) mod ?n = (start b + (?n - 1) + Suc j) mod ?n"
        by (simp only: st mod_add_left_eq)
      also have "start b + (?n - 1) + Suc j = start b + j + ?n" using n by simp
      finally show ?thesis by simp
    qed
    moreover have "(start ?b + Suc j) mod ?n \<noteq> start ?b"
      using offset_inj [of "Suc j" ?n 0 "start ?b"] that n st by auto
    ultimately show ?thesis using ce by (simp add: slot_def)
  qed
  have split: "contents ?b = slot ?b 0 # map (\<lambda>j. slot ?b (Suc j)) [0..<bsize ?b - 1]"
    if "0 < bsize ?b"
    using that tl_map_upt [of "slot ?b" "bsize ?b"] by (simp add: contents_def upt_conv_Cons)
  show ?thesis
  proof (cases "bsize b < ?n")
    case True
    then have "bsize ?b = Suc (bsize b)" by (simp add: emplace_front_def Let_def)
    then show ?thesis using True split first later by (simp add: contents_def)
  next
    case False
    then have sz: "bsize ?b = ?n" using n by (simp add: emplace_front_def Let_def)
    have "butlast (contents b) = map (slot b) [0..<?n - 1]"
      using False n by (simp add: contents_def butlast_map_upt)
    then show ?thesis using False sz n split first later by simp
  qed
qed

lemma pop_front_contents: "cb_inv b \<Longrightarrow> contents (pop_front b) = tl (contents b)"
proof -
  assume inv: "cb_inv b"
  have "slot (pop_front b) j = slot b (Suc j)" if "0 < bsize b" for j
    using that mod_add_Suc [of "start b" "capacity b" j]
    by (simp add: slot_def pop_front_def increment_def capacity_def)
  then show ?thesis
    by (cases "0 < bsize b") (auto simp: contents_def tl_map_upt pop_front_def)
qed

lemma pop_back_contents: "contents (pop_back b) = butlast (contents b)"
proof -
  have "slot (pop_back b) = slot b"
    by (rule ext) (simp add: slot_def pop_back_def capacity_def)
  then show ?thesis
    by (cases "0 < bsize b") (auto simp: contents_def butlast_map_upt pop_back_def)
qed

section \<open>The finalising operations\<close>

text \<open>A finaliser that does not throw: the slot it changed is overwritten at once.\<close>

definition total_finalizer :: "'a finalizeable_buffer \<Rightarrow> bool" where
  "total_finalizer b \<longleftrightarrow> (\<forall>x. \<exists>y. finalizer b x = Inr y)"

lemma finalize_at_exec:
  "finalizer b (cells b ! i) = Inr y \<Longrightarrow> finalize_at i b = (Inr (), b\<lparr>cells := (cells b)[i := y]\<rparr>)"
  by (simp add: finalize_at_def)

lemma f_emplace_back_exec:
  assumes "total_finalizer b"
  shows "f_emplace_back x b = (Inr (emplace_back_iter (emplace_back x b)), emplace_back x b)"
proof (cases "capacity b \<le> bsize b")
  case True
  from assms obtain y where y: "finalizer b (cells b ! cb_end b) = Inr y"
    by (auto simp: total_finalizer_def)
  have "emplace_back x (b\<lparr>cells := (cells b)[cb_end b := y]\<rparr>) = emplace_back x b"
    using True by (simp add: emplace_back_def capacity_def cb_end_def increment_def)
  with True finalize_at_exec [OF y] show ?thesis
    by (simp add: f_emplace_back_def exec_simps)
next
  case False
  then show ?thesis by (simp add: f_emplace_back_def exec_simps)
qed

lemma f_emplace_front_exec:
  assumes "total_finalizer b"
  shows "f_emplace_front x b = (Inr (cb_begin (emplace_front x b)), emplace_front x b)"
proof (cases "bsize b < capacity b")
  case True
  then show ?thesis
    by (simp add: f_emplace_front_def exec_simps emplace_front_def cb_begin_def Let_def)
next
  case False
  from assms obtain y where y: "finalizer b (cells b ! decrement b (start b)) = Inr y"
    by (auto simp: total_finalizer_def)
  let ?b = "b\<lparr>start := decrement b (start b)\<rparr>"
  have "finalize_at (decrement b (start b)) ?b
      = (Inr (), ?b\<lparr>cells := (cells b)[decrement b (start b) := y]\<rparr>)"
    using finalize_at_exec [of ?b "decrement b (start b)" y] y by simp
  with False show ?thesis
    by (simp add: f_emplace_front_def exec_simps emplace_front_def cb_begin_def Let_def)
qed

lemma finalizer_kept: "finalizer (emplace_back x b) = finalizer b"
  by (simp add: emplace_back_def Let_def)

lemma total_finalizer_emplace_back [simp]:
  "total_finalizer b \<Longrightarrow> total_finalizer (emplace_back x b)"
  by (simp add: total_finalizer_def finalizer_kept)

section \<open>The range-based loop\<close>

lemma visit_from:
  assumes "cb_inv b" and "j \<le> bsize b" and "0 < j" and "bsize b - j < fuel"
  shows "visit fuel b \<lparr>it_i = (start b + j) mod capacity b, it_isBegin = False\<rparr>
    = Some (map (slot b) [j..<bsize b])"
  using assms
proof (induction fuel arbitrary: j)
  case 0
  then show ?case by simp
next
  case (Suc fuel)
  have n: "0 < capacity b" "bsize b \<le> capacity b" using Suc.prems by (auto simp: cb_inv_def)
  show ?case
  proof (cases "j = bsize b")
    case True
    then show ?thesis by (simp add: it_equal_def cb_end_iter_def cb_end_def)
  next
    case False
    with Suc.prems have j: "j < bsize b" by simp
    have "(start b + j) mod capacity b \<noteq> cb_end b"
    proof (cases "bsize b = capacity b")
      case True
      then show ?thesis
        using offset_inj [of j "capacity b" 0 "start b"] j Suc.prems(3) n
        by (auto simp: cb_end_def)
    next
      case False
      then show ?thesis
        using offset_inj [of j "capacity b" "bsize b" "start b"] j n by (auto simp: cb_end_def)
    qed
    moreover have "increment b ((start b + j) mod capacity b) = (start b + Suc j) mod capacity b"
      by (simp add: increment_def mod_Suc_eq)
    moreover have "[j..<bsize b] = j # [Suc j..<bsize b]" using j by (simp add: upt_conv_Cons)
    ultimately show ?thesis
      using Suc.IH [of "Suc j"] Suc.prems j
      by (simp add: it_equal_def cb_end_iter_def it_increment_def slot_def)
  qed
qed

lemma range_for_filled:
  assumes "cb_inv b" and "bsize b \<noteq> 0"
  shows "range_for b = Some (contents b)"
proof -
  have n: "start b < capacity b" "bsize b \<le> capacity b" using assms by (auto simp: cb_inv_def)
  have "visit (capacity b) b \<lparr>it_i = (start b + 1) mod capacity b, it_isBegin = False\<rparr>
      = Some (map (slot b) [1..<bsize b])"
    using assms n by (intro visit_from) auto
  moreover have "[0..<bsize b] = 0 # [1..<bsize b]" using assms by (simp add: upt_conv_Cons)
  ultimately show ?thesis
    using n by (simp add: range_for_def cb_begin_def cb_end_iter_def it_equal_def
        it_increment_def increment_def contents_def slot_def)
qed

lemma range_for_empty:
  assumes "cb_inv b" and "bsize b = 0"
  shows "range_for b = Some (map (slot b) [0..<capacity b])"
proof -
  have n: "start b < capacity b" "0 < capacity b" using assms by (auto simp: cb_inv_def)
  let ?f = "b\<lparr>bsize := capacity b\<rparr>"
  have e: "cb_end_iter ?f = cb_end_iter b" and f: "capacity ?f = capacity b"
    using assms(2) by (auto simp: cb_end_iter_def cb_end_def capacity_def)
  have v: "visit k ?f it = visit k b it" for k it
    by (induction k arbitrary: it)
      (simp_all add: e it_increment_def increment_def f)
  have inv: "cb_inv ?f" using n f by (simp add: cb_inv_def)
  have "range_for ?f = Some (contents ?f)" by (rule range_for_filled) (use inv n in auto)
  moreover have "range_for ?f = range_for b"
    by (simp add: range_for_def f v cb_begin_def)
  moreover have "contents ?f = map (slot b) [0..<capacity b]"
    by (simp add: contents_def slot_def capacity_def)
  ultimately show ?thesis by simp
qed

lemma range_for_cells:
  assumes "cb_inv b" and "range_for b = Some xs"
  shows "set xs \<subseteq> set (cells b)"
proof -
  have "0 < capacity b" using assms(1) by (simp add: cb_inv_def)
  then have "slot b j \<in> set (cells b)" for j
    by (simp add: slot_def capacity_def)
  then show ?thesis
    using range_for_filled [OF assms(1)] range_for_empty [OF assms(1)] assms(2)
    by (cases "bsize b = 0") (auto simp: contents_def)
qed


text \<open>The range-based loop over an empty ring is not empty: its begin and end iterators differ
  in \<open>isBegin\<close>, so the loop visits every slot of the array once, starting at \<open>start\<close>.\<close>

lemma range_for_empty_visits_all:
  assumes "cb_inv b" and "bsize b = 0"
  shows "range_for b = Some (map (slot b) [0..<capacity b])"
  using assms by (rule range_for_empty)


section \<open>The interface of the message cache\<close>

text \<open>
  A log of bounded length: pushing an element keeps the last \<open>cap\<close> elements pushed.
\<close>

locale bounded_log =
  fixes push :: "'a \<Rightarrow> 'b \<Rightarrow> 'b"
    and items :: "'b \<Rightarrow> 'a list"
    and cap :: "'b \<Rightarrow> nat"
    and inv :: "'b \<Rightarrow> bool"
  assumes inv_push: "inv b \<Longrightarrow> inv (push x b)"
    and cap_push: "inv b \<Longrightarrow> cap (push x b) = cap b"
    and cap_pos: "inv b \<Longrightarrow> 0 < cap b"
    and length_items: "inv b \<Longrightarrow> length (items b) \<le> cap b"
    and items_push: "inv b \<Longrightarrow>
          items (push x b) = drop (Suc (length (items b)) - cap b) (items b @ [x])"
begin

lemma inv_pushes: "inv b \<Longrightarrow> inv (fold push xs b)"
  by (induction xs arbitrary: b) (auto intro: inv_push)

lemma cap_pushes: "inv b \<Longrightarrow> cap (fold push xs b) = cap b"
  by (induction xs arbitrary: b) (auto simp: cap_push inv_push)

lemma items_pushes: "inv b \<Longrightarrow>
    items (fold push xs b) = drop (length (items b) + length xs - cap b) (items b @ xs)"
proof (induction xs arbitrary: b)
  case Nil
  then show ?case using length_items [of b] by simp
next
  case (Cons x xs)
  let ?l = "length (items b)" and ?c = "cap b"
  have l: "?l \<le> ?c" "0 < ?c" using Cons.prems length_items cap_pos by auto
  have it: "items (push x b) = drop (Suc ?l - ?c) (items b @ [x])"
    using Cons.prems by (rule items_push)
  have "items (fold push (x # xs) b)
      = drop (length (items (push x b)) + length xs - ?c) (items (push x b) @ xs)"
    using Cons by (simp add: cap_push inv_push)
  also have "items (push x b) @ xs = drop (Suc ?l - ?c) (items b @ x # xs)"
    using l it by simp
  also have "length (items (push x b)) = Suc ?l - (Suc ?l - ?c)"
    using it by simp
  finally have "items (fold push (x # xs) b)
      = drop (Suc ?l - (Suc ?l - ?c) + length xs - ?c + (Suc ?l - ?c)) (items b @ x # xs)"
    by (simp only: drop_drop)
  also have "Suc ?l - (Suc ?l - ?c) + length xs - ?c + (Suc ?l - ?c)
      = ?l + length (x # xs) - ?c"
    using l by simp
  finally show ?case .
qed

lemma newest_in: "inv b \<Longrightarrow> x \<in> set (items (push x b))"
  using cap_pos [of b] length_items [of b] by (simp add: items_push)

lemma survives:
  assumes "inv b" and "length xs < cap b"
  shows "x \<in> set (items (fold push xs (push x b)))"
proof -
  have "items (fold push xs (push x b)) = items (fold push (x # xs) b)" by simp
  also have "\<dots> = drop (length (items b) + length (x # xs) - cap b) (items b @ x # xs)"
    using assms(1) by (rule items_pushes)
  also have "\<dots> = drop (length (items b) + Suc (length xs) - cap b) (items b) @ x # xs"
    using assms(2) by simp
  finally show ?thesis by simp
qed

end

interpretation cb_log: bounded_log emplace_back contents capacity cb_inv
proof unfold_locales
  fix b :: "('a, 'b) circular_buffer_scheme" and x :: 'a
  assume inv: "cb_inv b"
  then have n: "0 < capacity b" "bsize b \<le> capacity b" by (auto simp: cb_inv_def)
  show "contents (emplace_back x b) = drop (Suc (length (contents b)) - capacity b) (contents b @ [x])"
  proof (cases "bsize b < capacity b")
    case True
    then show ?thesis by (simp add: emplace_back_contents [OF inv])
  next
    case False
    with n have "bsize b = capacity b" by simp
    moreover from this n have "contents b \<noteq> []" by (metis length_contents less_numeral_extra(3) list.size(3))
    ultimately show ?thesis using n by (simp add: emplace_back_contents [OF inv] drop_Suc)
  qed
next
  fix b :: "('a, 'b) circular_buffer_scheme"
  assume "cb_inv b"
  then show "0 < capacity b" "length (contents b) \<le> capacity b"
    by (auto simp: cb_inv_def)
qed simp_all

text \<open>After any number of insertions the ring holds exactly the last \<open>capacity\<close> elements
  inserted, in insertion order; a ring over N slots keeps N elements, not N - 1.\<close>

lemma ring_keeps_the_last_elements:
  assumes "cb_inv b"
  shows "contents (fold emplace_back xs b)
    = drop (length (contents b) + length xs - capacity b) (contents b @ xs)"
  using assms by (rule cb_log.items_pushes)


end
