(* ===== verification/FileSystem.thy ===== *)
theory FileSystem
  imports Paths "HOL-Library.AList"
begin

text \<open>
  The file system as the program sees it through \<open>std::filesystem\<close> and file streams: a finite map
  from resolved paths to regular files and directories, with the operations the program calls and
  the errors they report.  The process is an unprivileged owner of the files: a regular file can be
  opened for writing when its owner-write bit is set, an entry of a directory can be created or
  removed when the directory's is.  New files get mode 0644 and new directories 0755.  Directories
  can be searched and listed; there are no links, and \<open>..\<close> is an ordinary name.  The time of the last
  write is kept for regular files only (it is 0 for a directory).
  \<open>enumerateAllFiles\<close> of \<open>src/src/include_everywhere.hpp\<close> is at the end.
\<close>

type_synonym perms = "16 word"

datatype node =
    Directory (node_perms: perms)
  | Regular (node_perms: perms) (node_content: string) (node_mtime: int)

type_synonym filesystem = "(path \<times> node) list"

text \<open>Error numbers.\<close>

abbreviation (input) ENOENT :: nat where "ENOENT \<equiv> 2"
abbreviation (input) EACCES :: nat where "EACCES \<equiv> 13"
abbreviation (input) EBUSY :: nat where "EBUSY \<equiv> 16"
abbreviation (input) ENOTDIR :: nat where "ENOTDIR \<equiv> 20"
abbreviation (input) EINVAL :: nat where "EINVAL \<equiv> 22"
abbreviation (input) ENOTEMPTY :: nat where "ENOTEMPTY \<equiv> 39"

text \<open>\<open>std::filesystem::perms\<close>: the bits used, the mask, and the value of an unknown status.\<close>

abbreviation (input) owner_write :: perms where "owner_write \<equiv> 0x80"
abbreviation (input) owner_read :: perms where "owner_read \<equiv> 0x100"
abbreviation (input) perms_mask :: perms where "perms_mask \<equiv> 0xFFF"
abbreviation (input) perms_unknown :: perms where "perms_unknown \<equiv> 0xFFFF"
abbreviation (input) perms_none :: perms where "perms_none \<equiv> 0"

section \<open>Lookup\<close>

definition resolve :: "path \<Rightarrow> path" where
  "resolve p = filter (\<lambda>e. e \<noteq> '''' \<and> e \<noteq> ''.'') p"

text \<open>
  \<open>entry\<close> looks up a resolved path, the empty one being the working directory; an empty path as the
  program writes it names nothing.
\<close>

definition entry :: "filesystem \<Rightarrow> path \<Rightarrow> node option" where
  "entry fs q = (if q = [] then Some (Directory 0x1ED) else map_of fs q)"

definition lookup :: "filesystem \<Rightarrow> path \<Rightarrow> node option" where
  "lookup fs p = (if p = [] then None else entry fs (resolve p))"

definition writable_dir :: "filesystem \<Rightarrow> path \<Rightarrow> bool" where
  "writable_dir fs q =
     (case entry fs q of Some (Directory pm) \<Rightarrow> pm AND owner_write \<noteq> 0 | _ \<Rightarrow> False)"

definition parent_writable :: "filesystem \<Rightarrow> path \<Rightarrow> bool" where
  "parent_writable fs p \<longleftrightarrow> resolve p \<noteq> [] \<and> writable_dir fs (butlast (resolve p))"

definition has_children :: "filesystem \<Rightarrow> path \<Rightarrow> bool" where
  "has_children fs q \<longleftrightarrow> list_ex (\<lambda>(k, _). length q < length k \<and> take (length q) k = q) fs"

section \<open>Operations\<close>

definition fs_exists :: "path \<Rightarrow> (filesystem, bool) prog" where
  "fs_exists p = gets (\<lambda>fs. lookup fs p \<noteq> None)"

definition status_perms :: "path \<Rightarrow> (filesystem, perms) prog" where
  "status_perms p =
     gets (\<lambda>fs. case lookup fs p of None \<Rightarrow> perms_unknown | Some n \<Rightarrow> node_perms n)"

datatype perm_options = Add | Remove

fun set_perms :: "perms \<Rightarrow> node \<Rightarrow> node" where
  "set_perms pm (Directory _) = Directory pm"
| "set_perms pm (Regular _ s t) = Regular pm s t"

definition new_perms :: "perms \<Rightarrow> perm_options \<Rightarrow> perms \<Rightarrow> perms" where
  "new_perms prms opt old =
     (case opt of Add \<Rightarrow> (prms AND perms_mask) OR old | Remove \<Rightarrow> old AND NOT (prms AND perms_mask))"

definition permissions :: "path \<Rightarrow> perms \<Rightarrow> perm_options \<Rightarrow> (filesystem, unit) prog" where
  "permissions p prms opt =
     bnd (gets (\<lambda>fs. lookup fs p)) (\<lambda>n. case n of
       None \<Rightarrow> throw (FilesystemError ENOENT p)
     | Some n \<Rightarrow> updates (AList.update (resolve p) (set_perms (new_perms prms opt (node_perms n)) n)))"

definition remove_entry :: "path \<Rightarrow> (filesystem, bool) prog" where
  "remove_entry p =
     bnd (gets id) (\<lambda>fs.
     if parent_writable fs p
     then bnd (updates (AList.delete (resolve p))) (\<lambda>_. ret True)
     else throw (FilesystemError EACCES p))"

definition fs_remove :: "path \<Rightarrow> (filesystem, bool) prog" where
  "fs_remove p =
     bnd (gets id) (\<lambda>fs. case lookup fs p of
       None \<Rightarrow> ret False
     | Some (Regular _ _ _) \<Rightarrow> remove_entry p
     | Some (Directory _) \<Rightarrow>
         if resolve p = [] then throw (FilesystemError EBUSY p)
         else if has_children fs (resolve p) then throw (FilesystemError ENOTEMPTY p)
         else remove_entry p)"

fun make_dirs :: "path \<Rightarrow> path \<Rightarrow> path \<Rightarrow> (filesystem, unit) prog" where
  "make_dirs p pre [] = ret ()"
| "make_dirs p pre (e # es) =
     bnd (gets id) (\<lambda>fs. case entry fs (pre @ [e]) of
       Some (Directory _) \<Rightarrow> make_dirs p (pre @ [e]) es
     | Some (Regular _ _ _) \<Rightarrow> throw (FilesystemError ENOTDIR p)
     | None \<Rightarrow>
         if writable_dir fs pre
         then bnd (updates (AList.update (pre @ [e]) (Directory 0x1ED))) (\<lambda>_.
              make_dirs p (pre @ [e]) es)
         else throw (FilesystemError EACCES p))"

definition create_directories :: "path \<Rightarrow> (filesystem, unit) prog" where
  "create_directories p =
     (if p = [] then throw (FilesystemError EINVAL p) else make_dirs p [] (resolve p))"

text \<open>
  Writing a whole file through an \<open>ofstream\<close>: opening truncates; a stream that could not be opened
  swallows what is written to it.
\<close>

definition can_write :: "filesystem \<Rightarrow> path \<Rightarrow> bool" where
  "can_write fs p \<longleftrightarrow> has_filename p \<and>
     (case lookup fs p of
        Some (Regular pm _ _) \<Rightarrow> pm AND owner_write \<noteq> 0
      | Some (Directory _) \<Rightarrow> False
      | None \<Rightarrow> parent_writable fs p)"

definition write_perms :: "filesystem \<Rightarrow> path \<Rightarrow> perms" where
  "write_perms fs p = (case lookup fs p of Some n \<Rightarrow> node_perms n | None \<Rightarrow> 0x1A4)"

definition write_file :: "path \<Rightarrow> string \<Rightarrow> int \<Rightarrow> (filesystem, unit) prog" where
  "write_file p s now =
     updates (\<lambda>fs. if can_write fs p
                   then AList.update (resolve p) (Regular (write_perms fs p) s now) fs else fs)"

text \<open>Reading a whole file through an \<open>ifstream\<close>: \<open>None\<close> when it could not be opened.\<close>

definition read_file :: "path \<Rightarrow> (filesystem, string option) prog" where
  "read_file p =
     gets (\<lambda>fs. case lookup fs p of
       Some (Regular pm s _) \<Rightarrow> if pm AND owner_read \<noteq> 0 then Some s else None
     | _ \<Rightarrow> None)"

definition last_write_time :: "path \<Rightarrow> (filesystem, int) prog" where
  "last_write_time p =
     bnd (gets (\<lambda>fs. lookup fs p)) (\<lambda>n. case n of
       None \<Rightarrow> throw (FilesystemError ENOENT p)
     | Some (Regular _ _ t) \<Rightarrow> ret t
     | Some (Directory _) \<Rightarrow> ret 0)"

section \<open>\<open>enumerateAllFiles\<close>\<close>

text \<open>
  What \<open>recursive_directory_iterator(folder)\<close> yields: every entry below the folder, in an order the
  standard leaves open (here: the order of the map), each with the folder as its first part.
\<close>

definition below :: "filesystem \<Rightarrow> path \<Rightarrow> (path \<times> node) list" where
  "below fs folder =
     map (\<lambda>(k, n). (path_div folder (drop (length (resolve folder)) k), n))
       (filter (\<lambda>(k, _). length (resolve folder) < length k
                  \<and> take (length (resolve folder)) k = resolve folder) fs)"

definition enumerate_folder :: "path \<Rightarrow> (filesystem, path list) prog" where
  "enumerate_folder path =
     bnd (gets id) (\<lambda>fs. case lookup fs path of
       None \<Rightarrow> throw (FilesystemError ENOENT path)
     | Some (Regular _ _ _) \<Rightarrow> throw (FilesystemError ENOTDIR path)
     | Some (Directory _) \<Rightarrow>
         ret (map fst (filter (\<lambda>(p, n). \<not> is_Directory n \<and> is_good p) (below fs path))))"

primrec enumerateAllFiles :: "path list \<Rightarrow> (filesystem, path list) prog" where
  "enumerateAllFiles [] = ret []"
| "enumerateAllFiles (path # folders) =
     bnd (enumerate_folder path) (\<lambda>ps.
     bnd (enumerateAllFiles folders) (\<lambda>qs. ret (ps @ qs)))"

section \<open>Effects of the operations on lookups\<close>

named_theorems fs_simps \<open>operations of the file system, executed\<close>

lemma resolve_idem [simp]: "resolve (resolve p) = resolve p"
  by (simp add: resolve_def)

lemma resolve_butlast [simp]: "resolve (butlast (resolve p)) = butlast (resolve p)"
  by (auto simp: resolve_def filter_id_conv dest: in_set_butlastD)


lemma lookup_update:
  "resolve q \<noteq> [] \<Longrightarrow> lookup (AList.update (resolve q) n fs) p
     = (if resolve p = resolve q then Some n else lookup fs p)"
  by (auto simp: lookup_def entry_def update_conv' resolve_def)

lemma lookup_delete:
  "resolve q \<noteq> [] \<Longrightarrow> lookup (AList.delete (resolve q) fs) p
     = (if resolve p = resolve q then None else lookup fs p)"
  by (auto simp: lookup_def entry_def delete_conv' resolve_def)

lemma exists_exec [fs_simps]: "fs_exists p fs = (Inr (lookup fs p \<noteq> None), fs)"
  by (simp add: fs_exists_def exec_simps)

lemma status_perms_exec [fs_simps]:
  "status_perms p fs =
     (Inr (case lookup fs p of None \<Rightarrow> perms_unknown | Some n \<Rightarrow> node_perms n), fs)"
  by (simp add: status_perms_def exec_simps)

lemma permissions_exec [fs_simps]:
  "permissions p prms opt fs =
     (case lookup fs p of
        None \<Rightarrow> (Inl (FilesystemError ENOENT p), fs)
      | Some n \<Rightarrow> (Inr (), AList.update (resolve p)
                            (set_perms (new_perms prms opt (node_perms n)) n) fs))"
  by (simp add: permissions_def exec_simps split: option.split)

lemma write_file_exec [fs_simps]:
  "write_file p s now fs =
     (Inr (), if can_write fs p
              then AList.update (resolve p) (Regular (write_perms fs p) s now) fs else fs)"
  by (simp add: write_file_def exec_simps)

lemma read_file_exec [fs_simps]:
  "read_file p fs =
     (Inr (case lookup fs p of
        Some (Regular pm s _) \<Rightarrow> if pm AND owner_read \<noteq> 0 then Some s else None
      | _ \<Rightarrow> None), fs)"
  by (simp add: read_file_def exec_simps)

lemma remove_entry_exec [fs_simps]:
  "remove_entry p fs =
     (if parent_writable fs p then (Inr True, AList.delete (resolve p) fs)
      else (Inl (FilesystemError EACCES p), fs))"
  by (simp add: remove_entry_def exec_simps)

lemma remove_exec [fs_simps]:
  "fs_remove p fs =
     (case lookup fs p of
        None \<Rightarrow> (Inr False, fs)
      | Some (Regular _ _ _) \<Rightarrow> remove_entry p fs
      | Some (Directory _) \<Rightarrow>
          if resolve p = [] then (Inl (FilesystemError EBUSY p), fs)
          else if has_children fs (resolve p) then (Inl (FilesystemError ENOTEMPTY p), fs)
          else remove_entry p fs)"
  by (simp add: fs_remove_def exec_simps split: option.split node.split)

section \<open>What is managed\<close>

lemma enumerate_folder_exec:
  "lookup fs d = Some (Directory pm) \<Longrightarrow> enumerate_folder d fs
    = (Inr (map fst (filter (\<lambda>(p, n). \<not> is_Directory n \<and> is_good p) (below fs d))), fs)"
  by (simp add: enumerate_folder_def exec_simps)

lemma enumerateAllFiles_exec:
  "\<forall>d \<in> set fds. \<exists>pm. lookup fs d = Some (Directory pm) \<Longrightarrow> enumerateAllFiles fds fs
    = (Inr (concat (map (\<lambda>d. map fst (filter (\<lambda>(p, n). \<not> is_Directory n \<and> is_good p) (below fs d))) fds)), fs)"
  by (induction fds) (auto simp: exec_simps enumerate_folder_exec)

lemma below_iff:
  "(p, n) \<in> set (below fs d) \<longleftrightarrow> (\<exists>es. es \<noteq> [] \<and> (resolve d @ es, n) \<in> set fs \<and> p = path_div d es)"
proof
  assume "(p, n) \<in> set (below fs d)"
  then obtain k where k: "(k, n) \<in> set fs" "length (resolve d) < length k"
      "take (length (resolve d)) k = resolve d" "p = path_div d (drop (length (resolve d)) k)"
    by (auto simp: below_def)
  then have "resolve d @ drop (length (resolve d)) k = k" by (metis append_take_drop_id)
  then show "\<exists>es. es \<noteq> [] \<and> (resolve d @ es, n) \<in> set fs \<and> p = path_div d es"
    using k by (intro exI [of _ "drop (length (resolve d)) k"]) simp
next
  assume "\<exists>es. es \<noteq> [] \<and> (resolve d @ es, n) \<in> set fs \<and> p = path_div d es"
  then show "(p, n) \<in> set (below fs d)" by (force simp: below_def)
qed

text \<open>C37: When every managed folder is a directory, \<open>enumerateAllFiles\<close> succeeds and yields exactly the
  files below the folders, at any depth, whose path (the folder's included) has no element \<open>.wnts\<close>; so
  it never yields a bookkeeping file: the file of the cached hash or of the lock of any file.\<close>

theorem enumeration_hides_the_bookkeeping:
  assumes "\<forall>d \<in> set fds. \<exists>pm. lookup fs d = Some (Directory pm)"
  shows "\<exists>ps. enumerateAllFiles fds fs = (Inr ps, fs)
    \<and> (\<forall>p. p \<in> set ps \<longleftrightarrow> ''.wnts'' \<notin> set p
        \<and> (\<exists>d \<in> set fds. \<exists>es pm s t. es \<noteq> [] \<and> (resolve d @ es, Regular pm s t) \<in> set fs \<and> p = path_div d es))
    \<and> (\<forall>q. file_path q \<longrightarrow> wntsPath q \<notin> Some ` set ps \<and> lockFilePath q \<notin> Some ` set ps)"
proof -
  let ?ps = "concat (map (\<lambda>d. map fst (filter (\<lambda>(p, n). \<not> is_Directory n \<and> is_good p) (below fs d))) fds)"
  have n: "\<not> is_Directory n \<longleftrightarrow> (\<exists>pm s t. n = Regular pm s t)" for n by (cases n) auto
  have "p \<in> set ?ps \<longleftrightarrow> is_good p \<and> (\<exists>d \<in> set fds. \<exists>n. \<not> is_Directory n \<and> (p, n) \<in> set (below fs d))" for p
    by force
  then have iff: "p \<in> set ?ps \<longleftrightarrow> ''.wnts'' \<notin> set p
        \<and> (\<exists>d \<in> set fds. \<exists>es pm s t. es \<noteq> [] \<and> (resolve d @ es, Regular pm s t) \<in> set fs \<and> p = path_div d es)" for p
    unfolding below_iff n is_good_iff by blast
  have "wntsPath q \<notin> Some ` set ?ps \<and> lockFilePath q \<notin> Some ` set ?ps" if "file_path q" for q
    using bookkeeping_not_good [OF that] iff by (fastforce simp: is_good_iff)
  then show ?thesis using enumerateAllFiles_exec [OF assms] iff by blast
qed

text \<open>The folder \<open>d\<close> with a file, its cached hash and its lock file.\<close>

theorem enumeration_hides_the_bookkeeping_witness:
  "\<exists>ps. enumerateAllFiles [[''d'']] [([''d''], Directory 0x1ED), ([''d'', ''f''], Regular 0x1A4 ''x'' 0),
      ([''d'', ''.wnts''], Directory 0x1ED), ([''d'', ''.wnts'', ''f''], Regular 0x1A4 ''120'' 0),
      ([''d'', ''.wnts'', ''.lock.f''], Regular 0x1A4 ''y'' 0)] = (Inr ps, [([''d''], Directory 0x1ED),
      ([''d'', ''f''], Regular 0x1A4 ''x'' 0), ([''d'', ''.wnts''], Directory 0x1ED),
      ([''d'', ''.wnts'', ''f''], Regular 0x1A4 ''120'' 0), ([''d'', ''.wnts'', ''.lock.f''], Regular 0x1A4 ''y'' 0)])
    \<and> [''d'', ''f''] \<in> set ps \<and> wntsPath [''d'', ''f''] \<notin> Some ` set ps \<and> lockFilePath [''d'', ''f''] \<notin> Some ` set ps"
proof -
  let ?fs = "[([''d''], Directory 0x1ED), ([''d'', ''f''], Regular 0x1A4 ''x'' 0),
      ([''d'', ''.wnts''], Directory 0x1ED), ([''d'', ''.wnts'', ''f''], Regular 0x1A4 ''120'' 0),
      ([''d'', ''.wnts'', ''.lock.f''], Regular 0x1A4 ''y'' 0)] :: filesystem"
  have "\<forall>d \<in> set [[''d'']]. \<exists>pm. lookup ?fs d = Some (Directory pm)"
    by (simp add: lookup_def entry_def resolve_def)
  from enumeration_hides_the_bookkeeping [OF this] obtain ps where ps:
    "enumerateAllFiles [[''d'']] ?fs = (Inr ps, ?fs)"
    "\<forall>p. p \<in> set ps \<longleftrightarrow> ''.wnts'' \<notin> set p
        \<and> (\<exists>d \<in> set [[''d'']]. \<exists>es pm s t. es \<noteq> [] \<and> (resolve d @ es, Regular pm s t) \<in> set ?fs \<and> p = path_div d es)"
    "\<forall>q. file_path q \<longrightarrow> wntsPath q \<notin> Some ` set ps \<and> lockFilePath q \<notin> Some ` set ps"
    by blast
  have "[''d'', ''f''] \<in> set ps"
    unfolding ps(2) [rule_format]
    by (intro conjI bexI [of _ "[''d'']"] exI [of _ "[''f'']"] exI [of _ "0x1A4"] exI [of _ "''x''"] exI [of _ 0])
      (simp_all add: resolve_def path_div_def is_absolute_def)
  moreover have "file_path [''d'', ''f'']" by (simp add: file_path_def name_ok_def)
  ultimately show ?thesis using ps(1,3) by blast
qed

end
