(* ===== verification/World.thy ===== *)
theory World
  imports MessageQueue CircularBuffer FileSystem
begin

text \<open>
  The state of one process: the singletons \<open>MessageManager\<close> (\<open>src/src/message_manager.hpp\<close>),
  \<open>PeerManager\<close> (\<open>src/src/peer_manager.hpp\<close>) and \<open>ZeroTierNode\<close> (its address), the file system, and
  what the process has sent to its peers.  The environment is part of the state: \<open>clock\<close> gives the
  value of every reading of a clock (\<open>ticks\<close> counts them, in the order of the program text: where C++
  leaves open which of two readings is taken first, they are any two values), and \<open>dials\<close> says whether the
  socket is open after an attempt to connect to an address made at a given tick.
\<close>

text \<open>
  A peer: the other end of its socket, and the address and port \<open>getRemoteIP\<close> and \<open>getRemotePort\<close>
  remember (an invalid address and the greatest port until they are asked for).  Asking an open
  socket for its other end succeeds.
\<close>

record peer =
  socketIP :: ip_address
  socketPort :: "16 word"
  cachedIP :: ip_address
  cachedPort :: "16 word"

definition new_peer :: "ip_address \<Rightarrow> 16 word \<Rightarrow> peer" where
  "new_peer ip port = \<lparr>socketIP = ip, socketPort = port, cachedIP = NoAddress, cachedPort = - 1\<rparr>"

definition remoteIP :: "peer \<Rightarrow> ip_address" where
  "remoteIP p = (if \<not> isValid (cachedIP p) then socketIP p else cachedIP p)"

definition remotePort :: "peer \<Rightarrow> 16 word" where
  "remotePort p = (if cachedPort p = - 1 then socketPort p else cachedPort p)"

text \<open>What asking leaves behind, and a loop that asks the peers in turn until one has the address.\<close>

definition ask_ip :: "peer \<Rightarrow> peer" where
  "ask_ip p = p\<lparr>cachedIP := remoteIP p\<rparr>"

definition ask_port :: "peer \<Rightarrow> peer" where
  "ask_port p = p\<lparr>cachedPort := remotePort p\<rparr>"

fun ask_until :: "ip_address \<Rightarrow> peer list \<Rightarrow> peer list" where
  "ask_until ip [] = []"
| "ask_until ip (p # ps) = ask_ip p # (if remoteIP p = ip then ps else ask_until ip ps)"

fun first_index :: "('a \<Rightarrow> bool) \<Rightarrow> 'a list \<Rightarrow> nat option" where
  "first_index P [] = None"
| "first_index P (x # xs) = (if P x then Some 0 else map_option Suc (first_index P xs))"

lemma first_index_nth: "first_index P xs = Some i \<Longrightarrow> i < length xs \<and> P (xs ! i)"
  by (induction P xs arbitrary: i rule: first_index.induct) (auto split: if_splits)

lemma first_index_ex: "\<exists>x \<in> set xs. P x \<Longrightarrow> \<exists>i. first_index P xs = Some i"
  by (induction P xs rule: first_index.induct) auto

text \<open>
  Moving a peer: \<open>operator=\<close> takes over the socket only, so the target keeps what it remembers; the
  constructor starts with nothing remembered.
\<close>

definition move_into :: "peer \<Rightarrow> peer \<Rightarrow> peer" where
  "move_into target source = target\<lparr>socketIP := socketIP source, socketPort := socketPort source\<rparr>"

definition move_new :: "peer \<Rightarrow> peer" where
  "move_new source = new_peer (socketIP source) (socketPort source)"

text \<open>
  The list of peers is a vector: \<open>emplace_back\<close> moves all peers when it has to grow, \<open>erase\<close> moves
  the peers behind the erased one forward, \<open>insert\<close> at the front (into a vector that has room) moves
  all peers back.
\<close>

definition emplace_peer :: "bool \<Rightarrow> peer \<Rightarrow> peer list \<Rightarrow> peer list" where
  "emplace_peer grow p ps = (if grow then map move_new ps else ps) @ [p]"

definition erase_peer :: "nat \<Rightarrow> peer list \<Rightarrow> peer list" where
  "erase_peer i ps = take i ps @ map2 move_into (drop i ps) (drop (Suc i) ps)"

definition insert_front :: "peer \<Rightarrow> peer list \<Rightarrow> peer list" where
  "insert_front p ps =
     (if ps = [] then [move_new p]
      else map2 move_into ps (p # butlast ps) @ [move_new (last ps)])"

lemma new_peer_simps [simp]:
  "socketIP (new_peer ip port) = ip" "socketPort (new_peer ip port) = port"
  "cachedIP (new_peer ip port) = NoAddress" "remoteIP (new_peer ip port) = ip"
  "remotePort (new_peer ip port) = port"
  by (simp_all add: new_peer_def remoteIP_def remotePort_def isValid_def)

lemma ask_simps [simp]:
  "remoteIP (ask_ip p) = remoteIP p" "socketIP (ask_ip p) = socketIP p"
  "remoteIP (ask_port p) = remoteIP p" "socketIP (ask_port p) = socketIP p"
  by (simp_all add: ask_ip_def ask_port_def remoteIP_def)

lemma ask_until_simps [simp]:
  "map remoteIP (ask_until ip ps) = map remoteIP ps"
  "map socketIP (ask_until ip ps) = map socketIP ps"
  by (induction ps) auto

record world =
  self_ip :: ip_address
  folders :: "path list"
  receivedInitialFiles :: size_t
  totalInitialFiles :: size_t
  messageQueue :: "prio list"
  oldMessages :: "any_message option finalizeable_buffer"
  peers :: "peer list"
  gatewayIP :: ip_address
  backup_peers :: "(ip_address \<times> 16 word) list"
  files :: filesystem
  outbox :: "(ip_address \<times> byte list) list"  \<comment> \<open>what was written to the sockets, by their other ends\<close>
  clock :: "nat \<Rightarrow> int"
  ticks :: nat
  dials :: "ip_address \<Rightarrow> 16 word \<Rightarrow> nat \<Rightarrow> bool"

text \<open>
  The managers as \<open>main\<close> leaves them after construction and \<open>setup\<close>: \<open>oldMessages\<close> is a ring of 100
  null pointers whose finaliser is \<open>m.release()\<close>.
\<close>

definition setup_MessageManager :: "path list \<Rightarrow> world \<Rightarrow> world" where
  "setup_MessageManager fds w =
     w\<lparr>folders := fds, receivedInitialFiles := 0, totalInitialFiles := 1, messageQueue := [],
       oldMessages := setFinalizer (\<lambda>m. Inr None) (new_finalizeable 100 None)\<rparr>"

definition isFinishedConnecting :: "world \<Rightarrow> bool" where
  "isFinishedConnecting w \<longleftrightarrow> receivedInitialFiles w = totalInitialFiles w"

section \<open>Access to the parts of the state\<close>

definition on_files :: "(filesystem, 'a) prog \<Rightarrow> (world, 'a) prog" where
  "on_files m = (\<lambda>w. case m (files w) of (r, fs) \<Rightarrow> (r, w\<lparr>files := fs\<rparr>))"

definition on_cache :: "(any_message option finalizeable_buffer, 'a) prog \<Rightarrow> (world, 'a) prog" where
  "on_cache m = (\<lambda>w. case m (oldMessages w) of (r, b) \<Rightarrow> (r, w\<lparr>oldMessages := b\<rparr>))"

definition now :: "(world, int) prog" where
  "now = (\<lambda>w. (Inr (clock w (ticks w)), w\<lparr>ticks := Suc (ticks w)\<rparr>))"

definition enqueue :: "size_t \<Rightarrow> any_message \<Rightarrow> (world, unit) prog" where
  "enqueue p m = updates (\<lambda>w. w\<lparr>messageQueue := pq_emplace p m (messageQueue w)\<rparr>)"

text \<open>\<open>oldMessages.emplace_back(std::move(m))\<close>.\<close>

definition remember :: "any_message \<Rightarrow> (world, unit) prog" where
  "remember m = bnd (on_cache (f_emplace_back (Some m))) (\<lambda>_. ret ())"

definition finishedConnecting :: "(world, bool) prog" where
  "finishedConnecting = gets isFinishedConnecting"

lemma on_files_exec [exec_simps]:
  "on_files m w = (case m (files w) of (r, fs) \<Rightarrow> (r, w\<lparr>files := fs\<rparr>))"
  by (simp add: on_files_def)

lemma now_exec [exec_simps]: "now w = (Inr (clock w (ticks w)), w\<lparr>ticks := Suc (ticks w)\<rparr>)"
  by (simp add: now_def)

lemma enqueue_exec [exec_simps]:
  "enqueue p m w = (Inr (), w\<lparr>messageQueue := pq_emplace p m (messageQueue w)\<rparr>)"
  by (simp add: enqueue_def exec_simps)

lemma finishedConnecting_exec [exec_simps]:
  "finishedConnecting w = (Inr (isFinishedConnecting w), w)"
  by (simp add: finishedConnecting_def exec_simps)

section \<open>The message cache\<close>

text \<open>The ring of \<open>oldMessages\<close> is well-formed, has 100 slots, and its finaliser never throws.\<close>

definition cache_ok :: "world \<Rightarrow> bool" where
  "cache_ok w \<longleftrightarrow> cb_inv (oldMessages w) \<and> capacity (oldMessages w) = 100
     \<and> total_finalizer (oldMessages w)"

lemma cache_ok_setup: "cache_ok (setup_MessageManager fds w)"
  by (simp add: cache_ok_def setup_MessageManager_def setFinalizer_def new_finalizeable_def
      cb_inv_def capacity_def total_finalizer_def)

lemma remember_exec:
  "cache_ok w \<Longrightarrow> remember m w = (Inr (), w\<lparr>oldMessages := emplace_back (Some m) (oldMessages w)\<rparr>)"
  by (simp add: remember_def on_cache_def exec_simps cache_ok_def f_emplace_back_exec)

lemma cache_ok_remember: "cache_ok w \<Longrightarrow> cache_ok (w\<lparr>oldMessages := emplace_back x (oldMessages w)\<rparr>)"
  by (simp add: cache_ok_def)

lemma cache_ok_cong: "oldMessages w = oldMessages v \<Longrightarrow> cache_ok w = cache_ok v"
  by (simp add: cache_ok_def)

section \<open>A sample process\<close>

text \<open>A process with address \<open>IPv6 9\<close> that established a network over the folder \<open>d\<close>, which holds the
  file \<open>d/f\<close>; the witnesses of the properties run it.\<close>

definition sample_files :: filesystem where
  "sample_files = [([''d''], Directory 0x1ED), ([''d'', ''f''], Regular 0x1A4 ''old'' 0)]"

definition sample_world :: world where
  "sample_world =
     (setup_MessageManager [[''d'']]
       \<lparr>self_ip = IPv6 9, folders = [], receivedInitialFiles = 0, totalInitialFiles = 0,
        messageQueue = [], oldMessages = new_finalizeable 0 None, peers = [],
        gatewayIP = ipv6Unspecified, backup_peers = [], files = sample_files, outbox = [],
        clock = (\<lambda>_. 0), ticks = 0, dials = (\<lambda>_ _ _. False)\<rparr>)\<lparr>totalInitialFiles := 0\<rparr>"

lemma cache_ok_sample: "cache_ok sample_world"
  using cache_ok_setup by (auto simp: sample_world_def intro: cache_ok_cong [THEN iffD1])

lemma sample_world_simps [simp]:
  "self_ip sample_world = IPv6 9" "folders sample_world = [[''d'']]"
  "receivedInitialFiles sample_world = 0" "totalInitialFiles sample_world = 0"
  "messageQueue sample_world = []" "peers sample_world = []"
  "gatewayIP sample_world = ipv6Unspecified" "backup_peers sample_world = []"
  "files sample_world = sample_files" "outbox sample_world = []" "clock sample_world = (\<lambda>_. 0)"
  "ticks sample_world = 0" "dials sample_world = (\<lambda>_ _ _. False)"
  by (simp_all add: sample_world_def setup_MessageManager_def)

end
