(* ===== verification/Serialization.thy ===== *)
theory Serialization
  imports Messages "HOL-Library.Monad_Syntax"
begin

text \<open>
  The \<open>save\<close>, \<open>load\<close> and \<open>serialize\<close> members of \<open>src/src/messages.hpp\<close> over the archive of
  \<open>lib\<close>.  Loading what was saved gives the message back up to what the format drops: the
  sender is not transmitted, times are cut to whole seconds and paths are normalised.
\<close>

section \<open>Containers and pairs\<close>

definition put_list :: "lib \<Rightarrow> 'a put \<Rightarrow> 'a list put" where
  "put_list L put xs = put_u64 L (of_nat (length xs)) @ concat (map put xs)"

fun get_n :: "'a get \<Rightarrow> nat \<Rightarrow> 'a list get" where
  "get_n get 0 bs = Some ([], bs)"
| "get_n get (Suc n) bs =
     do { (x, bs) \<leftarrow> get bs; (xs, bs) \<leftarrow> get_n get n bs; Some (x # xs, bs) }"

definition get_list :: "lib \<Rightarrow> 'a get \<Rightarrow> 'a list get" where
  "get_list L get bs = do { (n, bs) \<leftarrow> get_u64 L bs; get_n get (unat n) bs }"

section \<open>Addresses and paths\<close>

definition save_ip :: "lib \<Rightarrow> ip_address put" where
  "save_ip L ip =
     (case ip of
        IPv4 a \<Rightarrow> put_u8 L (family_v4 L) @ put_u32 L a
      | IPv6 a \<Rightarrow> put_u8 L (family_v6 L) @ put_u128 L a
      | NoAddress \<Rightarrow> put_u8 L (family_none L) @ put_u128 L (raw_v6_none L))"

definition load_ip :: "lib \<Rightarrow> ip_address get" where
  "load_ip L bs =
     do { (family, bs) \<leftarrow> get_u8 L bs;
          if family = family_v4 L
          then do { (data, bs) \<leftarrow> get_u32 L bs; Some (IPv4 data, bs) }
          else do { (data, bs) \<leftarrow> get_u128 L bs; Some (IPv6 data, bs) } }"

definition save_path :: "lib \<Rightarrow> path put" where
  "save_path L p = put_list L (put_str L) (lexically_normal p)"

definition load_path :: "lib \<Rightarrow> path get" where
  "load_path L bs =
     do { (parts, bs) \<leftarrow> get_list L (get_str L) bs;
          Some (foldl (\<lambda>p part. path_div p (parse_path part)) [] parts, bs) }"

definition save_peer :: "lib \<Rightarrow> (ip_address \<times> 16 word) put" where
  "save_peer L peer = save_ip L (fst peer) @ put_u16 L (snd peer)"

definition load_peer :: "lib \<Rightarrow> (ip_address \<times> 16 word) get" where
  "load_peer L bs =
     do { (ip, bs) \<leftarrow> load_ip L bs; (port, bs) \<leftarrow> get_u16 L bs; Some ((ip, port), bs) }"

text \<open>A \<open>time_t\<close> is a 64-bit signed integer.\<close>

definition put_time_t :: "lib \<Rightarrow> int put" where
  "put_time_t L t = put_u64 L (word_of_int t)"

definition get_time_t :: "lib \<Rightarrow> int get" where
  "get_time_t L bs = do { (w, bs) \<leftarrow> get_u64 L bs; Some (sint w, bs) }"

section \<open>Messages\<close>

definition save_Message :: "lib \<Rightarrow> 'a Message_scheme put" where
  "save_Message L m =
     put_u8 L (mtype m) @ save_ip L (receiverNode m) @ save_ip L (originatorNode m)
     @ put_u64 L (messageHash m)"

definition load_Message :: "lib \<Rightarrow> Message get" where
  "load_Message L bs =
     do { (t, bs) \<leftarrow> get_u8 L bs;
          (r, bs) \<leftarrow> load_ip L bs;
          (orig, bs) \<leftarrow> load_ip L bs;
          (h, bs) \<leftarrow> get_u64 L bs;
          Some (\<lparr>mtype = t, receiverNode = r, senderNode = ipv6Unspecified,
                 originatorNode = orig, messageHash = h\<rparr>, bs) }"

definition save_Payload :: "lib \<Rightarrow> PayloadMessage put" where
  "save_Payload L m = save_Message L m @ put_str L (payload m)"

definition load_Payload :: "lib \<Rightarrow> PayloadMessage get" where
  "load_Payload L bs =
     do { (m, bs) \<leftarrow> load_Message L bs;
          (s, bs) \<leftarrow> get_str L bs;
          Some (Message.extend m (PayloadMessage.fields s), bs) }"

definition save_Resend :: "lib \<Rightarrow> ResendRequestMessage put" where
  "save_Resend L m =
     save_Message L m @ put_u64 L (requestedHash m) @ save_ip L (originalDestination m)"

definition load_Resend :: "lib \<Rightarrow> ResendRequestMessage get" where
  "load_Resend L bs =
     do { (m, bs) \<leftarrow> load_Message L bs;
          (h, bs) \<leftarrow> get_u64 L bs;
          (d, bs) \<leftarrow> load_ip L bs;
          Some (Message.extend m (ResendRequestMessage.fields h d), bs) }"

definition save_File :: "lib \<Rightarrow> 'a FileMessage_scheme put" where
  "save_File L m =
     save_Message L m @ save_path L (targetFile m) @ put_time_t L (sys_to_time_t (timestamp m))"

definition load_File :: "lib \<Rightarrow> FileMessage get" where
  "load_File L bs =
     do { (m, bs) \<leftarrow> load_Message L bs;
          (f, bs) \<leftarrow> load_path L bs;
          (tm, bs) \<leftarrow> get_time_t L bs;
          Some (Message.extend m (FileMessage.fields f (sys_from_time_t tm)), bs) }"

definition save_Content :: "lib \<Rightarrow> 'a FileContentMessage_scheme put" where
  "save_Content L m = save_File L m @ put_str L (fileContent m)"

definition load_Content :: "lib \<Rightarrow> FileContentMessage get" where
  "load_Content L bs =
     do { (m, bs) \<leftarrow> load_File L bs;
          (s, bs) \<leftarrow> get_str L bs;
          Some (FileMessage.extend m (FileContentMessage.fields s), bs) }"

definition save_Sync :: "lib \<Rightarrow> FileInitialSyncMessage put" where
  "save_Sync L m = save_Content L m @ put_u64 L (total m) @ put_u64 L (index m)"

definition load_Sync :: "lib \<Rightarrow> FileInitialSyncMessage get" where
  "load_Sync L bs =
     do { (m, bs) \<leftarrow> load_Content L bs;
          (n, bs) \<leftarrow> get_u64 L bs;
          (i, bs) \<leftarrow> get_u64 L bs;
          Some (FileContentMessage.extend m (FileInitialSyncMessage.fields n i), bs) }"

definition save_Connect :: "lib \<Rightarrow> ConnectMessage put" where
  "save_Connect L m =
     save_Message L m @ put_list L (save_peer L) (backupPeers m)
     @ put_list L (save_path L) (managedPaths m)"

definition load_Connect :: "lib \<Rightarrow> ConnectMessage get" where
  "load_Connect L bs =
     do { (m, bs) \<leftarrow> load_Message L bs;
          (ps, bs) \<leftarrow> get_list L (load_peer L) bs;
          (fs, bs) \<leftarrow> get_list L (load_path L) bs;
          Some (Message.extend m (ConnectMessage.fields ps fs), bs) }"

primrec save_any :: "lib \<Rightarrow> any_message \<Rightarrow> byte list" where
  "save_any L (MBase m) = save_Message L m"
| "save_any L (MPayload m) = save_Payload L m"
| "save_any L (MResend m) = save_Resend L m"
| "save_any L (MFile m) = save_File L m"
| "save_any L (MContent m) = save_Content L m"
| "save_any L (MSync m) = save_Sync L m"
| "save_any L (MConnect m) = save_Connect L m"

section \<open>Codecs\<close>

text \<open>
  A codec reads back what it wrote, up to a normal form, and leaves the rest of the input.
\<close>

locale codec =
  fixes put :: "'a put" and get :: "'a get" and norm :: "'a \<Rightarrow> 'a" and good :: "'a \<Rightarrow> bool"
  assumes get_put: "good x \<Longrightarrow> get (put x @ r) = Some (norm x, r)"
begin

lemma get_n_put:
  "\<forall>x \<in> set xs. good x \<Longrightarrow> get_n get (length xs) (concat (map put xs) @ r) = Some (map norm xs, r)"
  by (induction xs) (simp_all add: get_put)

lemma put_prefix_free:
  "good x \<Longrightarrow> good y \<Longrightarrow> put x @ r = put y @ s \<Longrightarrow> norm x = norm y \<and> r = s"
  by (metis get_put option.inject prod.inject)

end

text \<open>The documented behaviour of the libraries.\<close>

locale lib_laws =
  fixes L :: lib
  assumes u8: "codec (put_u8 L) (get_u8 L) id (\<lambda>_. True)"
    and u16: "codec (put_u16 L) (get_u16 L) id (\<lambda>_. True)"
    and u32: "codec (put_u32 L) (get_u32 L) id (\<lambda>_. True)"
    and u64: "codec (put_u64 L) (get_u64 L) id (\<lambda>_. True)"
    and u128: "codec (put_u128 L) (get_u128 L) id (\<lambda>_. True)"
    and str: "codec (put_str L) (get_str L) id (\<lambda>s. length s < 2 ^ 64)"
    and raw_u8: "put_u8 L c = [c]"
    and families: "family_v4 L \<noteq> family_v6 L" "family_v4 L \<noteq> family_none L"

text \<open>What a message must satisfy to survive the wire, and what becomes of it.\<close>

definition path_fits :: "path \<Rightarrow> bool" where
  "path_fits p \<longleftrightarrow> wf_path p \<and> length (lexically_normal p) < 2 ^ 64
     \<and> (\<forall>e \<in> set (lexically_normal p). length e < 2 ^ 64)"

definition time_fits :: "int \<Rightarrow> bool" where
  "time_fits t \<longleftrightarrow> - (2 ^ 63) \<le> sys_to_time_t t \<and> sys_to_time_t t < 2 ^ 63"

definition base_fits :: "'a Message_scheme \<Rightarrow> bool" where
  "base_fits m \<longleftrightarrow> isValid (receiverNode m) \<and> isValid (originatorNode m)"

primrec fits :: "any_message \<Rightarrow> bool" where
  "fits (MBase m) = base_fits m"
| "fits (MPayload m) = (base_fits m \<and> length (payload m) < 2 ^ 64)"
| "fits (MResend m) = (base_fits m \<and> isValid (originalDestination m))"
| "fits (MFile m) = (base_fits m \<and> path_fits (targetFile m) \<and> time_fits (timestamp m))"
| "fits (MContent m) = (base_fits m \<and> path_fits (targetFile m) \<and> time_fits (timestamp m)
     \<and> length (fileContent m) < 2 ^ 64)"
| "fits (MSync m) = (base_fits m \<and> path_fits (targetFile m) \<and> time_fits (timestamp m)
     \<and> length (fileContent m) < 2 ^ 64)"
| "fits (MConnect m) = (base_fits m \<and> length (backupPeers m) < 2 ^ 64
     \<and> (\<forall>p \<in> set (backupPeers m). isValid (fst p)) \<and> length (managedPaths m) < 2 ^ 64
     \<and> (\<forall>p \<in> set (managedPaths m). path_fits p))"

definition whole_seconds :: "int \<Rightarrow> int" where
  "whole_seconds t = sys_from_time_t (sys_to_time_t t)"

primrec received :: "any_message \<Rightarrow> any_message" where
  "received (MBase m) = MBase (m\<lparr>senderNode := ipv6Unspecified\<rparr>)"
| "received (MPayload m) = MPayload (m\<lparr>senderNode := ipv6Unspecified\<rparr>)"
| "received (MResend m) = MResend (m\<lparr>senderNode := ipv6Unspecified\<rparr>)"
| "received (MFile m) = MFile (m\<lparr>senderNode := ipv6Unspecified,
     targetFile := lexically_normal (targetFile m), timestamp := whole_seconds (timestamp m)\<rparr>)"
| "received (MContent m) = MContent (m\<lparr>senderNode := ipv6Unspecified,
     targetFile := lexically_normal (targetFile m), timestamp := whole_seconds (timestamp m)\<rparr>)"
| "received (MSync m) = MSync (m\<lparr>senderNode := ipv6Unspecified,
     targetFile := lexically_normal (targetFile m), timestamp := whole_seconds (timestamp m)\<rparr>)"
| "received (MConnect m) = MConnect (m\<lparr>senderNode := ipv6Unspecified,
     managedPaths := map lexically_normal (managedPaths m)\<rparr>)"

text \<open>The load function of a message's class.\<close>

primrec load_same :: "lib \<Rightarrow> any_message \<Rightarrow> any_message get" where
  "load_same L (MBase _) bs = map_option (map_prod MBase id) (load_Message L bs)"
| "load_same L (MPayload _) bs = map_option (map_prod MPayload id) (load_Payload L bs)"
| "load_same L (MResend _) bs = map_option (map_prod MResend id) (load_Resend L bs)"
| "load_same L (MFile _) bs = map_option (map_prod MFile id) (load_File L bs)"
| "load_same L (MContent _) bs = map_option (map_prod MContent id) (load_Content L bs)"
| "load_same L (MSync _) bs = map_option (map_prod MSync id) (load_Sync L bs)"
| "load_same L (MConnect _) bs = map_option (map_prod MConnect id) (load_Connect L bs)"

context lib_laws
begin

lemma get_put_laws [simp]:
  "get_u8 L (put_u8 L x8 @ r) = Some (x8, r)"
  "get_u16 L (put_u16 L x16 @ r) = Some (x16, r)"
  "get_u32 L (put_u32 L x32 @ r) = Some (x32, r)"
  "get_u64 L (put_u64 L x64 @ r) = Some (x64, r)"
  "get_u128 L (put_u128 L x128 @ r) = Some (x128, r)"
  "length s < 2 ^ 64 \<Longrightarrow> get_str L (put_str L s @ r) = Some (s, r)"
  using u8 u16 u32 u64 u128 str by (simp_all add: codec_def)

lemma list_codec:
  assumes "codec put get norm good"
  shows "codec (put_list L put) (get_list L get) (map norm)
    (\<lambda>xs. length xs < 2 ^ 64 \<and> (\<forall>x \<in> set xs. good x))"
proof
  fix xs r
  assume "length xs < 2 ^ 64 \<and> (\<forall>x \<in> set xs. good x)"
  then show "get_list L get (put_list L put xs @ r) = Some (map norm xs, r)"
    using codec.get_n_put [OF assms, of xs r]
    by (simp add: put_list_def get_list_def unat_of_nat)
qed

end

sublocale lib_laws \<subseteq> ip: codec "save_ip L" "load_ip L" id isValid
  by unfold_locales
    (use families in \<open>auto simp: save_ip_def load_ip_def isValid_def split: ip_address.splits\<close>)

sublocale lib_laws \<subseteq> path: codec "save_path L" "load_path L" lexically_normal path_fits
proof
  fix p r
  assume p: "path_fits p"
  then have "get_list L (get_str L) (put_list L (put_str L) (lexically_normal p) @ r)
      = Some (map id (lexically_normal p), r)"
    by (intro codec.get_put [OF list_codec [OF str]]) (simp add: path_fits_def)
  moreover have "foldl (\<lambda>p part. path_div p (parse_path part)) [] (lexically_normal p)
      = lexically_normal p"
    using p by (intro foldl_parse_path wf_lexically_normal) (simp add: path_fits_def)
  ultimately show "load_path L (save_path L p @ r) = Some (lexically_normal p, r)"
    by (simp add: load_path_def save_path_def)
qed

sublocale lib_laws \<subseteq> peer: codec "save_peer L" "load_peer L" id "\<lambda>p. isValid (fst p)"
  by unfold_locales (simp add: save_peer_def load_peer_def ip.get_put)

context lib_laws
begin

lemma get_put_time [simp]:
  "time_fits t \<Longrightarrow> get_time_t L (put_time_t L (sys_to_time_t t) @ r) = Some (sys_to_time_t t, r)"
  by (simp add: put_time_t_def get_time_t_def time_fits_def signed_of_int
      signed_take_bit_int_eq_self)

lemma load_save_Message: "base_fits m \<Longrightarrow>
    load_Message L (save_Message L m @ r)
      = Some ((Message.truncate m)\<lparr>senderNode := ipv6Unspecified\<rparr>, r)"
  by (simp add: base_fits_def load_Message_def save_Message_def ip.get_put Message.truncate_def)

lemma load_save_File:
  "base_fits m \<Longrightarrow> path_fits (targetFile m) \<Longrightarrow> time_fits (timestamp m) \<Longrightarrow>
    load_File L (save_File L m @ r)
      = Some ((FileMessage.truncate m)\<lparr>senderNode := ipv6Unspecified,
          targetFile := lexically_normal (targetFile m),
          timestamp := whole_seconds (timestamp m)\<rparr>, r)"
  by (simp add: load_File_def save_File_def load_save_Message path.get_put whole_seconds_def
      Message.defs FileMessage.defs)

lemma load_save_Content:
  "base_fits m \<Longrightarrow> path_fits (targetFile m) \<Longrightarrow> time_fits (timestamp m) \<Longrightarrow>
    length (fileContent m) < 2 ^ 64 \<Longrightarrow>
    load_Content L (save_Content L m @ r)
      = Some ((FileContentMessage.truncate m)\<lparr>senderNode := ipv6Unspecified,
          targetFile := lexically_normal (targetFile m),
          timestamp := whole_seconds (timestamp m)\<rparr>, r)"
  by (simp add: load_Content_def save_Content_def load_save_File
      FileMessage.defs FileContentMessage.defs)

lemma load_save_Payload:
  "base_fits m \<Longrightarrow> length (payload m) < 2 ^ 64 \<Longrightarrow>
    load_Payload L (save_Payload L m @ r) = Some (m\<lparr>senderNode := ipv6Unspecified\<rparr>, r)"
  by (simp add: load_Payload_def save_Payload_def load_save_Message Message.defs
      PayloadMessage.defs)

lemma load_save_Resend:
  "base_fits m \<Longrightarrow> isValid (originalDestination m) \<Longrightarrow>
    load_Resend L (save_Resend L m @ r) = Some (m\<lparr>senderNode := ipv6Unspecified\<rparr>, r)"
  by (simp add: load_Resend_def save_Resend_def load_save_Message ip.get_put Message.defs
      ResendRequestMessage.defs)

lemma load_save_Sync:
  "base_fits m \<Longrightarrow> path_fits (targetFile m) \<Longrightarrow> time_fits (timestamp m) \<Longrightarrow>
    length (fileContent m) < 2 ^ 64 \<Longrightarrow>
    load_Sync L (save_Sync L m @ r)
      = Some (m\<lparr>senderNode := ipv6Unspecified, targetFile := lexically_normal (targetFile m),
          timestamp := whole_seconds (timestamp m)\<rparr>, r)"
  by (simp add: load_Sync_def save_Sync_def load_save_Content FileContentMessage.defs
      FileInitialSyncMessage.defs)

lemma load_save_Connect:
  assumes "fits (MConnect c)"
  shows "load_Connect L (save_Connect L c @ r)
    = Some (c\<lparr>senderNode := ipv6Unspecified,
        managedPaths := map lexically_normal (managedPaths c)\<rparr>, r)"
proof -
  have "get_list L (load_peer L) (put_list L (save_peer L) (backupPeers c) @ s)
      = Some (backupPeers c, s)" for s
    using codec.get_put [OF list_codec [OF peer.codec_axioms], of "backupPeers c" s] assms by simp
  moreover have "get_list L (load_path L) (put_list L (save_path L) (managedPaths c) @ r)
      = Some (map lexically_normal (managedPaths c), r)"
    using codec.get_put [OF list_codec [OF path.codec_axioms], of "managedPaths c" r] assms by simp
  moreover have "base_fits c" using assms by simp
  ultimately show ?thesis
    by (simp add: load_Connect_def save_Connect_def load_save_Message Message.defs
        ConnectMessage.defs)
qed

lemma load_save_any:
  assumes "fits m"
  shows "load_same L m (save_any L m @ r) = Some (received m, r)"
proof (cases m)
  case (MBase x)
  with assms show ?thesis by (simp add: load_save_Message Message.defs)
next
  case (MPayload x)
  with assms show ?thesis by (simp add: load_save_Payload)
next
  case (MResend x)
  with assms show ?thesis by (simp add: load_save_Resend)
next
  case (MFile x)
  with assms show ?thesis by (simp add: load_save_File FileMessage.defs)
next
  case (MContent x)
  with assms show ?thesis by (simp add: load_save_Content FileContentMessage.defs)
next
  case (MSync x)
  with assms show ?thesis by (simp add: load_save_Sync)
next
  case (MConnect x)
  with assms show ?thesis using load_save_Connect [of x r] by simp
qed

end

section \<open>A concrete instance\<close>

text \<open>
  A little-endian archive, decimal addresses and decimal dates: an instance of the libraries at
  which the laws hold, used by the witnesses.
\<close>

definition le_get_n :: "nat \<Rightarrow> 'a::len word get" where
  "le_get_n n bs = (if length bs < n then None else Some (le_get (take n bs), drop n bs))"

definition raw_put_str :: "string put" where
  "raw_put_str s = le_put 8 (of_nat (length s) :: 64 word) @ map byte_of_char s"

definition raw_get_str :: "string get" where
  "raw_get_str bs =
     do { (n, bs) \<leftarrow> le_get_n 8 bs;
          (if length bs < unat (n :: 64 word) then None
           else Some (map char_of_byte (take (unat n) bs), drop (unat n) bs)) }"

definition raw_lib :: lib where
  "raw_lib = \<lparr>put_u8 = le_put 1, get_u8 = le_get_n 1, put_u16 = le_put 2, get_u16 = le_get_n 2,
     put_u32 = le_put 4, get_u32 = le_get_n 4, put_u64 = le_put 8, get_u64 = le_get_n 8,
     put_u128 = le_put 16, get_u128 = le_get_n 16, put_str = raw_put_str, get_str = raw_get_str,
     family_v4 = 2, family_v6 = 10, family_none = 0, raw_v6_none = 0,
     ip_string = (\<lambda>ip. case ip of NoAddress \<Rightarrow> ''none'' | IPv4 a \<Rightarrow> to_string (unat a)
                     | IPv6 a \<Rightarrow> ''v6:'' @ to_string (unat a)),
     ctime = (\<lambda>t. to_string (nat t)), sizeof_Message = 96\<rparr>"

lemma le_get_n_codec: "LENGTH('a) \<le> 8 * n \<Longrightarrow> codec (le_put n) (le_get_n n) id (\<lambda>_ :: 'a::len word. True)"
  by unfold_locales (simp add: le_get_n_def le_get_put_full)

lemma le_get_n_1: "le_get_n (Suc 0) (b # bs) = Some (ucast b, bs)"
  by (simp add: le_get_n_def)

lemma raw_str_codec: "codec raw_put_str raw_get_str id (\<lambda>s. length s < 2 ^ 64)"
proof
  fix s :: string and r
  assume "length s < 2 ^ 64"
  moreover have "le_get (le_put 8 (w :: 64 word)) = w" for w
    by (rule le_get_put_full) simp

  ultimately show "raw_get_str (raw_put_str s @ r) = Some (id s, r)"
    by (simp add: raw_get_str_def raw_put_str_def le_get_n_def unat_of_nat)
qed

interpretation raw: lib_laws raw_lib
  by unfold_locales
    (simp_all add: raw_lib_def codec.get_put [OF le_get_n_codec] codec.get_put [OF raw_str_codec]
      le_get_n_1)

section \<open>Round trips\<close>

text \<open>C4: A message of any class that is saved and loaded again comes back as it was sent, but for
  what the format drops: the sender, the fraction of a second of a time stamp, and the spelling of
  paths; and the bytes after it are left for the next message.\<close>

theorem load_save_message:
  assumes "lib_laws L" and "fits m"
  shows "load_same L m (save_any L m @ r) = Some (received m, r)"
  using lib_laws.load_save_any [OF assms] .

theorem load_save_message_witness:
  "let m = MFile \<lparr>mtype = type_code unlock, receiverNode = ipv6Unspecified, senderNode = IPv6 7,
       originatorNode = IPv6 7, messageHash = 99, targetFile = [''.'', ''d'', ''f''],
       timestamp = 5500000000\<rparr>
   in lib_laws raw_lib \<and> fits m
      \<and> load_same raw_lib m (save_any raw_lib m @ [1, 2])
        = Some (MFile \<lparr>mtype = type_code unlock, receiverNode = ipv6Unspecified,
            senderNode = ipv6Unspecified, originatorNode = IPv6 7, messageHash = 99,
            targetFile = [''d'', ''f''], timestamp = 5000000000\<rparr>, [1, 2])"
proof -
  let ?m = "MFile \<lparr>mtype = type_code unlock, receiverNode = ipv6Unspecified, senderNode = IPv6 7,
       originatorNode = IPv6 7, messageHash = 99, targetFile = [''.'', ''d'', ''f''],
       timestamp = 5500000000\<rparr>"
  have n: "lexically_normal [''.'', ''d'', ''f''] = [''d'', ''f'']"
    by (simp add: lexically_normal_def)
  have f: "fits ?m"
    by (simp add: base_fits_def isValid_def path_fits_def time_fits_def n name_ok_def
        sys_to_time_t_def tdiv_def)
  have r: "received ?m = MFile \<lparr>mtype = type_code unlock, receiverNode = ipv6Unspecified,
            senderNode = ipv6Unspecified, originatorNode = IPv6 7, messageHash = 99,
            targetFile = [''d'', ''f''], timestamp = 5000000000\<rparr>"
    by (simp add: n whole_seconds_def sys_from_time_t_def sys_to_time_t_def tdiv_def)
  show ?thesis
    using raw.lib_laws_axioms f load_save_message [OF raw.lib_laws_axioms f, of "[1, 2]"]
    by (simp only: Let_def r simp_thms)
qed

end
