(* ===== verification/Network.thy ===== *)
theory Network
  imports World Serialization
begin

text \<open>
  Sending, routing and receiving: \<open>send\<close> and \<open>routeData\<close> of \<open>src/src/peer_manager.hpp\<close>,
  \<open>validateMessageHash\<close> of \<open>src/src/message_manager.cpp\<close>, \<open>deserializeMessage\<close> of
  \<open>src/src/message_manager.hpp\<close>, \<open>processMessage\<close> of \<open>src/src/peer.cpp\<close> and the acceptance of a
  connection.  The four functions call each other: \<open>send\<close> routes to the process itself, which
  validates and may send a resend request.  The functions below take the \<open>send\<close> they call as an
  argument, and \<open>send\<close> closes the circle over a fuel that counts the nested sends.
\<close>

section \<open>Hash validation\<close>

text \<open>\<open>to_time_t(timestamp)\<close> inside \<open>hashString\<close> reads the clock twice, \<open>tp - now() + now()\<close>; \<open>now_in\<close> is
  what the first call in this text returned, whichever of the two was evaluated first.\<close>

definition draw_time :: "any_message \<Rightarrow> (world, int) prog" where
  "draw_time m =
     (case hash_timestamp m of
        None \<Rightarrow> ret 0
      | Some ts \<Rightarrow> bnd now (\<lambda>now_in. bnd now (\<lambda>now_out. ret (to_time_t ts now_in now_out))))"

type_synonym sender = "any_message \<Rightarrow> ip_address \<Rightarrow> (world, unit) prog"

definition resend_request :: "any_message \<Rightarrow> any_message" where
  "resend_request m =
     MResend (Message.extend (new_Message resendRequest)
       (ResendRequestMessage.fields (messageHash (header m)) (receiverNode (header m))))"

definition validateMessageHash ::
    "lib \<Rightarrow> sender \<Rightarrow> any_message \<Rightarrow> 8 word \<Rightarrow> (world, bool) prog" where
  "validateMessageHash L sendf m offset =
     bnd (draw_time m) (\<lambda>t.
     if messageHash (header m) \<noteq> msg_hash L t m + ucast offset
     then bnd (sendf (resend_request m) (senderNode (header m))) (\<lambda>_. ret False)
     else ret True)"

section \<open>Deserialisation\<close>

definition archive_load :: "'a get \<Rightarrow> byte list \<Rightarrow> (world, 'a) prog" where
  "archive_load load data =
     (case load data of None \<Rightarrow> throw CerealException | Some (x, _) \<Rightarrow> ret x)"

definition validate_and_enqueue ::
    "lib \<Rightarrow> sender \<Rightarrow> any_message \<Rightarrow> 8 word \<Rightarrow> size_t \<Rightarrow> (world, unit) prog" where
  "validate_and_enqueue L sendf m offset priority =
     bnd (validateMessageHash L sendf m offset) (\<lambda>ok.
     if \<not> ok then ret () else enqueue priority m)"

definition deserializeMessage :: "lib \<Rightarrow> sender \<Rightarrow> byte list \<Rightarrow> (world, unit) prog" where
  "deserializeMessage L sendf data =
     (case data of
        [] \<Rightarrow> throw (Undefined ''data[0]'')
      | c # _ \<Rightarrow>
        (case type_of_code c of
           Some payload_t \<Rightarrow> bnd (archive_load (load_Payload L) data)
             (\<lambda>m. validate_and_enqueue L sendf (MPayload m) 0 payloadPriority)
         | Some resendRequest \<Rightarrow> bnd (archive_load (load_Resend L) data)
             (\<lambda>m. validate_and_enqueue L sendf (MResend m) 0 resendPriority)
         | Some lock \<Rightarrow> bnd (archive_load (load_File L) data)
             (\<lambda>m. validate_and_enqueue L sendf (MFile m) 1 lockPriority)
         | Some unlock \<Rightarrow> bnd (archive_load (load_File L) data)
             (\<lambda>m. validate_and_enqueue L sendf (MFile m) 1 lockPriority)
         | Some deleteFile \<Rightarrow> bnd (archive_load (load_File L) data)
             (\<lambda>m. validate_and_enqueue L sendf (MFile m) 1 filePriority)
         | Some contentChange \<Rightarrow> bnd (archive_load (load_Content L) data)
             (\<lambda>m. validate_and_enqueue L sendf (MContent m) 1 filePriority)
         | Some initialSync \<Rightarrow> bnd (archive_load (load_Sync L) data)
             (\<lambda>m. validate_and_enqueue L sendf (MSync m) 1 lockPriority)
         | Some connect \<Rightarrow> bnd (archive_load (load_Connect L) data)
             (\<lambda>m. validate_and_enqueue L sendf (MConnect m) 0 connectPriority)
         | Some disconnect \<Rightarrow> bnd (archive_load (load_Message L) data)
             (\<lambda>m. validate_and_enqueue L sendf (MBase m) 0 disconnectPriority)
         | _ \<Rightarrow> throw (RuntimeError ''Unrecognized message type'')))"

section \<open>Routing\<close>

text \<open>
  Where data goes is a function of the addresses alone: the peers it is sent to, in order, and
  whether it is processed here.
\<close>

record 'p hops =
  to_peers :: "'p list"
  to_self :: bool

definition forward2all :: "('p \<Rightarrow> ip_address) \<Rightarrow> 'p list \<Rightarrow> ip_address \<Rightarrow> ip_address \<Rightarrow> 'p hops" where
  "forward2all addr ps self source =
     \<lparr>to_peers = filter (\<lambda>p. addr p \<noteq> source) ps,
      to_self = (\<not> (source = ipv6Loopback \<or> source = ipv4Loopback \<or> source = self))\<rparr>"

definition route ::
    "('p \<Rightarrow> ip_address) \<Rightarrow> 'p list \<Rightarrow> ip_address \<Rightarrow> ip_address \<Rightarrow> ip_address \<Rightarrow> 'p hops" where
  "route addr ps self destination source =
     (if destination = ipv6Unspecified \<or> destination = ipv4Unspecified
      then forward2all addr ps self source
      else if destination = ipv6Loopback \<or> destination = ipv4Loopback \<or> destination = self
      then \<lparr>to_peers = [], to_self = True\<rparr>
      else (case find (\<lambda>p. addr p = destination) ps of
              Some p \<Rightarrow> \<lparr>to_peers = [p], to_self = False\<rparr>
            | None \<Rightarrow> forward2all addr ps self source))"

text \<open>The peers whose address routing asks for.\<close>

definition asked_for :: "ip_address \<Rightarrow> world \<Rightarrow> world" where
  "asked_for destination w =
     (if destination = ipv6Unspecified \<or> destination = ipv4Unspecified
      then w\<lparr>peers := map ask_ip (peers w)\<rparr>
      else if destination = ipv6Loopback \<or> destination = ipv4Loopback \<or> destination = self_ip w
      then w
      else w\<lparr>peers := ask_until destination (peers w)\<rparr>)"

definition peer_send :: "byte list \<Rightarrow> peer \<Rightarrow> (world, unit) prog" where
  "peer_send data p = updates (\<lambda>w. w\<lparr>outbox := outbox w @ [(socketIP p, data)]\<rparr>)"

definition routeData ::
    "lib \<Rightarrow> sender \<Rightarrow> byte list \<Rightarrow> ip_address \<Rightarrow> ip_address \<Rightarrow> (world, unit) prog" where
  "routeData L sendf data destination source =
     bnd (gets (\<lambda>w. route remoteIP (peers w) (self_ip w) destination source)) (\<lambda>h.
     bnd (updates (asked_for destination)) (\<lambda>_.
     bnd (for_each (peer_send data) (to_peers h)) (\<lambda>_.
     if to_self h then deserializeMessage L sendf data else ret ())))"

section \<open>Sending\<close>

definition add_routing :: "ip_address \<Rightarrow> ip_address \<Rightarrow> any_message \<Rightarrow> any_message" where
  "add_routing self destination =
     header_update (\<lambda>m. m\<lparr>receiverNode := destination, senderNode := self,
       originatorNode := (if originatorNode m = ipv6Unspecified then self else originatorNode m)\<rparr>)"

definition set_hash :: "size_t \<Rightarrow> any_message \<Rightarrow> any_message" where
  "set_hash h = header_update (\<lambda>m. m\<lparr>messageHash := h\<rparr>)"

primrec send ::
    "lib \<Rightarrow> nat \<Rightarrow> any_message \<Rightarrow> ip_address \<Rightarrow> bool \<Rightarrow> (world, unit) prog" where
  "send L 0 msg destination broadcastToSelf = throw OutOfFuel"
| "send L (Suc fuel) msg destination broadcastToSelf =
     bnd (gets self_ip) (\<lambda>self.
     let routed = add_routing self destination msg in
     bnd (draw_time routed) (\<lambda>t.
     let hashed = set_hash (msg_hash L t routed) routed in
     bnd (routeData L (\<lambda>m d. send L fuel m d True) (save_any L hashed) destination
            (if broadcastToSelf then ipv6Unspecified else ipv6Loopback)) (\<lambda>_.
     remember hashed)))"

text \<open>Two nested sends are enough (\<open>send_two_is_enough\<close> in \<open>Liveness\<close>).\<close>

definition sendMessage :: "lib \<Rightarrow> any_message \<Rightarrow> ip_address \<Rightarrow> (world, unit) prog" where
  "sendMessage L m destination = send L 2 m destination True"

definition broadcast :: "lib \<Rightarrow> any_message \<Rightarrow> (world, unit) prog" where
  "broadcast L m = sendMessage L m ipv6Unspecified"

section \<open>Data from a peer\<close>

text \<open>
  \<open>Peer::processMessage\<close> on data that came over the socket of the peer with index \<open>i\<close>: it reads the
  base class from the first \<open>sizeof(Message)\<close> bytes, running into the memory behind the data
  (\<open>overread\<close>) when the data is shorter.  \<open>getRemoteIP\<close> leaves the address in that peer.
\<close>

definition getRemoteIP :: "nat \<Rightarrow> (world, ip_address) prog" where
  "getRemoteIP i =
     bnd (gets (\<lambda>w. if i < length (peers w) then Some (peers w ! i) else None)) (\<lambda>this.
     bnd (need ''peer'' this) (\<lambda>p.
     bnd (updates (\<lambda>w. w\<lparr>peers := (peers w)[i := ask_ip p]\<rparr>)) (\<lambda>_.
     ret (remoteIP p))))"

definition processMessage ::
    "lib \<Rightarrow> byte list \<Rightarrow> nat \<Rightarrow> byte list \<Rightarrow> (world, unit) prog" where
  "processMessage L overread i data =
     bnd (archive_load (load_Message L) (take (sizeof_Message L) (data @ overread))) (\<lambda>m.
     bnd (if senderNode m = ipv6Unspecified then getRemoteIP i else ret (senderNode m)) (\<lambda>sender.
     routeData L (sendMessage L) data (receiverNode m) sender))"

text \<open>
  A new connection, as the listening thread of \<open>PeerManager::setup\<close> handles it; \<open>grow\<close> says whether
  the vector of peers has to grow for it.
\<close>

definition accept_connection :: "lib \<Rightarrow> bool \<Rightarrow> ip_address \<Rightarrow> 16 word \<Rightarrow> (world, unit) prog" where
  "accept_connection L grow ip port =
     bnd (gets (\<lambda>w. map (\<lambda>p. (remoteIP p, remotePort p)) (peers w))) (\<lambda>backups.
     bnd (updates (\<lambda>w. w\<lparr>peers := emplace_peer grow (ask_ip (new_peer ip port))
            (map (\<lambda>p. ask_port (ask_ip p)) (peers w))\<rparr>)) (\<lambda>_.
     let peerIP = remoteIP (new_peer ip port) in
     bnd (gets folders) (\<lambda>managed.
     bnd (sendMessage L (MConnect (Message.extend (new_Message connect)
            (ConnectMessage.fields backups managed))) peerIP) (\<lambda>_.
     enqueue disconnectPriority
       (MBase ((new_Message initialSyncRequest)\<lparr>originatorNode := peerIP\<rparr>))))))"

section \<open>Routing\<close>

definition local_source :: "ip_address \<Rightarrow> ip_address \<Rightarrow> bool" where
  "local_source self source \<longleftrightarrow>
     source = ipv6Loopback \<or> source = ipv4Loopback \<or> source = self"

definition is_broadcast :: "ip_address \<Rightarrow> bool" where
  "is_broadcast d \<longleftrightarrow> d = ipv6Unspecified \<or> d = ipv4Unspecified"

definition is_self :: "ip_address \<Rightarrow> ip_address \<Rightarrow> bool" where
  "is_self self d \<longleftrightarrow> d = ipv6Loopback \<or> d = ipv4Loopback \<or> d = self"

lemma route_cases:
  "route addr ps self d s =
     (if is_broadcast d then forward2all addr ps self s
      else if is_self self d then \<lparr>to_peers = [], to_self = True\<rparr>
      else case find (\<lambda>p. addr p = d) ps of
             Some p \<Rightarrow> \<lparr>to_peers = [p], to_self = False\<rparr>
           | None \<Rightarrow> forward2all addr ps self s)"
  by (simp add: route_def is_broadcast_def is_self_def)

text \<open>Forwarded data never goes back over the link it came from, unless that neighbour is itself the
  destination.\<close>

lemma route_no_echo: "d \<noteq> s \<Longrightarrow> p \<in> set (to_peers (route addr ps self d s)) \<Longrightarrow> addr p \<noteq> s"
  by (auto simp: route_cases forward2all_def find_Some_iff split: if_splits option.splits)

text \<open>Data addressed to a node that is neither this one nor a neighbour is flooded like a
  broadcast and is also processed here, although this node is not its destination.\<close>

lemma route_indirect_is_processed_on_the_way:
  assumes "\<not> is_broadcast d" and "\<not> is_self self d" and "d \<notin> addr ` set ps" and "\<not> local_source self s"
  shows "to_self (route addr ps self d s)
    \<and> to_peers (route addr ps self d s) = filter (\<lambda>p. addr p \<noteq> s) ps"
proof -
  have "find (\<lambda>p. addr p = d) ps = None" using assms(3) by (auto simp: find_None_iff)
  then show ?thesis using assms by (simp add: route_cases forward2all_def local_source_def)
qed


text \<open>What routing does to the outbox.\<close>

lemma peer_sends_exec:
  "for_each (peer_send data) ps w
    = (Inr (), w\<lparr>outbox := outbox w @ map (\<lambda>p. (socketIP p, data)) ps\<rparr>)"
  by (induction ps arbitrary: w) (simp_all add: exec_simps peer_send_def)

definition posted :: "byte list \<Rightarrow> peer list \<Rightarrow> world \<Rightarrow> world" where
  "posted data ps w = w\<lparr>outbox := outbox w @ map (\<lambda>p. (socketIP p, data)) ps\<rparr>"

definition hops_of :: "world \<Rightarrow> ip_address \<Rightarrow> ip_address \<Rightarrow> peer hops" where
  "hops_of w d s = route remoteIP (peers w) (self_ip w) d s"

text \<open>Asking for addresses does not change them.\<close>

lemma asked_for_simps [simp]:
  "self_ip (asked_for d w) = self_ip w" "folders (asked_for d w) = folders w"
  "receivedInitialFiles (asked_for d w) = receivedInitialFiles w"
  "totalInitialFiles (asked_for d w) = totalInitialFiles w"
  "messageQueue (asked_for d w) = messageQueue w" "oldMessages (asked_for d w) = oldMessages w"
  "gatewayIP (asked_for d w) = gatewayIP w" "backup_peers (asked_for d w) = backup_peers w"
  "files (asked_for d w) = files w" "outbox (asked_for d w) = outbox w"
  "clock (asked_for d w) = clock w" "ticks (asked_for d w) = ticks w" "dials (asked_for d w) = dials w"
  "map remoteIP (peers (asked_for d w)) = map remoteIP (peers w)"
  "map socketIP (peers (asked_for d w)) = map socketIP (peers w)"
  "cache_ok (asked_for d w) = cache_ok w"
  by (simp_all add: asked_for_def cache_ok_def)

text \<open>What a peer's question for its address leaves behind.\<close>

definition asked_at :: "nat \<Rightarrow> world \<Rightarrow> world" where
  "asked_at i w = w\<lparr>peers := (peers w)[i := ask_ip (peers w ! i)]\<rparr>"

lemma getRemoteIP_exec:
  "i < length (peers w) \<Longrightarrow> getRemoteIP i w = (Inr (remoteIP (peers w ! i)), asked_at i w)"
  by (simp add: getRemoteIP_def exec_simps asked_at_def)

lemma map_list_update_same: "f (g (xs ! i)) = f (xs ! i) \<Longrightarrow> map f (xs[i := g (xs ! i)]) = map f xs"
  by (cases "i < length xs") (simp_all add: map_update list_update_same_conv list_update_beyond)

lemma asked_at_simps [simp]:
  "self_ip (asked_at i w) = self_ip w" "folders (asked_at i w) = folders w"
  "receivedInitialFiles (asked_at i w) = receivedInitialFiles w"
  "totalInitialFiles (asked_at i w) = totalInitialFiles w"
  "messageQueue (asked_at i w) = messageQueue w" "oldMessages (asked_at i w) = oldMessages w"
  "gatewayIP (asked_at i w) = gatewayIP w" "backup_peers (asked_at i w) = backup_peers w"
  "files (asked_at i w) = files w" "outbox (asked_at i w) = outbox w"
  "clock (asked_at i w) = clock w" "ticks (asked_at i w) = ticks w" "dials (asked_at i w) = dials w"
  "map remoteIP (peers (asked_at i w)) = map remoteIP (peers w)"
  "map socketIP (peers (asked_at i w)) = map socketIP (peers w)"
  "cache_ok (asked_at i w) = cache_ok w"
  by (simp_all add: asked_at_def cache_ok_def map_list_update_same)

lemma ask_ip_twice [simp]: "ask_ip (ask_ip p) = ask_ip p"
  by (simp add: ask_ip_def remoteIP_def)

lemma asked_at_broadcast: "asked_for ipv6Unspecified (asked_at i w) = asked_for ipv6Unspecified w"
  by (simp add: asked_for_def asked_at_def map_list_update_same)

text \<open>Routing depends on the addresses of the peers alone.\<close>

lemma sockets_at:
  "map (\<lambda>p. f (socketIP p)) (filter (\<lambda>p. P (remoteIP p)) (ps[i := ask_ip (ps ! i)]))
    = map (\<lambda>p. f (socketIP p)) (filter (\<lambda>p. P (remoteIP p)) ps)"
proof (induction ps arbitrary: i)
  case (Cons p ps)
  then show ?case by (cases i) auto
qed simp

lemma routeData_exec:
  "routeData L sendf data d s w =
     (let h = hops_of w d s; w' = posted data (to_peers h) (asked_for d w)
      in if to_self h then deserializeMessage L sendf data w' else (Inr (), w'))"
  by (simp add: routeData_def exec_simps peer_sends_exec posted_def hops_of_def Let_def)

end
