(* ===== verification/Framing.thy ===== *)
theory Framing
  imports Network
begin

text \<open>
  The byte stream between two peers: \<open>Peer::send\<close> of \<open>src/src/peer.hpp\<close> writes the size of the data
  and then the data, \<open>Peer::threadFunction\<close> of \<open>src/src/peer.cpp\<close> puts them together again, however
  the stream is cut into pieces.  A receive call is modelled by the bytes it returned; polling and
  the socket are the environment.  Allocation does not fail.
\<close>

section \<open>Sending\<close>

definition frame :: "byte list \<Rightarrow> byte list" where
  "frame data = le_put 8 (of_nat (length data) :: 64 word) @ data"

section \<open>Receiving\<close>

record receiver =
  buffer :: "byte list"
  dataSize :: nat
  dataReceived :: nat

definition new_receiver :: receiver where
  "new_receiver = \<lparr>buffer = replicate 30 0, dataSize = 0, dataReceived = 0\<rparr>"

definition resize :: "nat \<Rightarrow> byte list \<Rightarrow> byte list" where
  "resize n bs = take n bs @ replicate (n - length bs) 0"

text \<open>\<open>memmove\<close> of \<open>n\<close> bytes from offset \<open>i\<close> to the front, and writing received bytes at an offset.\<close>

definition move_front :: "nat \<Rightarrow> nat \<Rightarrow> byte list \<Rightarrow> byte list" where
  "move_front i n bs = take n (drop i bs) @ drop n bs"

definition write_at :: "nat \<Rightarrow> byte list \<Rightarrow> byte list \<Rightarrow> byte list option" where
  "write_at i chunk bs =
     (if length bs < i + length chunk then None
      else Some (take i bs @ chunk @ drop (i + length chunk) bs))"

text \<open>How many bytes the next call asks for.\<close>

definition wanted :: "receiver \<Rightarrow> nat" where
  "wanted r = (if dataSize r = 0 then 8 - dataReceived r else length (buffer r) - dataReceived r)"

text \<open>
  The body of the loop when data is ready: \<open>None\<close> is a write past the end of the buffer, and the
  second component is a message to process.
\<close>

definition recv :: "receiver \<Rightarrow> byte list \<Rightarrow> (receiver \<times> byte list option) option" where
  "recv r chunk =
     (case write_at (dataReceived r) chunk (buffer r) of
        None \<Rightarrow> None
      | Some buf \<Rightarrow>
          let received = dataReceived r + length chunk in
          if dataSize r = 0 then
            if 8 \<le> received then
              let n = unat (le_get (take 8 buf) :: 64 word);
                  received = received - 8;
                  buf = (if 0 < received then move_front 8 (length buf - 8) buf else buf)
              in Some (\<lparr>buffer = resize n buf, dataSize = n, dataReceived = received\<rparr>, None)
            else Some (\<lparr>buffer = buf, dataSize = 0, dataReceived = received\<rparr>, None)
          else if dataSize r \<le> received then
            let buf' = (if 0 < received then move_front (dataSize r) (length buf - dataSize r) buf
                        else buf)
            in Some (\<lparr>buffer = buf', dataSize = 0, dataReceived = received - dataSize r\<rparr>,
                     Some (take (dataSize r) buf))
          else Some (\<lparr>buffer = buf, dataSize = dataSize r, dataReceived = received\<rparr>, None))"

text \<open>What polling and receiving give the loop in one iteration.\<close>

datatype poll = Nothing | Ready "byte list" | Failed string

fun contains :: "string \<Rightarrow> string \<Rightarrow> bool" where
  "contains pat s = (take (length pat) s = pat \<or> (case s of [] \<Rightarrow> False | _ # t \<Rightarrow> contains pat t))"

definition link_lost :: "string \<Rightarrow> bool" where
  "link_lost what \<longleftrightarrow> contains ''zts_errno=107'' what \<or> contains ''zts_poll returned ZTS_POLLERR'' what"

text \<open>The handler of \<open>ZTError\<close> in the thread of the peer with index \<open>i\<close>: whether the link was lost.\<close>

definition link_failed :: "nat \<Rightarrow> string \<Rightarrow> (world, bool) prog" where
  "link_failed i what =
     (if link_lost what
      then bnd (getRemoteIP i) (\<lambda>ip.
           bnd (enqueue disconnectPriority (MBase ((new_Message linkLost)\<lparr>originatorNode := ip\<rparr>))) (\<lambda>_.
           ret True))
      else ret False)"

text \<open>The receiver when processing the message it has completed throws: the bytes are in the buffer and
  counted, but nothing is reset.\<close>

definition unprocessed :: "receiver \<Rightarrow> byte list \<Rightarrow> receiver" where
  "unprocessed r chunk =
     (case write_at (dataReceived r) chunk (buffer r) of
        None \<Rightarrow> r
      | Some buf \<Rightarrow> r\<lparr>buffer := buf, dataReceived := dataReceived r + length chunk\<rparr>)"

text \<open>One iteration of the loop: the receiver it leaves, and \<open>None\<close> when the thread ends.\<close>

definition receive_step ::
    "lib \<Rightarrow> byte list \<Rightarrow> nat \<Rightarrow> poll \<Rightarrow> receiver \<Rightarrow> (world, receiver option) prog" where
  "receive_step L overread i e r =
     catch
       (case e of
          Nothing \<Rightarrow> ret (Some r)
        | Failed what \<Rightarrow> throw (NetworkError what)
        | Ready chunk \<Rightarrow>
            (case recv r chunk of
               None \<Rightarrow> throw (Undefined ''buffer overflow'')
             | Some (r', None) \<Rightarrow> ret (Some r')
             | Some (r', Some data) \<Rightarrow>
                 bnd (processMessage L overread i data) (\<lambda>_. ret (Some r'))))
       (\<lambda>x. case x of
          NetworkError what \<Rightarrow>
            bnd (link_failed i what) (\<lambda>lost.
            ret (if lost then None
                 else Some (case e of Ready chunk \<Rightarrow> unprocessed r chunk | _ \<Rightarrow> r)))
        | _ \<Rightarrow> throw x)"

primrec threadFunction ::
    "lib \<Rightarrow> byte list \<Rightarrow> nat \<Rightarrow> poll list \<Rightarrow> receiver \<Rightarrow> (world, unit) prog" where
  "threadFunction L overread i [] r = ret ()"
| "threadFunction L overread i (e # es) r =
     bnd (receive_step L overread i e r) (\<lambda>next. case next of
       None \<Rightarrow> ret ()
     | Some r' \<Rightarrow> threadFunction L overread i es r')"

section \<open>The stream is put together again\<close>

text \<open>
  \<open>feed ns r stream\<close>: the calls return up to \<open>ns\<close> bytes each, never more than was asked for; the
  result is the receiver, what is left of the stream, and the messages handed on.
\<close>

primrec feed ::
    "nat list \<Rightarrow> receiver \<Rightarrow> byte list \<Rightarrow> (receiver \<times> byte list \<times> byte list list) option" where
  "feed [] r stream = Some (r, stream, [])"
| "feed (n # ns) r stream =
     (let k = min n (wanted r) in
      case recv r (take k stream) of
        None \<Rightarrow> None
      | Some (r', out) \<Rightarrow>
          (case feed ns r' (drop k stream) of
             None \<Rightarrow> None
           | Some (r'', rest, outs) \<Rightarrow>
               Some (r'', rest, (case out of None \<Rightarrow> outs | Some d \<Rightarrow> d # outs))))"

text \<open>What the receiver has of the messages \<open>ds\<close>, of which the bytes \<open>rest\<close> are still to come.\<close>

definition synced :: "receiver \<Rightarrow> byte list \<Rightarrow> byte list list \<Rightarrow> bool" where
  "synced r rest ds \<longleftrightarrow>
     (if dataSize r = 0
      then dataReceived r < 8 \<and> 8 \<le> length (buffer r)
         \<and> take (dataReceived r) (buffer r) @ rest = concat (map frame ds)
      else dataReceived r < dataSize r \<and> length (buffer r) = dataSize r \<and> ds \<noteq> []
         \<and> length (hd ds) = dataSize r
         \<and> take (dataReceived r) (buffer r) @ rest = hd ds @ concat (map frame (tl ds)))"

definition frame_ok :: "byte list \<Rightarrow> bool" where
  "frame_ok d \<longleftrightarrow> 8 \<le> length d \<and> length d < 2 ^ 64"

lemma write_at_Some:
  "i + length chunk \<le> length bs \<Longrightarrow>
    write_at i chunk bs = Some (take i bs @ chunk @ drop (i + length chunk) bs)"
  by (simp add: write_at_def)

lemma length_resize [simp]: "length (resize n bs) = n"
  by (simp add: resize_def)

lemma recv_synced:
  assumes s: "synced r (chunk @ rest) ds" and ok: "\<forall>d \<in> set ds. frame_ok d"
    and len: "length chunk \<le> wanted r"
  shows "\<exists>r' out. recv r chunk = Some (r', out)
    \<and> (case out of None \<Rightarrow> synced r' rest ds | Some d \<Rightarrow> ds \<noteq> [] \<and> d = hd ds \<and> synced r' rest (tl ds))"
proof (cases "dataSize r = 0")
  case True
  let ?buf = "take (dataReceived r) (buffer r) @ chunk @ drop (dataReceived r + length chunk) (buffer r)"
  let ?n = "dataReceived r + length chunk"
  have s': "dataReceived r < 8" "8 \<le> length (buffer r)"
    "take (dataReceived r) (buffer r) @ chunk @ rest = concat (map frame ds)"
    using s True by (simp_all add: synced_def)
  have n: "?n \<le> 8" using len True s' by (simp add: wanted_def)
  have w: "write_at (dataReceived r) chunk (buffer r) = Some ?buf"
    by (rule write_at_Some) (use n s' in simp)
  have lb: "length ?buf = length (buffer r)" using n s' by simp
  have tb: "take ?n ?buf = take (dataReceived r) (buffer r) @ chunk" using n s' by simp
  show ?thesis
  proof (cases "8 \<le> ?n")
    case False
    then show ?thesis
      using True w tb s' n by (simp add: recv_def Let_def synced_def)
  next
    case 8: True
    then have n8: "?n = 8" using n by simp
    have l8: "length (take (dataReceived r) (buffer r) @ chunk) = 8" using n8 s' by simp
    then have "ds \<noteq> []" using s'(3) by auto
    then obtain d ds' where ds: "ds = d # ds'" by (cases ds) auto
    have d: "8 \<le> length d" "length d < 2 ^ 64" using ok ds by (simp_all add: frame_ok_def)
    have eq: "(take (dataReceived r) (buffer r) @ chunk) @ rest
        = le_put 8 (of_nat (length d) :: 64 word) @ d @ concat (map frame ds')"
      using s'(3) ds by (simp add: frame_def)
    have hdr: "take (dataReceived r) (buffer r) @ chunk = le_put 8 (of_nat (length d) :: 64 word)"
      "rest = d @ concat (map frame ds')"
      using eq l8 by (metis append_eq_append_conv length_le_put)+
    have sz: "unat (le_get (take 8 ?buf) :: 64 word) = length d"
      using tb n8 hdr(1) d(2) by (simp add: le_get_put_full unat_of_nat)
    have "recv r chunk
        = Some (\<lparr>buffer = resize (length d) ?buf, dataSize = length d, dataReceived = 0\<rparr>, None)"
      using True w n8 sz by (simp add: recv_def Let_def)
    moreover have "synced \<lparr>buffer = resize (length d) ?buf, dataSize = length d, dataReceived = 0\<rparr> rest ds"
      using ds d hdr(2) by (cases d) (simp_all add: synced_def)
    ultimately show ?thesis by auto
  qed
next
  case False
  let ?buf = "take (dataReceived r) (buffer r) @ chunk @ drop (dataReceived r + length chunk) (buffer r)"
  let ?n = "dataReceived r + length chunk"
  obtain d ds' where ds: "ds = d # ds'" using s False by (cases ds) (auto simp: synced_def)
  have s': "dataReceived r < dataSize r" "length (buffer r) = dataSize r" "length d = dataSize r"
    "take (dataReceived r) (buffer r) @ chunk @ rest = d @ concat (map frame ds')"
    using s False ds by (simp_all add: synced_def)
  have n: "?n \<le> dataSize r" using len False s' by (simp add: wanted_def)
  have w: "write_at (dataReceived r) chunk (buffer r) = Some ?buf"
    by (rule write_at_Some) (use n s' in simp)
  have tb: "take ?n ?buf = take (dataReceived r) (buffer r) @ chunk" using n s' by simp
  show ?thesis
  proof (cases "dataSize r \<le> ?n")
    case below: False
    then show ?thesis
      using False w tb s' n ds by (simp add: recv_def Let_def synced_def)
  next
    case True
    then have n': "?n = dataSize r" using n by simp
    have "length (take (dataReceived r) (buffer r) @ chunk) = length d" using n' s' by simp
    then have got: "take (dataReceived r) (buffer r) @ chunk = d" "rest = concat (map frame ds')"
      using s'(4) by (metis append_assoc append_eq_append_conv)+
    have buf: "?buf = d" using n' s' got(1) by simp
    have d8: "8 \<le> length d" using ok ds by (simp add: frame_ok_def)
    have "recv r chunk = Some (\<lparr>buffer = d, dataSize = 0, dataReceived = 0\<rparr>, Some d)"
      using False w n' s' buf by (simp add: recv_def Let_def move_front_def)
    then show ?thesis
      using ds got d8 by (simp add: synced_def)
  qed
qed


lemma feed_synced:
  "synced r stream ds \<Longrightarrow> \<forall>d \<in> set ds. frame_ok d \<Longrightarrow>
    \<exists>r' rest outs ds'. feed ns r stream = Some (r', rest, outs) \<and> ds = outs @ ds'
      \<and> synced r' rest ds'
      \<and> length rest \<le> length stream - length (filter (\<lambda>n. n \<noteq> 0) ns)"
proof (induction ns arbitrary: r stream ds)
  case Nil
  then show ?case by simp
next
  case (Cons n ns)
  let ?k = "min n (wanted r)"
  have "synced r (take ?k stream @ drop ?k stream) ds" using Cons.prems(1) by simp
  moreover have "length (take ?k stream) \<le> wanted r" by simp
  ultimately obtain r1 out where r1: "recv r (take ?k stream) = Some (r1, out)"
    "case out of None \<Rightarrow> synced r1 (drop ?k stream) ds
      | Some d \<Rightarrow> ds \<noteq> [] \<and> d = hd ds \<and> synced r1 (drop ?k stream) (tl ds)"
    using recv_synced [OF _ Cons.prems(2)] by blast
  define ds1 where "ds1 = (case out of None \<Rightarrow> ds | Some d \<Rightarrow> tl ds)"
  have s1: "synced r1 (drop ?k stream) ds1" using r1(2) by (simp add: ds1_def split: option.splits)
  have dsq: "ds = (case out of None \<Rightarrow> [] | Some d \<Rightarrow> [d]) @ ds1"
    using r1(2) by (simp add: ds1_def split: option.splits)
  have "\<forall>d \<in> set ds1. frame_ok d" using Cons.prems(2) dsq by (metis in_set_conv_decomp append_assoc append_Cons)
  from Cons.IH [OF s1 this] obtain r' rest outs ds' where ih:
    "feed ns r1 (drop ?k stream) = Some (r', rest, outs)" "ds1 = outs @ ds'" "synced r' rest ds'"
    "length rest \<le> length (drop ?k stream) - length (filter (\<lambda>n. n \<noteq> 0) ns)"
    by blast
  have "0 < wanted r" using Cons.prems(1) by (auto simp: synced_def wanted_def split: if_splits)
  then have "length rest \<le> length stream - length (filter (\<lambda>n. n \<noteq> 0) (n # ns))"
    using ih(4) by (cases "n = 0") auto
  moreover have "feed (n # ns) r stream = Some (r', rest, (case out of None \<Rightarrow> outs | Some d \<Rightarrow> d # outs))"
    using r1(1) ih(1) by (simp add: Let_def)
  moreover have "ds = (case out of None \<Rightarrow> outs | Some d \<Rightarrow> d # outs) @ ds'"
    using dsq ih(2) by (cases out) simp_all
  ultimately show ?case using ih(3) by blast
qed

lemma synced_end: "synced r [] ds \<Longrightarrow> \<forall>d \<in> set ds. frame_ok d \<Longrightarrow> ds = []"
proof (rule ccontr)
  assume s: "synced r [] ds" and ok: "\<forall>d \<in> set ds. frame_ok d" and "ds \<noteq> []"
  then obtain d ds' where ds: "ds = d # ds'" by (cases ds) auto
  have "8 \<le> length d" using ok ds by (simp add: frame_ok_def)
  show False
  proof (cases "dataSize r = 0")
    case True
    then have "length (take (dataReceived r) (buffer r)) = length (concat (map frame ds))"
      and "dataReceived r < 8"
      using s by (simp_all add: synced_def)
    then show False using ds by (simp add: frame_def)
  next
    case False
    then have "length (take (dataReceived r) (buffer r)) = length (d @ concat (map frame ds'))"
      and "dataReceived r < length d"
      using s ds by (simp_all add: synced_def)
    then show False by simp
  qed
qed

text \<open>C9: However the stream between two peers is cut into pieces, the receiving thread hands on exactly
  the messages that were sent, in order and byte for byte, and never writes past its buffer: it
  needs one non-empty receive per byte at most, and any prefix of the schedule hands on a prefix of
  the messages.\<close>

theorem stream_delivers_the_messages:
  assumes "\<forall>d \<in> set ds. frame_ok d"
  shows "\<exists>r rest outs ds'. feed ns new_receiver (concat (map frame ds)) = Some (r, rest, outs)
    \<and> ds = outs @ ds'
    \<and> (length (concat (map frame ds)) \<le> length (filter (\<lambda>n. n \<noteq> 0) ns) \<longrightarrow> rest = [] \<and> outs = ds)"
proof -
  have "synced new_receiver (concat (map frame ds)) ds"
    by (simp add: synced_def new_receiver_def)
  from feed_synced [OF this assms] obtain r rest outs ds' where f:
    "feed ns new_receiver (concat (map frame ds)) = Some (r, rest, outs)" "ds = outs @ ds'"
    "synced r rest ds'"
    "length rest \<le> length (concat (map frame ds)) - length (filter (\<lambda>n. n \<noteq> 0) ns)"
    by blast
  have "rest = [] \<and> outs = ds"
    if "length (concat (map frame ds)) \<le> length (filter (\<lambda>n. n \<noteq> 0) ns)"
  proof -
    have "rest = []" using f(4) that by simp
    moreover have "ds' = []"
      by (rule synced_end [of r]) (use f(2,3) assms \<open>rest = []\<close> in auto)
    ultimately show ?thesis using f(2) by simp
  qed
  with f(1,2) show ?thesis by blast
qed

theorem stream_delivers_the_messages_witness:
  "\<exists>r. feed (replicate 41 3) new_receiver (concat (map frame [[1,2,3,4,5,6,7,8], [9,8,7,6,5,4,3,2,1]]))
    = Some (r, [], [[1,2,3,4,5,6,7,8], [9,8,7,6,5,4,3,2,1]])"
proof -
  let ?ds = "[[1,2,3,4,5,6,7,8], [9,8,7,6,5,4,3,2,1]] :: byte list list"
  have ok: "\<forall>d \<in> set ?ds. frame_ok d" by (simp add: frame_ok_def)
  have l: "length (concat (map frame ?ds)) \<le> length (filter (\<lambda>n. n \<noteq> 0) (replicate 41 (3 :: nat)))"
    by (simp add: frame_def)
  show ?thesis
    using stream_delivers_the_messages [OF ok, of "replicate 41 3"] l by blast
qed

text \<open>A message shorter than 8 bytes breaks the receiver: the buffer is shrunk to it, and the header
  of the next message is written past its end.\<close>

lemma short_message_overflows:
  assumes "length d < 8" and "d \<noteq> []" and "8 \<le> length next"
  shows "feed [8, length d, 8] new_receiver (frame d @ next) = None"
proof -
  let ?h = "le_put 8 (of_nat (length d) :: 64 word)"
  have sz: "unat (le_get ?h :: 64 word) = length d"
    using assms(1) by (simp add: le_get_put_full unat_of_nat)
  let ?r1 = "\<lparr>buffer = resize (length d) (?h @ replicate 22 0), dataSize = length d, dataReceived = 0\<rparr>"
  let ?r2 = "\<lparr>buffer = d, dataSize = 0, dataReceived = 0\<rparr>"
  have b: "length (resize (length d) (?h @ replicate 22 0)) = length d" by simp
  have "recv new_receiver ?h = Some (?r1, None)"
    by (simp add: recv_def new_receiver_def write_at_def Let_def sz)
  moreover have "recv ?r1 d = Some (?r2, Some d)"
    using assms(2) b by (simp add: recv_def write_at_def Let_def move_front_def)
  moreover have "recv ?r2 (take 8 next) = None"
    using assms(1,3) by (simp add: recv_def write_at_def)
  moreover have "min 8 (wanted new_receiver) = 8" "min (length d) (wanted ?r1) = length d"
    "min 8 (wanted ?r2) = 8"
    using b assms(2) by (simp_all add: wanted_def new_receiver_def)
  moreover have "take 8 (frame d @ next) = ?h" "drop 8 (frame d @ next) = d @ next"
    by (simp_all add: frame_def)
  ultimately show ?thesis by (simp add: Let_def)
qed


section \<open>Moving a peer\<close>

text \<open>
  \<open>Peer::operator=\<close> starts a new listening thread on the socket it took over: what the old thread
  had counted of an incomplete message is gone, and the buffer is the one of the target.
\<close>

definition restarted :: "receiver \<Rightarrow> receiver" where
  "restarted target = target\<lparr>dataSize := 0, dataReceived := 0\<rparr>"

text \<open>When a peer is moved in the middle of a message, the rest of the message is taken for the next
  frame: its first 8 bytes become the size of what is received next.\<close>

lemma moving_a_peer_breaks_the_stream:
  assumes "8 \<le> length (buffer target)" and "8 \<le> length rest"
  shows "\<exists>r. feed [8] (restarted target) rest = Some (r, drop 8 rest, [])
    \<and> dataSize r = unat (le_get (take 8 rest) :: 64 word) \<and> dataReceived r = 0"
proof -
  have "write_at 0 (take 8 rest) (buffer target) = Some (take 8 rest @ drop 8 (buffer target))"
    using assms write_at_Some [of 0 "take 8 rest" "buffer target"] by simp
  then show ?thesis
    using assms by (simp add: wanted_def restarted_def recv_def Let_def)
qed


end
