(* ===== verification/Validation.thy ===== *)
theory Validation
  imports Network
begin

text \<open>
  What happens to an intact message on arrival: which messages the hash check of
  \<open>validateMessageHash\<close> accepts, with which priority they are queued, and what a failed check sends.
\<close>

section \<open>Types and classes\<close>

text \<open>The type tag of a message agrees with the class of the object.\<close>

primrec class_types :: "any_message \<Rightarrow> msg_type set" where
  "class_types (MBase _) = {initialSyncRequest, disconnect, linkLost}"
| "class_types (MPayload _) = {payload_t}"
| "class_types (MResend _) = {resendRequest}"
| "class_types (MFile _) = {lock, unlock, deleteFile}"
| "class_types (MContent _) = {contentChange}"
| "class_types (MSync _) = {initialSync}"
| "class_types (MConnect _) = {connect}"

definition well_typed :: "any_message \<Rightarrow> bool" where
  "well_typed m \<longleftrightarrow> (\<exists>t \<in> class_types m. msg_kind m = Some t)"

text \<open>The types \<open>deserializeMessage\<close> accepts, with the hash offset and the priority it uses.\<close>

definition wire_offset :: "any_message \<Rightarrow> 8 word" where
  "wire_offset m = (if hash_timestamp m = None then 0 else 1)"

definition wire_priority :: "msg_type \<Rightarrow> size_t option" where
  "wire_priority t =
     (case t of
        payload_t \<Rightarrow> Some payloadPriority
      | resendRequest \<Rightarrow> Some resendPriority
      | lock \<Rightarrow> Some lockPriority
      | unlock \<Rightarrow> Some lockPriority
      | initialSync \<Rightarrow> Some lockPriority
      | deleteFile \<Rightarrow> Some filePriority
      | contentChange \<Rightarrow> Some filePriority
      | connect \<Rightarrow> Some connectPriority
      | disconnect \<Rightarrow> Some disconnectPriority
      | _ \<Rightarrow> None)"

lemma type_of_code_code [simp]: "type_of_code (type_code t) = Some t"
  by (cases t) (simp_all add: type_of_code_def all_types_def)

lemma type_of_code_Some: "type_of_code c = Some t \<longleftrightarrow> c = type_code t"
proof
  assume "type_of_code c = Some t"
  then show "c = type_code t" by (auto simp: type_of_code_def find_Some_iff)
qed simp

lemma msg_kind_Some: "msg_kind m = Some t \<longleftrightarrow> mtype (header m) = type_code t"
  by (simp add: msg_kind_def type_of_code_Some)

lemma header_received:
  "header (received m) = (header m)\<lparr>senderNode := ipv6Unspecified\<rparr>"
  by (cases m) (simp_all add: Message.defs)

lemma mtype_header_simps:
  "mtype (Message.truncate m) = mtype m"
  "messageHash (Message.truncate m) = messageHash m"
  by (simp_all add: Message.defs)

section \<open>Hashes of received messages\<close>

lemma hash_str_append: "hash_str (xs @ ys) = hash_str xs + hash_str ys"
proof -
  have acc: "foldl (\<lambda>h c. h + scast (byte_of_char c)) a zs
      = (a :: size_t) + foldl (\<lambda>h c. h + scast (byte_of_char c)) 0 zs" for a zs
  proof (induction zs arbitrary: a)
    case Nil
    then show ?case by simp
  next
    case (Cons z zs)
    show ?case
      using Cons [of "a + scast (byte_of_char z)"] Cons [of "scast (byte_of_char z)"] by simp
  qed
  show ?thesis using acc [of "foldl (\<lambda>h c. h + scast (byte_of_char c)) 0 xs" ys]
    by (simp add: hash_str_def)
qed

text \<open>The paths of a message are spelled in normal form.\<close>

primrec paths_normal :: "any_message \<Rightarrow> bool" where
  "paths_normal (MBase m) = True"
| "paths_normal (MPayload m) = True"
| "paths_normal (MResend m) = True"
| "paths_normal (MFile m) = (lexically_normal (targetFile m) = targetFile m)"
| "paths_normal (MContent m) = (lexically_normal (targetFile m) = targetFile m)"
| "paths_normal (MSync m) = (lexically_normal (targetFile m) = targetFile m)"
| "paths_normal (MConnect m) = (map lexically_normal (managedPaths m) = managedPaths m)"

lemma msg_hash_received: "paths_normal m \<Longrightarrow> msg_hash L t (received m) = msg_hash L t m"
  by (cases m) (simp_all add: msg_hash_def hashString_Message_def hashString_Payload_def
      hashString_Resend_def hashString_File_def hashString_Content_def hashString_Sync_def
      hashString_Connect_def)

text \<open>
  The hash depends on the time stamp only through the text of the date, and additively.
\<close>

lemma msg_hash_no_time: "hash_timestamp m = None \<Longrightarrow> msg_hash L t m = msg_hash L t' m"
  by (cases m) (simp_all add: msg_hash_def)

lemma msg_hash_time:
  "hash_timestamp m = Some ts \<Longrightarrow>
    msg_hash L t m - msg_hash L t' m = hash_str (ctime L t) - hash_str (ctime L t')"
  by (cases m) (simp_all add: msg_hash_def hashString_File_def hashString_Content_def
      hashString_Sync_def hash_str_append)

lemma hash_timestamp_received:
  "hash_timestamp (received m) = map_option whole_seconds (hash_timestamp m)"
  by (cases m) simp_all

section \<open>Reading a message off the wire\<close>

context lib_laws
begin

lemma save_any_Cons: "\<exists>r. save_any L m = mtype (header m) # r"
  by (cases m) (auto simp: save_Message_def save_Payload_def save_Resend_def save_File_def
      save_Content_def save_Sync_def save_Connect_def raw_u8 mtype_header_simps)


lemma deserialize_saved:
  assumes "fits m" and "well_typed m" and "msg_kind m = Some t" and "wire_priority t = Some p"
  shows "deserializeMessage L sendf (save_any L m)
    = validate_and_enqueue L sendf (received m) (wire_offset m) p"
proof -
  obtain r where r: "save_any L m = mtype (header m) # r" using save_any_Cons by blast
  have c: "type_of_code (mtype (header m)) = Some t" using assms(3) by (simp add: msg_kind_def)
  have cls: "t \<in> class_types m" using assms(2,3) by (auto simp: well_typed_def)
  have ld: "load_same L m (save_any L m) = Some (received m, [])"
    using load_save_any [OF assms(1), of "[]"] by simp
  have d: "deserializeMessage L sendf (save_any L m)
    = (case t of
           payload_t \<Rightarrow> bnd (archive_load (load_Payload L) (save_any L m))
             (\<lambda>m. validate_and_enqueue L sendf (MPayload m) 0 payloadPriority)
         | resendRequest \<Rightarrow> bnd (archive_load (load_Resend L) (save_any L m))
             (\<lambda>m. validate_and_enqueue L sendf (MResend m) 0 resendPriority)
         | lock \<Rightarrow> bnd (archive_load (load_File L) (save_any L m))
             (\<lambda>m. validate_and_enqueue L sendf (MFile m) 1 lockPriority)
         | unlock \<Rightarrow> bnd (archive_load (load_File L) (save_any L m))
             (\<lambda>m. validate_and_enqueue L sendf (MFile m) 1 lockPriority)
         | deleteFile \<Rightarrow> bnd (archive_load (load_File L) (save_any L m))
             (\<lambda>m. validate_and_enqueue L sendf (MFile m) 1 filePriority)
         | contentChange \<Rightarrow> bnd (archive_load (load_Content L) (save_any L m))
             (\<lambda>m. validate_and_enqueue L sendf (MContent m) 1 filePriority)
         | initialSync \<Rightarrow> bnd (archive_load (load_Sync L) (save_any L m))
             (\<lambda>m. validate_and_enqueue L sendf (MSync m) 1 lockPriority)
         | connect \<Rightarrow> bnd (archive_load (load_Connect L) (save_any L m))
             (\<lambda>m. validate_and_enqueue L sendf (MConnect m) 0 connectPriority)
         | disconnect \<Rightarrow> bnd (archive_load (load_Message L) (save_any L m))
             (\<lambda>m. validate_and_enqueue L sendf (MBase m) 0 disconnectPriority)
         | _ \<Rightarrow> throw (RuntimeError ''Unrecognized message type''))"
    unfolding r deserializeMessage_def by (simp add: c)
  show ?thesis
    unfolding d using ld cls assms(4)
    by (cases m) (auto simp: archive_load_def wire_offset_def wire_priority_def
        split: option.splits)
qed

end

section \<open>The hash check on arrival\<close>

lemma resend_request_received: "resend_request (received m) = resend_request m"
  by (simp add: resend_request_def header_received)

lemma validate_exec:
  "validateMessageHash L sendf m off w =
     (let (t, w') = (case hash_timestamp m of
           None \<Rightarrow> (0, w)
         | Some ts \<Rightarrow> (to_time_t ts (clock w (ticks w)) (clock w (Suc (ticks w))),
                        w\<lparr>ticks := Suc (Suc (ticks w))\<rparr>))
      in if messageHash (header m) \<noteq> msg_hash L t m + ucast off
         then bnd (sendf (resend_request m) (senderNode (header m))) (\<lambda>_. ret False) w'
         else (Inr True, w'))"
  by (simp add: validateMessageHash_def draw_time_def exec_simps split: option.split)

text \<open>The time the receiver computes for the message, and whether its hash check accepts the message.\<close>

definition arrival_time :: "any_message \<Rightarrow> world \<Rightarrow> int" where
  "arrival_time m w =
     (case hash_timestamp m of
        None \<Rightarrow> 0
      | Some ts \<Rightarrow> to_time_t (whole_seconds ts) (clock w (ticks w)) (clock w (Suc (ticks w))))"

definition accepted :: "lib \<Rightarrow> any_message \<Rightarrow> world \<Rightarrow> bool" where
  "accepted L m w \<longleftrightarrow> messageHash (header m) = msg_hash L (arrival_time m w) m + ucast (wire_offset m)"

lemma accepted_iff_time:
  assumes "hash_timestamp m = Some ts" and "messageHash (header m) = msg_hash L t m"
  shows "accepted L m w \<longleftrightarrow> hash_str (ctime L t) = hash_str (ctime L (arrival_time m w)) + 1"
  using assms(2) msg_hash_time [OF assms(1), of L t "arrival_time m w"]
  by (simp add: accepted_def wire_offset_def assms(1)) (metis add_diff_cancel_left' diff_add_cancel)

definition readings :: "any_message \<Rightarrow> nat" where
  "readings m = (if hash_timestamp m = None then 0 else 2)"

lemma queued_if_accepted:
  assumes "lib_laws L" and "fits m" and "well_typed m" and "paths_normal m"
    and "msg_kind m = Some t" and "wire_priority t = Some p" and "accepted L m w"
  shows "deserializeMessage L sendf (save_any L m) w
    = (Inr (), w\<lparr>ticks := ticks w + readings m,
        messageQueue := pq_emplace p (received m) (messageQueue w)\<rparr>)"
  using assms(7) lib_laws.deserialize_saved [OF assms(1,2,3,5,6)]
  by (cases "hash_timestamp m") (simp_all add: validate_and_enqueue_def validate_exec exec_simps
      accepted_def arrival_time_def readings_def header_received hash_timestamp_received
      msg_hash_received [OF assms(4)])

lemma queued_if_intact:
  assumes "lib_laws L" and "fits m" and "well_typed m" and "paths_normal m"
    and "msg_kind m = Some t" and "wire_priority t = Some p"
    and "hash_timestamp m = None" and "messageHash (header m) = msg_hash L tm m"
  shows "deserializeMessage L sendf (save_any L m) w
    = (Inr (), w\<lparr>messageQueue := pq_emplace p (received m) (messageQueue w)\<rparr>)"
proof -
  have "accepted L m w"
    using assms(7,8) msg_hash_no_time [OF assms(7)]
    by (simp add: accepted_def arrival_time_def wire_offset_def)
  from queued_if_accepted [OF assms(1-6) this] show ?thesis by (simp add: readings_def assms(7))
qed

definition sample_payload :: any_message where
  "sample_payload = (let m = MPayload \<lparr>mtype = type_code payload_t, receiverNode = ipv6Unspecified,
       senderNode = IPv6 7, originatorNode = IPv6 7, messageHash = 0, payload = ''hello''\<rparr>
     in set_hash (msg_hash raw_lib 0 m) m)"


text \<open>C34: An intact file message passes the hash check on arrival exactly when the text of the date
  the receiver computes for it hashes to one less than the text the sender computed; otherwise it
  is dropped and a resend request goes out.\<close>

theorem file_message_check:
  assumes "lib_laws L" and "fits m" and "well_typed m" and "paths_normal m"
    and "msg_kind m = Some k" and "wire_priority k = Some p"
    and "hash_timestamp m = Some ts" and "messageHash (header m) = msg_hash L t m"
    and "t' = to_time_t (whole_seconds ts) (clock w (ticks w)) (clock w (Suc (ticks w)))"
    and "w' = w\<lparr>ticks := Suc (Suc (ticks w))\<rparr>"
  shows "deserializeMessage L sendf (save_any L m) w
    = (if hash_str (ctime L t) = hash_str (ctime L t') + 1
       then (Inr (), w'\<lparr>messageQueue := pq_emplace p (received m) (messageQueue w)\<rparr>)
       else sendf (resend_request m) ipv6Unspecified w')"
proof -
  have "hash_timestamp (received m) = Some (whole_seconds ts)"
    using assms(7) by (simp add: hash_timestamp_received)
  moreover have "wire_offset m = 1" using assms(7) by (simp add: wire_offset_def)
  moreover have "messageHash (header (received m)) = msg_hash L t' (received m) + 1
      \<longleftrightarrow> hash_str (ctime L t) = hash_str (ctime L t') + 1"
    using assms(4,8) msg_hash_time [OF assms(7), of L t t']
    by (simp add: header_received msg_hash_received) (metis add_diff_cancel_left' diff_add_cancel)
  ultimately show ?thesis
    using lib_laws.deserialize_saved [OF assms(1,2,3,5,6)] assms(9,10)
    by (auto simp: validate_and_enqueue_def validate_exec exec_simps resend_request_received
        header_received split: prod.splits sum.splits)
qed

text \<open>The receiver's second, from the direction in which the two clock readings differ.\<close>

lemma whole_seconds_to_time_t:
  assumes "0 \<le> ts" and "0 \<le> b - a" and "b - a < 1000000000"
  shows "to_time_t (whole_seconds ts) a b = sys_to_time_t ts"
proof -
  let ?s = "ts div 1000000000"
  have s: "sys_to_time_t ts = ?s" using assms(1) by (simp add: sys_to_time_t_def tdiv_nonneg)
  have "0 \<le> ?s" using assms(1) by (simp add: pos_imp_zdiv_nonneg_iff)
  then have "0 \<le> ?s * 1000000000 + (b - a)" using assms(2) by simp
  moreover have "(?s * 1000000000 + (b - a)) div 1000000000 = ?s" using assms by simp
  ultimately show ?thesis
    by (simp add: to_time_t_def whole_seconds_def sys_from_time_t_def convertTimepoint_def
        sys_to_time_t_def tdiv_nonneg s [unfolded sys_to_time_t_def] algebra_simps)
qed

text \<open>When the two clock readings of the receiver's check do not run backwards, the check
  rejects every intact file message: the expected hash is one more than the hash of the same date,
  so a lock, unlock, deletion or change is never queued and a resend request is broadcast instead.\<close>

lemma intact_file_message_is_rejected:
  assumes "lib_laws L" and "fits m" and "well_typed m" and "paths_normal m"
    and "msg_kind m = Some k" and "wire_priority k = Some p"
    and "hash_timestamp m = Some ts" and "0 \<le> ts"
    and "messageHash (header m) = msg_hash L (sys_to_time_t ts) m"
    and "clock w (ticks w) \<le> clock w (Suc (ticks w))"
    and "clock w (Suc (ticks w)) < clock w (ticks w) + 1000000000"
  shows "deserializeMessage L sendf (save_any L m) w
    = sendf (resend_request m) ipv6Unspecified (w\<lparr>ticks := Suc (Suc (ticks w))\<rparr>)"
proof -
  have "to_time_t (whole_seconds ts) (clock w (ticks w)) (clock w (Suc (ticks w)))
      = sys_to_time_t ts"
    using assms(8,10,11) by (intro whole_seconds_to_time_t) auto
  then show ?thesis
    using file_message_check [OF assms(1-7,9) refl refl, where sendf = sendf and w = w] by simp
qed

definition sample_lock :: any_message where
  "sample_lock = (let m = MFile \<lparr>mtype = type_code lock, receiverNode = ipv6Unspecified,
       senderNode = IPv6 7, originatorNode = IPv6 7, messageHash = 0,
       targetFile = [''d'', ''f''], timestamp = 5500000000\<rparr>
     in set_hash (msg_hash raw_lib 5 m) m)"

lemma sample_lock_facts:
  "msg_kind sample_lock = Some lock" "fits sample_lock" "well_typed sample_lock"
  "paths_normal sample_lock" "hash_timestamp sample_lock = Some 5500000000"
  "messageHash (header sample_lock) = msg_hash raw_lib 5 sample_lock"
  "wire_priority lock = Some lockPriority"
proof -
  note d = sample_lock_def Let_def set_hash_def on_base_def Message.defs FileMessage.defs
  show k: "msg_kind sample_lock = Some lock" by (simp add: msg_kind_Some d)
  have n: "lexically_normal [''d'', ''f''] = [''d'', ''f'']" by (simp add: lexically_normal_def)
  show "fits sample_lock"
    by (simp add: d base_fits_def isValid_def path_fits_def time_fits_def n name_ok_def
        sys_to_time_t_def tdiv_def)
  show "well_typed sample_lock" using k by (simp add: well_typed_def d)
  show "paths_normal sample_lock" by (simp add: d n)
  show "hash_timestamp sample_lock = Some 5500000000" by (simp add: d)
  show "messageHash (header sample_lock) = msg_hash raw_lib 5 sample_lock"
    by (simp add: d msg_hash_def hashString_File_def hashString_Message_def)
  show "wire_priority lock = Some lockPriority" by (simp add: wire_priority_def)
qed

theorem file_message_check_witness:
  "let w = sample_world\<lparr>clock := (\<lambda>n. if n = 0 then 1 else 0)\<rparr>
   in \<forall>sendf. deserializeMessage raw_lib sendf (save_any raw_lib sample_lock) w
     = (Inr (), w\<lparr>ticks := 2, messageQueue := [(lockPriority, received sample_lock)]\<rparr>)"
proof -
  let ?w = "sample_world\<lparr>clock := (\<lambda>n. if n = 0 then 1 else 0)\<rparr>"
  have t: "to_time_t (whole_seconds 5500000000) (clock ?w (ticks ?w)) (clock ?w (Suc (ticks ?w)))
      = 4"
    by (simp add: to_time_t_def whole_seconds_def sys_from_time_t_def sys_to_time_t_def tdiv_def
        convertTimepoint_def)
  have h: "hash_str (ctime raw_lib 5) = hash_str (ctime raw_lib 4) + 1"
    by (simp add: raw_lib_def) code_simp
  show ?thesis
    using file_message_check [OF raw.lib_laws_axioms sample_lock_facts(2,3,4,1,7,5,6) refl refl,
        where w = ?w] t h
    by (simp add: Let_def pq_emplace_def)
qed


section \<open>Data that is refused\<close>

text \<open>Data whose first byte is not one of the nine message types a peer may send is refused with
  an exception before anything changes; sync requests and lost links, which the resend handler can
  send, are among them.\<close>

lemma unknown_types_are_refused:
  assumes "\<forall>t. type_of_code c = Some t \<longrightarrow> wire_priority t = None"
  shows "deserializeMessage L sendf (c # rest) w
    = (Inl (RuntimeError ''Unrecognized message type''), w)"
proof (cases "type_of_code c")
  case None
  then show ?thesis by (simp add: deserializeMessage_def exec_simps)
next
  case (Some t)
  with assms have "wire_priority t = None" by blast
  with Some show ?thesis
    by (cases t) (simp_all add: deserializeMessage_def exec_simps wire_priority_def)
qed


end
