(* ===== verification/Sending.thy ===== *)
theory Sending
  imports Validation
begin

text \<open>
  \<open>send\<close> as a whole: how deep sends nest, that a send returns, what it leaves in the outbox, the
  queue and the message cache.
\<close>

section \<open>Changing the base class of a message\<close>

lemma header_update_simps [simp]:
  "header (header_update f m) = f (header m)"
  "hash_timestamp (header_update f m) = hash_timestamp m"
  "class_types (header_update f m) = class_types m"
  "paths_normal (header_update f m) = paths_normal m"
  by (cases m; simp add: on_base_def Message.defs Let_def)+

lemma header_set_hash [simp]: "header (set_hash h m) = (header m)\<lparr>messageHash := h\<rparr>"
  by (simp add: set_hash_def)

lemma set_hash_simps [simp]:
  "hash_timestamp (set_hash h m) = hash_timestamp m"
  "class_types (set_hash h m) = class_types m"
  "paths_normal (set_hash h m) = paths_normal m"
  by (simp_all add: set_hash_def)

lemma fits_set_hash [simp]: "fits (set_hash h m) = fits m"
  by (cases m) (simp_all add: set_hash_def on_base_def Let_def Message.defs base_fits_def)

lemma msg_hash_set_hash [simp]: "msg_hash L t (set_hash h m) = msg_hash L t m"
  by (cases m) (simp_all add: set_hash_def on_base_def Let_def Message.defs msg_hash_def
      hashString_Message_def hashString_Payload_def hashString_Resend_def hashString_File_def
      hashString_Content_def hashString_Sync_def hashString_Connect_def)

lemma msg_kind_set_hash [simp]: "msg_kind (set_hash h m) = msg_kind m"
  by (simp add: msg_kind_def)

lemma well_typed_set_hash [simp]: "well_typed (set_hash h m) = well_typed m"
  by (simp add: well_typed_def)

lemma add_routing_simps [simp]:
  "hash_timestamp (add_routing self d m) = hash_timestamp m"
  "class_types (add_routing self d m) = class_types m"
  "paths_normal (add_routing self d m) = paths_normal m"
  "msg_kind (add_routing self d m) = msg_kind m"
  "receiverNode (header (add_routing self d m)) = d"
  "senderNode (header (add_routing self d m)) = self"
  by (simp_all add: add_routing_def msg_kind_def)

lemma well_typed_add_routing [simp]: "well_typed (add_routing self d m) = well_typed m"
  by (simp add: well_typed_def)

section \<open>Resend requests\<close>

lemma resend_request_simps [simp]:
  "hash_timestamp (resend_request m) = None"
  "paths_normal (resend_request m)"
  "msg_kind (resend_request m) = Some resendRequest"
  "well_typed (resend_request m)"
  by (simp_all add: resend_request_def well_typed_def msg_kind_Some Message.defs
      ResendRequestMessage.defs new_Message_def)

lemma fits_resend:
  "isValid self \<Longrightarrow> isValid d \<Longrightarrow> isValid (receiverNode (header m)) \<Longrightarrow>
    fits (add_routing self d (resend_request m))"
  by (simp add: resend_request_def add_routing_def on_base_def Let_def base_fits_def Message.defs
      ResendRequestMessage.defs new_Message_def)

text \<open>What this process keeps of a resend request it sends.\<close>

definition stamped_resend :: "lib \<Rightarrow> ip_address \<Rightarrow> ip_address \<Rightarrow> any_message \<Rightarrow> any_message" where
  "stamped_resend L self d m =
     (let r = add_routing self d (resend_request m) in set_hash (msg_hash L 0 r) r)"

definition after_resend :: "lib \<Rightarrow> any_message \<Rightarrow> ip_address \<Rightarrow> world \<Rightarrow> world" where
  "after_resend L m d w =
     (let r = stamped_resend L (self_ip w) d m; h = hops_of w d ipv6Unspecified;
          w1 = posted (save_any L r) (to_peers h) (asked_for d w);
          w2 = (if to_self h
                then w1\<lparr>messageQueue := pq_emplace resendPriority (received r) (messageQueue w1)\<rparr>
                else w1)
      in w2\<lparr>oldMessages := emplace_back (Some r) (oldMessages w2)\<rparr>)"

lemma posted_simps [simp]:
  "self_ip (posted data ips w) = self_ip w" "messageQueue (posted data ips w) = messageQueue w"
  "oldMessages (posted data ips w) = oldMessages w" "ticks (posted data ips w) = ticks w"
  "clock (posted data ips w) = clock w" "peers (posted data ips w) = peers w"
  "files (posted data ips w) = files w" "cache_ok (posted data ips w) = cache_ok w"
  by (simp_all add: posted_def cache_ok_def)

text \<open>Sending a resend request never nests another send.\<close>

lemma send_resend:
  assumes "lib_laws L" and "cache_ok w" and "isValid (self_ip w)" and "isValid d"
    and "isValid (receiverNode (header m))"
  shows "send L (Suc n) (resend_request m) d True w = (Inr (), after_resend L m d w)"
proof -
  let ?r = "add_routing (self_ip w) d (resend_request m)"
  let ?s = "set_hash (msg_hash L 0 ?r) ?r"
  have q: "deserializeMessage L sendf (save_any L ?s) v
      = (Inr (), v\<lparr>messageQueue := pq_emplace resendPriority (received ?s) (messageQueue v)\<rparr>)"
    for sendf v
    by (rule queued_if_intact [where t = resendRequest and tm = 0])
      (use assms in \<open>simp_all add: fits_resend wire_priority_def\<close>)
  show ?thesis
    using assms(2)
    by (simp add: exec_simps draw_time_def Let_def routeData_exec q remember_exec
        after_resend_def stamped_resend_def cache_ok_def)
qed

section \<open>Two nested sends are enough\<close>

lemma load_ip_valid: "load_ip L bs = Some (ip, r) \<Longrightarrow> isValid ip"
  by (auto simp: load_ip_def isValid_def bind_eq_Some_conv split: if_splits)

definition as_loaded :: "any_message \<Rightarrow> bool" where
  "as_loaded m \<longleftrightarrow> isValid (receiverNode (header m)) \<and> senderNode (header m) = ipv6Unspecified"

lemma load_as_loaded:
  "load_Message L bs = Some (m0, r0) \<Longrightarrow> as_loaded (MBase m0)"
  "load_Payload L bs = Some (m1, r1) \<Longrightarrow> as_loaded (MPayload m1)"
  "load_Resend L bs = Some (m2, r2) \<Longrightarrow> as_loaded (MResend m2)"
  "load_File L bs = Some (m3, r3) \<Longrightarrow> as_loaded (MFile m3)"
  "load_Content L bs = Some (m4, r4) \<Longrightarrow> as_loaded (MContent m4)"
  "load_Sync L bs = Some (m5, r5) \<Longrightarrow> as_loaded (MSync m5)"
  "load_Connect L bs = Some (m6, r6) \<Longrightarrow> as_loaded (MConnect m6)"
  by (auto simp: as_loaded_def load_Message_def load_Payload_def load_Resend_def load_File_def
      load_Content_def load_Sync_def load_Connect_def bind_eq_Some_conv Message.defs
      FileMessage.defs FileContentMessage.defs dest: load_ip_valid)

text \<open>\<open>quick m w\<close>: the program returns normally, or fails for a reason other than its fuel.\<close>

definition agree :: "(world \<Rightarrow> bool) \<Rightarrow> sender \<Rightarrow> sender \<Rightarrow> bool" where
  "agree P s1 s2 \<longleftrightarrow> (\<forall>m w. P w \<and> isValid (receiverNode (header m)) \<longrightarrow>
     s1 (resend_request m) ipv6Unspecified w = s2 (resend_request m) ipv6Unspecified w)"

definition sendable :: "world \<Rightarrow> bool" where
  "sendable w \<longleftrightarrow> cache_ok w \<and> isValid (self_ip w)"

lemma sendable_ticks [simp]: "sendable (w\<lparr>ticks := t\<rparr>) = sendable w"
  by (simp add: sendable_def cache_ok_def)

lemma sendable_posted [simp]:
  "sendable (posted data ips w) = sendable w" "sendable (asked_for d w) = sendable w"
  by (simp_all add: sendable_def)

lemma validate_agree:
  assumes "agree sendable s1 s2" and "as_loaded m" and "sendable w"
  shows "validate_and_enqueue L s1 m off p w = validate_and_enqueue L s2 m off p w"
proof -
  have "sendable v \<Longrightarrow> s1 (resend_request m) ipv6Unspecified v
      = s2 (resend_request m) ipv6Unspecified v" for v
    using assms(1,2) by (auto simp: agree_def as_loaded_def)
  then show ?thesis
    using assms(2,3)
    by (simp add: validate_and_enqueue_def bnd_exec validate_exec as_loaded_def
        split: option.split)
qed

lemma archive_load_agree:
  assumes "\<And>x r. load data = Some (x, r) \<Longrightarrow> f x w = g x w"
  shows "bnd (archive_load load data) f w = bnd (archive_load load data) g w"
  using assms by (auto simp: archive_load_def split: option.split)

lemma deserialize_agree:
  assumes "agree sendable s1 s2" and "sendable w"
  shows "deserializeMessage L s1 data w = deserializeMessage L s2 data w"
  using assms
  by (auto simp: deserializeMessage_def split: list.split option.split msg_type.split
      intro!: archive_load_agree validate_agree dest: load_as_loaded)

lemma agree_sends:
  assumes "lib_laws L"
  shows "agree sendable (\<lambda>m d. send L (Suc n) m d True) (\<lambda>m d. send L (Suc k) m d True)"
  using assms by (simp add: agree_def sendable_def isValid_def send_resend del: send.simps)

lemma send_fuel:
  assumes "lib_laws L" and "sendable w"
  shows "send L (Suc (Suc n)) m d b w = send L 2 m d b w"
proof -
  note ag = deserialize_agree [OF agree_sends [OF assms(1), of n 0]]
  show ?thesis
    using assms(2) ag
    by (simp add: numeral_2_eq_2 exec_simps draw_time_def Let_def routeData_exec del: send.simps(2)
        add: send.simps(2) [of L "Suc n"] send.simps(2) [of L "Suc 0"] split: option.split)
qed

section \<open>What a send leaves behind\<close>

text \<open>The message as it goes out: with its routing information and its hash.\<close>

definition outgoing :: "lib \<Rightarrow> int \<Rightarrow> world \<Rightarrow> any_message \<Rightarrow> ip_address \<Rightarrow> any_message" where
  "outgoing L t w m d =
     (let r = add_routing (self_ip w) d m in set_hash (msg_hash L t r) r)"

lemma after_resend_simps:
  "cache_ok w \<Longrightarrow> cache_ok (after_resend L m d w)"
  "outbox (after_resend L m d w) = outbox w @ map (\<lambda>p. (socketIP p,
     save_any L (stamped_resend L (self_ip w) d m))) (to_peers (hops_of w d ipv6Unspecified))"
  "oldMessages (after_resend L m d w)
     = emplace_back (Some (stamped_resend L (self_ip w) d m)) (oldMessages w)"
  by (simp_all add: after_resend_def Let_def cache_ok_def posted_def)

text \<open>The time the sender computes for the hash of the message.\<close>

definition drawn_time :: "any_message \<Rightarrow> world \<Rightarrow> int" where
  "drawn_time m w = (case hash_timestamp m of None \<Rightarrow> 0
     | Some ts \<Rightarrow> to_time_t ts (clock w (ticks w)) (clock w (Suc (ticks w))))"

lemma draw_time_exec: "draw_time m w = (Inr (drawn_time m w), w\<lparr>ticks := ticks w + readings m\<rparr>)"
  by (simp add: draw_time_def exec_simps readings_def drawn_time_def split: option.split)

lemma drawn_time_routing [simp]: "drawn_time (add_routing self d m) w = drawn_time m w"
  by (simp add: drawn_time_def)

lemma readings_routing [simp]:
  "readings (add_routing self d m) = readings m" "readings (set_hash h m) = readings m"
  "readings (outgoing L t w m d) = readings m"
  by (simp_all add: readings_def outgoing_def Let_def)

text \<open>Whether the process that reads its own message off the wire accepts it: \<open>accepted\<close>, for any paths.\<close>

definition passes_check :: "lib \<Rightarrow> any_message \<Rightarrow> world \<Rightarrow> bool" where
  "passes_check L m w \<longleftrightarrow>
     messageHash (header m) = msg_hash L (arrival_time m w) (received m) + ucast (wire_offset m)"

lemma passes_check_accepted: "paths_normal m \<Longrightarrow> passes_check L m w = accepted L m w"
  by (simp add: passes_check_def accepted_def msg_hash_received)

lemma passes_check_cong:
  "clock v = clock w \<Longrightarrow> ticks v = ticks w \<Longrightarrow> passes_check L m v = passes_check L m w"
  by (simp add: passes_check_def arrival_time_def cong: option.case_cong)

lemma deserialize_exec:
  assumes "lib_laws L" and "fits m" and "well_typed m" and "msg_kind m = Some t" and "wire_priority t = Some p"
  shows "deserializeMessage L sendf (save_any L m) w =
    (if passes_check L m w
     then (Inr (), w\<lparr>ticks := ticks w + readings m, messageQueue := pq_emplace p (received m) (messageQueue w)\<rparr>)
     else sendf (resend_request m) ipv6Unspecified (w\<lparr>ticks := ticks w + readings m\<rparr>))"
proof -
  have "bnd (sendf r d) (\<lambda>_. ret ()) v = sendf r d v" for r d v
    by (simp add: exec_simps split: prod.splits sum.splits)
  then show ?thesis
    using lib_laws.deserialize_saved [OF assms]
    by (cases "hash_timestamp m") (simp_all add: validate_and_enqueue_def validate_exec bnd_assoc exec_simps
        passes_check_def arrival_time_def readings_def header_received hash_timestamp_received
        resend_request_received split: prod.splits sum.splits)
qed

text \<open>The process after a send: the message is posted to the peers that routing selects; when routing
  also selects the process itself, it is queued, or a resend request goes to everyone; and it is
  cached.\<close>

definition sent_by :: "lib \<Rightarrow> any_message \<Rightarrow> ip_address \<Rightarrow> size_t \<Rightarrow> world \<Rightarrow> world" where
  "sent_by L m d p w =
     (let out = outgoing L (drawn_time m w) w m d; h = hops_of w d ipv6Unspecified;
          w1 = posted (save_any L out) (to_peers h) (asked_for d (w\<lparr>ticks := ticks w + readings m\<rparr>));
          w2 = (if \<not> to_self h then w1
                else if passes_check L out w1
                then w1\<lparr>ticks := ticks w1 + readings m, messageQueue := pq_emplace p (received out) (messageQueue w1)\<rparr>
                else after_resend L out ipv6Unspecified (w1\<lparr>ticks := ticks w1 + readings m\<rparr>))
      in w2\<lparr>oldMessages := emplace_back (Some out) (oldMessages w2)\<rparr>)"

lemma sendMessage_exec:
  assumes L: "lib_laws L" and c: "cache_ok w" and v: "isValid (self_ip w)"
    and m: "fits (add_routing (self_ip w) d m)" "well_typed m" "msg_kind m = Some k" "wire_priority k = Some p"
  shows "sendMessage L m d w = (Inr (), sent_by L m d p w)"
proof -
  let ?out = "outgoing L (drawn_time m w) w m d" and ?h = "hops_of w d ipv6Unspecified"
  define w1 where "w1 = w\<lparr>ticks := ticks w + readings m\<rparr>"
  let ?w2 = "posted (save_any L ?out) (to_peers ?h) (asked_for d w1)"
  have w1: "self_ip w1 = self_ip w" "cache_ok w1" "hops_of w1 = hops_of w"
    using c by (simp_all add: w1_def cache_ok_def hops_of_def fun_eq_iff)
  have dt: "draw_time (add_routing (self_ip w) d m) w = (Inr (drawn_time m w), w1)"
    by (simp add: draw_time_exec w1_def)
  have out: "fits ?out" "well_typed ?out" "msg_kind ?out = Some k"
    using m by (simp_all add: outgoing_def Let_def)
  have rv: "isValid (receiverNode (header ?out))"
    using out(1) by (cases "?out") (simp_all add: base_fits_def Message.defs)
  have c2: "cache_ok (u\<lparr>ticks := i\<rparr>) = cache_ok u" "cache_ok (u\<lparr>messageQueue := q\<rparr>) = cache_ok u" for u i q
    by (simp_all add: cache_ok_def)
  let ?w3 = "?w2\<lparr>ticks := ticks ?w2 + readings m\<rparr>"
  have re: "send L (Suc 0) (resend_request ?out) ipv6Unspecified True ?w3
      = (Inr (), after_resend L ?out ipv6Unspecified ?w3)"
    using L rv w1 v by (intro send_resend) (simp_all add: c2 isValid_def)
  let ?x = "if \<not> to_self ?h then ?w2 else if passes_check L ?out ?w2
      then ?w2\<lparr>ticks := ticks ?w2 + readings m, messageQueue := pq_emplace p (received ?out) (messageQueue ?w2)\<rparr>
      else after_resend L ?out ipv6Unspecified ?w3"
  have rt: "routeData L (\<lambda>m d. send L (Suc 0) m d True) (save_any L ?out) d ipv6Unspecified w1 = (Inr (), ?x)"
    using re deserialize_exec [OF L out m(4)] by (simp add: routeData_exec w1 del: send.simps)
  have "cache_ok ?x" using w1 by (auto simp: after_resend_simps c2)
  then have "remember ?out ?x = (Inr (), ?x\<lparr>oldMessages := emplace_back (Some ?out) (oldMessages ?x)\<rparr>)"
    by (rule remember_exec)
  then show ?thesis
    using rt by (simp add: sendMessage_def numeral_2_eq_2 bnd_exec gets_exec Let_def dt
        outgoing_def [symmetric, unfolded Let_def] send.simps(2) [of L "Suc 0"] del: send.simps)
      (simp add: sent_by_def Let_def w1_def)
qed

text \<open>Where data is posted depends on the addresses of the peers alone.\<close>

lemma sockets_filter:
  "map remoteIP qs = map remoteIP ps \<Longrightarrow> map socketIP qs = map socketIP ps \<Longrightarrow>
    map (\<lambda>p. f (socketIP p)) (filter (\<lambda>p. P (remoteIP p)) qs)
      = map (\<lambda>p. f (socketIP p)) (filter (\<lambda>p. P (remoteIP p)) ps)"
proof (induction ps arbitrary: qs)
  case (Cons p ps)
  then obtain q qs' where qs: "qs = q # qs'" by (cases qs) auto
  have "map (\<lambda>p. f (socketIP p)) (filter (\<lambda>p. P (remoteIP p)) qs')
      = map (\<lambda>p. f (socketIP p)) (filter (\<lambda>p. P (remoteIP p)) ps)"
    by (rule Cons.IH) (use Cons.prems in \<open>simp_all add: qs\<close>)
  moreover have "remoteIP q = remoteIP p" "socketIP q = socketIP p"
    using Cons.prems by (simp_all add: qs)
  ultimately show ?case by (simp add: qs)
qed simp

lemma hops_everyone:
  assumes "map remoteIP (peers v) = map remoteIP (peers w)" and "map socketIP (peers v) = map socketIP (peers w)"
    and "self_ip v = self_ip w"
  shows "map (\<lambda>p. (socketIP p, b)) (to_peers (hops_of v ipv6Unspecified s))
      = map (\<lambda>p. (socketIP p, b)) (to_peers (hops_of w ipv6Unspecified s))"
    and "to_self (hops_of v ipv6Unspecified s) = to_self (hops_of w ipv6Unspecified s)"
  using sockets_filter [OF assms(1,2), of "\<lambda>y. (y, b)" "\<lambda>y. y \<noteq> s"] assms(3)
  by (simp_all add: hops_of_def route_cases forward2all_def is_broadcast_def)

lemma sent_by_simps:
  fixes L m d p w
  defines "out \<equiv> outgoing L (drawn_time m w) w m d" and "h \<equiv> hops_of w d ipv6Unspecified"
    and "everyone \<equiv> hops_of w ipv6Unspecified ipv6Unspecified"
    and "ok \<equiv> passes_check L (outgoing L (drawn_time m w) w m d) (w\<lparr>ticks := ticks w + readings m\<rparr>)"
  assumes "cache_ok w"
  shows "cache_ok (sent_by L m d p w)"
    "last (contents (oldMessages (sent_by L m d p w))) = Some out"
    "outbox (sent_by L m d p w) = outbox w @ map (\<lambda>q. (socketIP q, save_any L out)) (to_peers h)
      @ (if \<not> to_self h \<or> ok then []
         else map (\<lambda>q. (socketIP q, save_any L (stamped_resend L (self_ip w) ipv6Unspecified out)))
           (to_peers everyone))"
    "messageQueue (sent_by L m d p w) =
      (if \<not> to_self h then messageQueue w
       else if ok then pq_emplace p (received out) (messageQueue w)
       else if to_self everyone
       then pq_emplace resendPriority (received (stamped_resend L (self_ip w) ipv6Unspecified out)) (messageQueue w)
       else messageQueue w)"
    "files (sent_by L m d p w) = files w" "self_ip (sent_by L m d p w) = self_ip w"
proof -
  define w1 where "w1 = posted (save_any L out) (to_peers h) (asked_for d (w\<lparr>ticks := ticks w + readings m\<rparr>))"
  define w3 where "w3 = w1\<lparr>ticks := ticks w1 + readings m\<rparr>"
  have w1: "passes_check L out w1 = ok" "messageQueue w1 = messageQueue w" "oldMessages w1 = oldMessages w"
    "files w1 = files w" "self_ip w1 = self_ip w"
    "outbox w1 = outbox w @ map (\<lambda>q. (socketIP q, save_any L out)) (to_peers h)"
    unfolding w1_def ok_def out_def by (auto simp: posted_def intro!: passes_check_cong)
  have c1: "cache_ok w1" using assms(5) w1(3) by (simp add: cache_ok_def)
  have c3: "cache_ok w3" using c1 by (simp add: w3_def cache_ok_def)
  have "map remoteIP (peers w3) = map remoteIP (peers w)" "map socketIP (peers w3) = map socketIP (peers w)"
    "self_ip w3 = self_ip w"
    using w1(5) by (simp_all add: w3_def) (simp_all add: w1_def asked_for_def)
  note ev = hops_everyone [OF this]
  define w2 where "w2 = (if \<not> to_self h then w1 else if ok
      then w1\<lparr>ticks := ticks w1 + readings m, messageQueue := pq_emplace p (received out) (messageQueue w1)\<rparr>
      else after_resend L out ipv6Unspecified w3)"
  have s: "sent_by L m d p w = w2\<lparr>oldMessages := emplace_back (Some out) (oldMessages w2)\<rparr>"
    using w1(1) by (simp add: sent_by_def Let_def w2_def w3_def w1_def out_def h_def)
  have c2: "cache_ok w2"
    using c1 after_resend_simps(1) [OF c3] by (simp add: w2_def) (simp add: cache_ok_def)
  then show "cache_ok (sent_by L m d p w)" unfolding s by (rule cache_ok_remember)
  show "last (contents (oldMessages (sent_by L m d p w))) = Some out"
    using c2 by (simp add: s cache_ok_def emplace_back_contents)
  have a: "outbox w3 = outbox w1" "messageQueue w3 = messageQueue w1" "files w3 = files w1" "self_ip w3 = self_ip w1"
    by (simp_all add: w3_def)
  have f: "files (after_resend L out ipv6Unspecified w3) = files w3" "self_ip (after_resend L out ipv6Unspecified w3) = self_ip w3"
    "messageQueue (after_resend L out ipv6Unspecified w3) = (if to_self (hops_of w3 ipv6Unspecified ipv6Unspecified)
       then pq_emplace resendPriority (received (stamped_resend L (self_ip w3) ipv6Unspecified out)) (messageQueue w3)
       else messageQueue w3)"
    by (simp_all add: after_resend_def Let_def)
  show "outbox (sent_by L m d p w) = outbox w @ map (\<lambda>q. (socketIP q, save_any L out)) (to_peers h)
      @ (if \<not> to_self h \<or> ok then []
         else map (\<lambda>q. (socketIP q, save_any L (stamped_resend L (self_ip w) ipv6Unspecified out)))
           (to_peers everyone))"
    by (simp add: s w2_def after_resend_simps(2) a w1 everyone_def ev(1))
  show "messageQueue (sent_by L m d p w) =
      (if \<not> to_self h then messageQueue w
       else if ok then pq_emplace p (received out) (messageQueue w)
       else if to_self everyone
       then pq_emplace resendPriority (received (stamped_resend L (self_ip w) ipv6Unspecified out)) (messageQueue w)
       else messageQueue w)"
    using ev(2) by (simp add: s w2_def f a w1 everyone_def)
  show "files (sent_by L m d p w) = files w" "self_ip (sent_by L m d p w) = self_ip w"
    by (simp_all add: s w2_def f a w1)
qed

text \<open>C5: Sending a well-formed message always returns, and this is all it puts into the outbox: the
  message, with its routing information and the hash for the time of sending, once for every peer that
  routing selects, in order; and, when routing selects the process itself and its own check refuses the
  message, one resend request for every peer.  The message as sent is the newest entry of the message
  cache, and the process has queued it for itself exactly when routing selects it and the check
  passes (else, if anything, the resend request).\<close>

theorem send_returns:
  fixes L m d p w
  defines "out \<equiv> outgoing L (drawn_time m w) w m d" and "h \<equiv> hops_of w d ipv6Unspecified"
    and "everyone \<equiv> hops_of w ipv6Unspecified ipv6Unspecified"
    and "ok \<equiv> passes_check L (outgoing L (drawn_time m w) w m d) (w\<lparr>ticks := ticks w + readings m\<rparr>)"
  assumes "lib_laws L" and "cache_ok w" and "isValid (self_ip w)"
    and "fits (add_routing (self_ip w) d m)" and "well_typed m"
    and "msg_kind m = Some k" and "wire_priority k = Some p"
  shows "\<exists>w'. sendMessage L m d w = (Inr (), w') \<and> cache_ok w'
    \<and> outbox w' = outbox w @ map (\<lambda>q. (socketIP q, save_any L out)) (to_peers h)
      @ (if \<not> to_self h \<or> ok then []
         else map (\<lambda>q. (socketIP q, save_any L (stamped_resend L (self_ip w) ipv6Unspecified out)))
           (to_peers everyone))
    \<and> last (contents (oldMessages w')) = Some out
    \<and> messageQueue w' =
      (if \<not> to_self h then messageQueue w
       else if ok then pq_emplace p (received out) (messageQueue w)
       else if to_self everyone
       then pq_emplace resendPriority (received (stamped_resend L (self_ip w) ipv6Unspecified out)) (messageQueue w)
       else messageQueue w)"
  unfolding out_def h_def everyone_def ok_def
  using sendMessage_exec [OF assms(5-11)] sent_by_simps(1-4) [OF assms(6), of L m d p] by blast

text \<open>A process with one peer sends a lock message to everyone: its clock stands still, so it refuses the
  message itself and a resend request follows.\<close>

theorem send_returns_witness:
  "let w = sample_world\<lparr>peers := [new_peer (IPv6 5) 1]\<rparr>; out = outgoing raw_lib 5 w sample_lock ipv6Unspecified
   in \<exists>w'. sendMessage raw_lib sample_lock ipv6Unspecified w = (Inr (), w')
    \<and> outbox w' = [(IPv6 5, save_any raw_lib out),
        (IPv6 5, save_any raw_lib (stamped_resend raw_lib (IPv6 9) ipv6Unspecified out))]
    \<and> last (contents (oldMessages w')) = Some out"
proof -
  let ?w = "sample_world\<lparr>peers := [new_peer (IPv6 5) 1]\<rparr>"
  let ?out = "outgoing raw_lib 5 ?w sample_lock ipv6Unspecified"
  have c: "cache_ok ?w" using cache_ok_sample by (simp add: cache_ok_def)
  have v: "isValid (self_ip ?w)" by (simp add: isValid_def)
  have f: "fits (add_routing (self_ip ?w) ipv6Unspecified sample_lock)"
    using sample_lock_facts(2)
    by (simp add: sample_lock_def add_routing_def set_hash_def on_base_def Let_def base_fits_def
        isValid_def Message.defs)
  have h: "hops_of ?w ipv6Unspecified ipv6Unspecified = \<lparr>to_peers = [new_peer (IPv6 5) 1], to_self = True\<rparr>"
    by (simp add: hops_of_def route_def forward2all_def)
  have t: "drawn_time sample_lock ?w = 5"
    by (simp add: drawn_time_def sample_lock_facts to_time_t_def convertTimepoint_def sys_to_time_t_def tdiv_def)
  let ?v = "?w\<lparr>ticks := ticks ?w + readings sample_lock\<rparr>"
  have o: "hash_timestamp ?out = Some 5500000000" "messageHash (header ?out) = msg_hash raw_lib 5 ?out"
    "paths_normal ?out"
    by (simp_all add: outgoing_def Let_def sample_lock_facts)
  have "arrival_time ?out ?v = 5"
    by (simp add: arrival_time_def o(1) to_time_t_def whole_seconds_def sys_from_time_t_def
        sys_to_time_t_def tdiv_def convertTimepoint_def)
  then have r: "\<not> passes_check raw_lib ?out ?v"
    by (simp add: passes_check_accepted [OF o(3)] accepted_iff_time [OF o(1,2)])
  show ?thesis
    using send_returns [OF raw.lib_laws_axioms c v f sample_lock_facts(3,1,7)] r
    unfolding h t Let_def by (elim exE conjE) (rule exI, simp)
qed

section \<open>A broadcast the process accepts itself\<close>

text \<open>The process after a message to everyone that passes its own hash check: sent to every peer,
  queued and cached.\<close>

definition sent_to_all :: "lib \<Rightarrow> any_message \<Rightarrow> size_t \<Rightarrow> world \<Rightarrow> world" where
  "sent_to_all L m p w =
     w\<lparr>peers := map ask_ip (peers w), outbox := outbox w @ map (\<lambda>q. (socketIP q, save_any L m)) (peers w),
       ticks := ticks w + readings m, messageQueue := pq_emplace p (received m) (messageQueue w),
       oldMessages := emplace_back (Some m) (oldMessages w)\<rparr>"

lemma broadcast_accepted:
  fixes L m w
  defines "r \<equiv> add_routing (self_ip w) ipv6Unspecified m"
  defines "t \<equiv> (case hash_timestamp m of None \<Rightarrow> 0
       | Some ts \<Rightarrow> to_time_t ts (clock w (ticks w)) (clock w (Suc (ticks w))))"
  defines "out \<equiv> set_hash (msg_hash L t r) r"
  assumes L: "lib_laws L" and c: "cache_ok w" and s: "self_ip w \<noteq> ipv6Unspecified"
    and m: "fits r" "well_typed m" "paths_normal m" "msg_kind m = Some k" "wire_priority k = Some p"
    and ps: "\<forall>q \<in> set (peers w). remoteIP q \<noteq> ipv6Unspecified"
    and acc: "accepted L out (w\<lparr>ticks := ticks w + readings m\<rparr>)"
  shows "broadcast L m w = (Inr (), sent_to_all L out p (w\<lparr>ticks := ticks w + readings m\<rparr>))"
proof -
  let ?w1 = "w\<lparr>ticks := ticks w + readings m\<rparr>"
  let ?w2 = "posted (save_any L out) (peers w) (asked_for ipv6Unspecified ?w1)"
  have rd: "readings r = readings m" "readings out = readings m"
    by (simp_all add: readings_def r_def out_def)
  have dt: "draw_time r w = (Inr t, ?w1)"
    by (simp add: draw_time_exec drawn_time_def r_def t_def)
  have h: "hops_of ?w1 ipv6Unspecified ipv6Unspecified = \<lparr>to_peers = peers w, to_self = True\<rparr>"
    using s ps by (simp add: hops_of_def route_cases forward2all_def is_broadcast_def filter_id_conv)
  have "accepted L out ?w2"
    using acc by (simp add: accepted_def arrival_time_def split: option.splits)
  then have q: "deserializeMessage L sendf (save_any L out) ?w2 = (Inr (), ?w2\<lparr>ticks := ticks ?w2 + readings out,
      messageQueue := pq_emplace p (received out) (messageQueue ?w2)\<rparr>)" for sendf
    using m by (intro queued_if_accepted [OF L, where t = k]) (simp_all add: out_def r_def)
  have c2: "cache_ok (?w2\<lparr>ticks := i, messageQueue := mq\<rparr>)" for i mq
    using c by (simp add: cache_ok_def posted_def)
  show ?thesis
    by (simp add: broadcast_def sendMessage_def numeral_2_eq_2 send.simps(2) [of L "Suc 0"] bnd_exec gets_exec
        Let_def r_def [symmetric] dt out_def [symmetric] routeData_exec h q remember_exec [OF c2]
        ret_exec del: send.simps)
      (simp add: sent_to_all_def posted_def asked_for_def)
qed


section \<open>Sending to a neighbour\<close>

text \<open>The first peer that answers to \<open>d\<close> has the socket to \<open>s\<close>.\<close>

definition link_to :: "ip_address \<Rightarrow> peer list \<Rightarrow> ip_address option" where
  "link_to d ps = map_option socketIP (find (\<lambda>q. remoteIP q = d) ps)"

definition linked :: "ip_address \<Rightarrow> ip_address \<Rightarrow> world \<Rightarrow> bool" where
  "linked d s w \<longleftrightarrow> link_to d (peers w) = Some s \<and> \<not> is_broadcast d \<and> \<not> is_self (self_ip w) d"

lemma link_to_asked [simp]:
  "link_to d (ask_until e ps) = link_to d ps" "link_to d (map ask_ip ps) = link_to d ps"
  by (induction ps) (auto simp: link_to_def)

lemma linked_asked_for [simp]: "linked d s (asked_for e w) = linked d s w"
  by (simp add: linked_def asked_for_def)

lemma linked_cong: "peers v = peers w \<Longrightarrow> self_ip v = self_ip w \<Longrightarrow> linked d s v = linked d s w"
  by (simp add: linked_def)

text \<open>The process after a message to a neighbour.\<close>

definition sent_to_one :: "lib \<Rightarrow> any_message \<Rightarrow> ip_address \<Rightarrow> ip_address \<Rightarrow> world \<Rightarrow> world" where
  "sent_to_one L m d s w = (asked_for d w)\<lparr>outbox := outbox w @ [(s, save_any L m)],
     ticks := ticks w + readings m, oldMessages := emplace_back (Some m) (oldMessages w)\<rparr>"

lemma send_direct:
  assumes "cache_ok w" and "linked d s w"
  shows "sendMessage L m d w = (Inr (), sent_to_one L (outgoing L (drawn_time m w) w m d) d s w)"
proof -
  let ?r = "add_routing (self_ip w) d m"
  obtain q where q: "find (\<lambda>q. remoteIP q = d) (peers w) = Some q" "socketIP q = s"
    using assms(2) by (auto simp: linked_def link_to_def)
  let ?t = "drawn_time m w"
  let ?out = "outgoing L ?t w m d" and ?w1 = "w\<lparr>ticks := ticks w + readings m\<rparr>"
  have rd: "readings ?r = readings m" "readings ?out = readings m"
    by (simp_all add: readings_def outgoing_def Let_def)
  have dt: "draw_time ?r w = (Inr ?t, ?w1)" by (simp add: draw_time_exec)
  have h: "hops_of ?w1 d ipv6Unspecified = \<lparr>to_peers = [q], to_self = False\<rparr>"
    using assms(2) q by (simp add: hops_of_def route_cases linked_def)
  have c: "cache_ok (posted (save_any L ?out) [q] (asked_for d ?w1))"
    using assms(1) by (simp add: cache_ok_def)
  show ?thesis
    using q(2)
    by (simp add: sendMessage_def numeral_2_eq_2 send.simps(2) [of L "Suc 0"] bnd_exec gets_exec Let_def dt
        outgoing_def [symmetric, unfolded Let_def] routeData_exec h remember_exec [OF c] del: send.simps)
      (simp add: sent_to_one_def posted_def rd asked_for_def)
qed

end
