(* ===== verification/Locks.thy ===== *)
theory Locks
  imports Sending
begin

text \<open>
  Locking files: \<open>loadLockFile\<close>, \<open>processLockMessage\<close> and \<open>processUnlockMessage\<close> of
  \<open>src/src/message_manager.cpp\<close>.  A lock is a file next to the bookkeeping of the locked file: it
  holds the lock message and the write permissions to restore.  The lock files together are a store
  (\<open>lock_store\<close>), and the handlers refine an abstract lock that the earliest message takes.
\<close>

section \<open>Lock files\<close>

definition writePerms :: perms where "writePerms = 0x92"
definition readPerms :: perms where "readPerms = 0x124"

text \<open>\<open>std::filesystem::perms\<close> is archived as its underlying 32-bit type.\<close>

definition save_lock :: "lib \<Rightarrow> FileMessage \<Rightarrow> perms \<Rightarrow> byte list" where
  "save_lock L m pm = save_File L m @ put_u32 L (ucast pm)"

definition load_lock :: "lib \<Rightarrow> (FileMessage \<times> perms) get" where
  "load_lock L bs =
     do { (m, bs) \<leftarrow> load_File L bs; (pm, bs) \<leftarrow> get_u32 L bs; Some ((m, ucast pm), bs) }"

text \<open>
  An archive over an output file stream: opening truncates the file, and writing to a stream that
  could not be opened throws; reading from one does, too.
\<close>

definition write_out :: "path \<Rightarrow> string \<Rightarrow> (world, unit) prog" where
  "write_out p s = bnd now (\<lambda>t. on_files (write_file p s t))"

definition open_out :: "path \<Rightarrow> (world, bool) prog" where
  "open_out p =
     bnd (on_files (gets (\<lambda>fs. can_write fs p))) (\<lambda>ok.
     bnd (if ok then write_out p '''' else ret ()) (\<lambda>_. ret ok))"

definition archive_save :: "bool \<Rightarrow> path \<Rightarrow> byte list \<Rightarrow> (world, unit) prog" where
  "archive_save opened p bs =
     (if opened then write_out p (map char_of_byte bs) else throw CerealException)"

definition the_lockFilePath :: "path \<Rightarrow> (world, path) prog" where
  "the_lockFilePath p = need ''*path.begin()'' (lockFilePath p)"

definition loadLockFile :: "lib \<Rightarrow> path \<Rightarrow> (world, FileMessage \<times> perms) prog" where
  "loadLockFile L p =
     bnd (the_lockFilePath p) (\<lambda>lockPath.
     bnd (on_files (read_file lockPath)) (\<lambda>content. case content of
       None \<Rightarrow> throw CerealException
     | Some s \<Rightarrow> archive_load (load_lock L) (map byte_of_char s)))"

section \<open>The handlers\<close>

definition processLockMessage :: "lib \<Rightarrow> FileMessage \<Rightarrow> (world, bool) prog" where
  "processLockMessage L m =
     bnd finishedConnecting (\<lambda>finished.
     if \<not> finished then ret False else
     bnd (on_files (fs_exists (targetFile m))) (\<lambda>target_exists.
     if \<not> target_exists then ret True else
     bnd (the_lockFilePath (targetFile m)) (\<lambda>lockPath.
     bnd (on_files (fs_exists lockPath)) (\<lambda>locked.
     if \<not> locked then
       bnd (gets self_ip) (\<lambda>self.
       bnd (if originatorNode m \<noteq> self
            then on_files (permissions (targetFile m) writePerms Remove) else ret ()) (\<lambda>_.
       bnd (on_files (create_directories (remove_filename lockPath))) (\<lambda>_.
       bnd (open_out lockPath) (\<lambda>fout.
       bnd (on_files (status_perms (targetFile m))) (\<lambda>perms.
       bnd (archive_save fout lockPath (save_lock L m (perms AND writePerms))) (\<lambda>_.
       ret True))))))
     else
       bnd (loadLockFile L (targetFile m)) (\<lambda>(oldLock, oldPerms).
       if timestamp m < timestamp oldLock then
         bnd (open_out lockPath) (\<lambda>fout.
         bnd (on_files (create_directories (remove_filename lockPath))) (\<lambda>_.
         bnd (archive_save fout lockPath (save_lock L m (oldPerms AND writePerms))) (\<lambda>_.
         ret True)))
       else ret True)))))"

definition processUnlockMessage :: "lib \<Rightarrow> FileMessage \<Rightarrow> (world, bool) prog" where
  "processUnlockMessage L m =
     bnd finishedConnecting (\<lambda>finished.
     if \<not> finished then ret False else
     bnd (the_lockFilePath (targetFile m)) (\<lambda>lockPath.
     bnd (on_files (fs_exists lockPath)) (\<lambda>locked.
     if \<not> locked then ret True else
     bnd (loadLockFile L (targetFile m)) (\<lambda>(oldLock, permsToAdd).
     if originatorNode m = originatorNode oldLock then
       bnd (on_files (status_perms (targetFile m))) (\<lambda>check.
       if check AND writePerms = perms_none then
         bnd (on_files (permissions (targetFile m) permsToAdd Add)) (\<lambda>_.
         bnd (on_files (fs_remove lockPath)) (\<lambda>_. ret True))
       else ret True)
     else ret True))))"

section \<open>Managed files and their lock files\<close>

text \<open>
  A lock file's name starts with \<open>.lock.\<close>.  A managed file is a file path without \<open>.\<close> elements,
  outside the \<open>.wnts\<close> folders and not itself named like a lock file.
\<close>

definition lock_name :: "path \<Rightarrow> bool" where
  "lock_name k \<longleftrightarrow> k \<noteq> [] \<and> take 6 (last k) = ''.lock.''"

definition managed :: "path \<Rightarrow> bool" where
  "managed p \<longleftrightarrow> file_path p \<and> resolve p = p \<and> is_good p \<and> \<not> lock_name p"

lemma managed_lock:
  assumes "managed p"
  obtains lp where "lockFilePath p = Some lp" "resolve lp = lp" "lp \<noteq> []" "lp \<noteq> p"
    "lock_name lp" "\<not> is_good lp"
proof -
  from assms have fp: "file_path p" and r: "resolve p = p" by (simp_all add: managed_def)
  from fp obtain e es f where p: "p = e # es @ [f]" and f: "name_ok f"
    and es: "\<forall>x \<in> set es. name_ok x"
    by (rule file_path_split)
  let ?lp = "e # ''.wnts'' # es @ [''.lock.'' @ f]"
  have "lockFilePath p = Some ?lp"
    using lockFilePath_eq [OF f _ es] wf_path_file_path [OF fp] p by (simp only:)
  moreover have "\<forall>x \<in> set p. x \<noteq> '''' \<and> x \<noteq> ''.''"
    using r by (simp add: resolve_def filter_id_conv)
  then have "resolve ?lp = ?lp"
    using p by (simp add: resolve_def filter_id_conv)
  moreover have "lock_name ?lp" by (simp add: lock_name_def)
  ultimately show thesis using that p by (simp add: is_good_iff)
qed

lemma managed_simps:
  assumes "managed p"
  shows "p \<noteq> []" "lookup fs p = map_of fs p" "resolve p = p"
  using assms by (auto simp: managed_def file_path_def lookup_def entry_def)


section \<open>The store of lock files\<close>

text \<open>
  The effects of the handlers on the files.  \<open>saved_lock t p v\<close> writes \<open>v\<close> into the lock file of \<open>p\<close>
  at time \<open>t\<close>, \<open>dropped_lock p\<close> removes it, \<open>held_lock p\<close> reads it.
\<close>

definition the_lock_path :: "path \<Rightarrow> path" where
  "the_lock_path p = (case lockFilePath p of None \<Rightarrow> [] | Some lp \<Rightarrow> lp)"

definition saved_lock ::
    "lib \<Rightarrow> int \<Rightarrow> path \<Rightarrow> FileMessage \<times> perms \<Rightarrow> filesystem \<Rightarrow> filesystem" where
  "saved_lock L t p v fs =
     AList.update (the_lock_path p)
       (Regular (write_perms fs (the_lock_path p))
          (map char_of_byte (save_lock L (fst v) (snd v))) t) fs"

definition dropped_lock :: "path \<Rightarrow> filesystem \<Rightarrow> filesystem" where
  "dropped_lock p fs = AList.delete (the_lock_path p) fs"

definition held_lock :: "lib \<Rightarrow> path \<Rightarrow> filesystem \<Rightarrow> (FileMessage \<times> perms) option" where
  "held_lock L p fs =
     (case map_of fs (the_lock_path p) of
        Some (Regular pm s _) \<Rightarrow>
          if pm AND owner_read \<noteq> 0
          then map_option fst (load_lock L (map byte_of_char s)) else None
      | _ \<Rightarrow> None)"

text \<open>Everything named like a lock file is a readable and writable regular file.\<close>

definition locks_usable :: "filesystem \<Rightarrow> bool" where
  "locks_usable fs \<longleftrightarrow> (\<forall>(k, n) \<in> set fs. lock_name k \<longrightarrow>
     (case n of Regular pm _ _ \<Rightarrow> pm AND owner_read \<noteq> 0 \<and> pm AND owner_write \<noteq> 0
      | Directory _ \<Rightarrow> False))"

text \<open>Locks that come back from the archive as they were.\<close>

definition lock_value :: "FileMessage \<times> perms \<Rightarrow> bool" where
  "lock_value v \<longleftrightarrow> fits (MFile (fst v)) \<and> received (MFile (fst v)) = MFile (fst v)"

lemma the_lock_path:
  assumes "managed p"
  shows "lockFilePath p = Some (the_lock_path p)" "resolve (the_lock_path p) = the_lock_path p"
    "the_lock_path p \<noteq> []" "lock_name (the_lock_path p)" "\<not> is_good (the_lock_path p)"
proof -
  from assms obtain lp where "lockFilePath p = Some lp" "resolve lp = lp" "lp \<noteq> []"
    "lock_name lp" "\<not> is_good lp"
    by (rule managed_lock)
  then show "lockFilePath p = Some (the_lock_path p)"
    "resolve (the_lock_path p) = the_lock_path p"
    "the_lock_path p \<noteq> []" "lock_name (the_lock_path p)" "\<not> is_good (the_lock_path p)"
    by (simp_all add: the_lock_path_def)
qed

lemma the_lock_path_inj: "managed p \<Longrightarrow> managed q \<Longrightarrow> the_lock_path p = the_lock_path q \<Longrightarrow> p = q"
  using the_lock_path(1) lock_paths_inj by (metis managed_def)

lemma lock_path_not_managed: "managed p \<Longrightarrow> managed q \<Longrightarrow> the_lock_path p \<noteq> q"
  using the_lock_path(5) by (auto simp: managed_def)

lemma lookup_lock: "managed p \<Longrightarrow> lookup fs (the_lock_path p) = map_of fs (the_lock_path p)"
  by (simp add: lookup_def entry_def the_lock_path)

lemma perms_u32: "ucast (ucast (pm :: perms) :: 32 word) = pm"
  by (rule bit_word_eqI) (simp add: bit_simps)

context lib_laws
begin

lemma load_save_lock:
  assumes "lock_value (m, pm)"
  shows "load_lock L (save_lock L m pm @ r) = Some ((m, pm), r)"
  using load_save_any [of "MFile m" "put_u32 L (ucast pm) @ r"] assms
  by (simp add: load_lock_def save_lock_def lock_value_def perms_u32)

end

text \<open>A keyed store with an invariant: what was saved is loaded, other keys are left alone.\<close>

locale lock_store =
  fixes save :: "'k \<Rightarrow> 'v \<Rightarrow> 's \<Rightarrow> 's" and load :: "'k \<Rightarrow> 's \<Rightarrow> 'v option" and drop :: "'k \<Rightarrow> 's \<Rightarrow> 's"
    and key :: "'k \<Rightarrow> bool" and val :: "'v \<Rightarrow> bool" and inv :: "'s \<Rightarrow> bool"
  assumes load_save: "key p \<Longrightarrow> key q \<Longrightarrow> val v \<Longrightarrow> inv s \<Longrightarrow>
      load q (save p v s) = (if q = p then Some v else load q s)"
    and load_drop: "key p \<Longrightarrow> key q \<Longrightarrow> inv s \<Longrightarrow> load q (drop p s) = (if q = p then None else load q s)"
    and inv_save: "key p \<Longrightarrow> inv s \<Longrightarrow> inv (save p v s)"
    and inv_drop: "key p \<Longrightarrow> inv s \<Longrightarrow> inv (drop p s)"
begin

text \<open>The store as a finite table: a history of saves (\<open>Some\<close>) and drops (\<open>None\<close>).\<close>

primrec run :: "('k \<times> 'v option) list \<Rightarrow> 's \<Rightarrow> 's" where
  "run [] s = s"
| "run (c # cs) s = run cs (case snd c of Some v \<Rightarrow> save (fst c) v s | None \<Rightarrow> drop (fst c) s)"

definition sane :: "('k \<times> 'v option) list \<Rightarrow> bool" where
  "sane cs \<longleftrightarrow> (\<forall>(p, c) \<in> set cs. key p \<and> pred_option val c)"

lemma run_table:
  "sane cs \<Longrightarrow> key q \<Longrightarrow> inv s \<Longrightarrow>
    inv (run cs s) \<and> load q (run cs s)
      = (case map_of (rev cs) q of Some c \<Rightarrow> c | None \<Rightarrow> load q s)"
proof (induction cs arbitrary: s)
  case Nil
  then show ?case by simp
next
  case (Cons c cs)
  obtain p v where c: "c = (p, v)" by (cases c)
  then have k: "key p" and v: "pred_option val v" and cs: "sane cs"
    using Cons.prems(1) by (auto simp: sane_def)
  let ?s = "case v of Some v \<Rightarrow> save p v s | None \<Rightarrow> drop p s"
  have i: "inv ?s" using k Cons.prems(3) by (auto simp: inv_save inv_drop split: option.split)
  have "load q ?s = (if q = p then v else load q s)"
    using k v Cons.prems(2,3) by (auto simp: load_save load_drop split: option.split)
  then show ?case
    using Cons.IH [OF cs Cons.prems(2) i] c by (auto simp: map_add_def split: option.split)
qed

end

lemma locks_usable_update:
  "locks_usable fs \<Longrightarrow> (lock_name k \<Longrightarrow> (case n of Regular pm _ _ \<Rightarrow> pm AND owner_read \<noteq> 0
      \<and> pm AND owner_write \<noteq> 0 | Directory _ \<Rightarrow> False)) \<Longrightarrow> locks_usable (AList.update k n fs)"
  by (induction fs) (auto simp: locks_usable_def)

lemma locks_usable_delete: "locks_usable fs \<Longrightarrow> locks_usable (AList.delete k fs)"
  by (auto simp: locks_usable_def AList.delete_eq)

lemma locks_usable_lookup:
  assumes "locks_usable fs" and "map_of fs k = Some n" and "lock_name k"
  obtains pm s t where "n = Regular pm s t" "pm AND owner_read \<noteq> 0" "pm AND owner_write \<noteq> 0"
proof -
  have "(k, n) \<in> set fs" using assms(2) by (rule map_of_SomeD)
  then show thesis
    using assms(1,3) that by (cases n) (fastforce simp: locks_usable_def)+
qed

lemma write_perms_lock:
  assumes "locks_usable fs" and "managed p"
  shows "write_perms fs (the_lock_path p) AND owner_read \<noteq> 0"
    "write_perms fs (the_lock_path p) AND owner_write \<noteq> 0"
proof -
  have "write_perms fs (the_lock_path p) AND owner_read \<noteq> 0
      \<and> write_perms fs (the_lock_path p) AND owner_write \<noteq> 0"
  proof (cases "map_of fs (the_lock_path p)")
    case None
    then show ?thesis by (simp add: write_perms_def lookup_lock assms)
  next
    case (Some n)
    from assms(1) Some the_lock_path(4) [OF assms(2)]
    obtain pm s t where n: "n = Regular pm s t" "pm AND owner_read \<noteq> 0" "pm AND owner_write \<noteq> 0"
      by (rule locks_usable_lookup)
    have "write_perms fs (the_lock_path p) = pm"
      using Some n(1) by (simp add: write_perms_def lookup_lock assms)
    with n show ?thesis by simp
  qed
  then show "write_perms fs (the_lock_path p) AND owner_read \<noteq> 0"
    "write_perms fs (the_lock_path p) AND owner_write \<noteq> 0" by blast+
qed

lemma locks_usable_saved: "managed p \<Longrightarrow> locks_usable fs \<Longrightarrow> locks_usable (saved_lock L t p v fs)"
  unfolding saved_lock_def by (rule locks_usable_update) (simp_all add: write_perms_lock)

text \<open>The lock files of the model are such a store.\<close>

lemma lock_files_store:
  assumes "lib_laws L"
  shows "lock_store (saved_lock L t) (held_lock L) dropped_lock managed lock_value locks_usable"
proof
  fix p q :: path and v and fs :: filesystem
  assume p: "managed p" and q: "managed q" and fs: "locks_usable fs"
  have inj: "the_lock_path q = the_lock_path p \<longleftrightarrow> q = p" using the_lock_path_inj p q by blast
  show "held_lock L q (dropped_lock p fs) = (if q = p then None else held_lock L q fs)"
    using inj by (simp add: held_lock_def dropped_lock_def delete_conv')
  assume v: "lock_value v"
  show "held_lock L q (saved_lock L t p v fs) = (if q = p then Some v else held_lock L q fs)"
    using inj v lib_laws.load_save_lock [OF assms, of "fst v" "snd v" "[]"]
      write_perms_lock(1) [OF fs p]
    by (simp add: held_lock_def saved_lock_def update_conv')
qed (simp_all add: locks_usable_saved dropped_lock_def locks_usable_delete)

sublocale lib_laws \<subseteq> locks: lock_store "saved_lock L t" "held_lock L" dropped_lock
    managed lock_value locks_usable
  by (rule lock_files_store [OF lib_laws_axioms])


section \<open>Executing the handlers\<close>

lemma loadLockFile_exec:
  "managed p \<Longrightarrow> loadLockFile L p w = (case held_lock L p (files w) of
     None \<Rightarrow> (Inl CerealException, w) | Some v \<Rightarrow> (Inr v, w))"
  by (auto simp: loadLockFile_def the_lockFilePath_def exec_simps fs_simps the_lock_path(1)
      lookup_lock held_lock_def archive_load_def
      split: option.split node.split prod.split)

lemma write_out_exec [exec_simps]:
  "write_out p s w = (Inr (), w\<lparr>ticks := Suc (ticks w),
     files := (if can_write (files w) p
               then AList.update (resolve p)
                      (Regular (write_perms (files w) p) s (clock w (ticks w))) (files w)
               else files w)\<rparr>)"
  by (simp add: write_out_def exec_simps fs_simps)

lemma can_write_lock:
  assumes "managed p" and "locks_usable fs" and "writable_dir fs (butlast (the_lock_path p))"
  shows "can_write fs (the_lock_path p)"
proof -
  have hf: "has_filename (the_lock_path p)"
    using the_lock_path(3,4) [OF assms(1)]
    by (auto simp: has_filename_def lock_name_def)
  show ?thesis
  proof (cases "map_of fs (the_lock_path p)")
    case None
    then show ?thesis
      using hf assms by (simp add: can_write_def lookup_lock parent_writable_def the_lock_path)
  next
    case (Some n)
    from assms(2) Some the_lock_path(4) [OF assms(1)]
    obtain pm s t where "n = Regular pm s t" "pm AND owner_write \<noteq> 0"
      by (rule locks_usable_lookup)
    then show ?thesis using hf Some assms by (simp add: can_write_def lookup_lock)
  qed
qed

text \<open>Opening the lock file truncates it; writing then stores the lock.\<close>

definition truncated_lock :: "int \<Rightarrow> path \<Rightarrow> filesystem \<Rightarrow> filesystem" where
  "truncated_lock t p fs =
     AList.update (the_lock_path p) (Regular (write_perms fs (the_lock_path p)) '''' t) fs"

lemma write_perms_truncated [simp]:
  "managed p \<Longrightarrow>
    write_perms (truncated_lock t p fs) (the_lock_path p) = write_perms fs (the_lock_path p)"
  by (simp add: truncated_lock_def write_perms_def lookup_lock update_conv')

lemma saved_truncated [simp]:
  "managed p \<Longrightarrow> saved_lock L t p v (truncated_lock u p fs) = saved_lock L t p v fs"
  by (simp add: saved_lock_def) (simp add: truncated_lock_def)

lemma locks_usable_truncated:
  "managed p \<Longrightarrow> locks_usable fs \<Longrightarrow> locks_usable (truncated_lock t p fs)"
  unfolding truncated_lock_def by (rule locks_usable_update) (simp_all add: write_perms_lock)

lemma writable_dir_lock_update:
  "managed p \<Longrightarrow> writable_dir (AList.update (the_lock_path p) n fs) (butlast (the_lock_path p))
    = writable_dir fs (butlast (the_lock_path p))"
proof -
  assume "managed p"
  then have "butlast (the_lock_path p) \<noteq> the_lock_path p"
    using the_lock_path(3) by (metis append_butlast_last_id not_Cons_self2 self_append_conv)
  then show ?thesis by (simp add: writable_dir_def entry_def update_conv')
qed

lemma open_lock_exec:
  assumes "managed p" and "locks_usable (files w)"
    and "writable_dir (files w) (butlast (the_lock_path p))"
  shows "open_out (the_lock_path p) w
    = (Inr True, w\<lparr>ticks := Suc (ticks w),
         files := truncated_lock (clock w (ticks w)) p (files w)\<rparr>)"
  using can_write_lock [OF assms]
  by (simp add: open_out_def exec_simps truncated_lock_def the_lock_path assms(1))

lemma archive_save_exec:
  assumes "managed p" and "locks_usable (files w)"
    and "writable_dir (files w) (butlast (the_lock_path p))"
  shows "archive_save True (the_lock_path p) (save_lock L m pm) w
    = (Inr (), w\<lparr>ticks := Suc (ticks w),
         files := saved_lock L (clock w (ticks w)) p (m, pm) (files w)\<rparr>)"
  using can_write_lock [OF assms]
  by (simp add: archive_save_def exec_simps saved_lock_def the_lock_path assms(1))

text \<open>Directories that are there already.\<close>

definition folder_there :: "filesystem \<Rightarrow> path \<Rightarrow> bool" where
  "folder_there fs q \<longleftrightarrow>
     list_all (\<lambda>k. case entry fs (take k q) of Some (Directory _) \<Rightarrow> True | _ \<Rightarrow> False)
       [1..<Suc (length q)]"

lemma folder_there_iff:
  "folder_there fs q \<longleftrightarrow> (\<forall>k. 1 \<le> k \<and> k \<le> length q \<longrightarrow> (\<exists>pm. entry fs (take k q) = Some (Directory pm)))"
proof -
  have "(case x of Some (Directory _) \<Rightarrow> True | _ \<Rightarrow> False) \<longleftrightarrow> (\<exists>pm. x = Some (Directory pm))" for x
    by (auto split: option.split node.split)
  then show ?thesis
    unfolding folder_there_def list_all_iff set_upt by (simp add: Ball_def less_Suc_eq_le)
qed

lemma make_dirs_there:
  "(\<And>k. 1 \<le> k \<Longrightarrow> k \<le> length es \<Longrightarrow> \<exists>pm. entry fs (pre @ take k es) = Some (Directory pm)) \<Longrightarrow>
    make_dirs p pre es fs = (Inr (), fs)"
proof (induction es arbitrary: pre)
  case Nil
  then show ?case by (simp add: exec_simps)
next
  case (Cons e es)
  obtain pm where "entry fs (pre @ [e]) = Some (Directory pm)"
    using Cons.prems [of 1] by auto
  moreover have "make_dirs p (pre @ [e]) es fs = (Inr (), fs)"
    by (rule Cons.IH) (use Cons.prems [of "Suc _"] in auto)
  ultimately show ?case by (simp add: exec_simps)
qed

lemma create_directories_there:
  "p \<noteq> [] \<Longrightarrow> folder_there fs (resolve p) \<Longrightarrow> create_directories p fs = (Inr (), fs)"
  by (simp add: create_directories_def make_dirs_there folder_there_iff)

lemma lock_folder:
  assumes "managed p"
  shows "remove_filename (the_lock_path p) \<noteq> []"
    "resolve (remove_filename (the_lock_path p)) = butlast (the_lock_path p)"
proof -
  have hf: "has_filename (the_lock_path p)"
    using the_lock_path(3,4) [OF assms] by (auto simp: has_filename_def lock_name_def)
  obtain e es where "butlast (the_lock_path p) = e # es"
    using the_lock_path(5) [OF assms] the_lock_path(4) [OF assms]
    by (cases "the_lock_path p"; cases "tl (the_lock_path p)")
      (auto simp: is_good_iff lock_name_def)
  moreover have "resolve (butlast (the_lock_path p)) = butlast (the_lock_path p)"
    by (metis resolve_butlast the_lock_path(2) [OF assms])
  ultimately show "remove_filename (the_lock_path p) \<noteq> []"
    "resolve (remove_filename (the_lock_path p)) = butlast (the_lock_path p)"
    using hf by (auto simp: remove_filename_def Let_def resolve_def)
qed


section \<open>The lock a file holds\<close>

lemma entry_update: "k \<noteq> [] \<Longrightarrow> entry (AList.update k n fs) q = (if q = k then Some n else entry fs q)"
  by (auto simp: entry_def update_conv')

definition no_dir :: "filesystem \<Rightarrow> path \<Rightarrow> bool" where
  "no_dir fs k \<longleftrightarrow> k \<noteq> [] \<and> (case map_of fs k of Some (Directory _) \<Rightarrow> False | _ \<Rightarrow> True)"

lemma no_dirD: "no_dir fs k \<Longrightarrow> k \<noteq> [] \<and> entry fs k \<noteq> Some (Directory pm)"
  by (auto simp: no_dir_def entry_def)

lemma folder_there_update:
  assumes "folder_there fs q" and "no_dir fs k"
  shows "folder_there (AList.update k n fs) q"
  unfolding folder_there_iff
proof (intro allI impI)
  fix i
  assume "1 \<le> i \<and> i \<le> length q"
  then obtain pm where "entry fs (take i q) = Some (Directory pm)"
    using assms(1) by (auto simp: folder_there_iff)
  then show "\<exists>pm. entry (AList.update k n fs) (take i q) = Some (Directory pm)"
    using no_dirD [OF assms(2)] by (auto simp: entry_update)
qed

lemma writable_dir_update:
  assumes "writable_dir fs q" and "no_dir fs k"
  shows "writable_dir (AList.update k n fs) q"
proof -
  from assms(1) obtain pm where "entry fs q = Some (Directory pm)"
    by (auto simp: writable_dir_def split: option.splits node.splits)
  then have "entry (AList.update k n fs) q = entry fs q"
    using no_dirD [OF assms(2)] by (auto simp: entry_update)
  then show ?thesis using assms(1) by (simp add: writable_dir_def)
qed

text \<open>
  A process in which the lock of \<open>p\<close> can be taken: it is connected, \<open>p\<close> is a managed regular file,
  its bookkeeping folder is there and writable, and its lock file, if there is one, can be read.
\<close>

definition is_file :: "filesystem \<Rightarrow> path \<Rightarrow> bool" where
  "is_file fs k \<longleftrightarrow> (case map_of fs k of Some (Regular _ _ _) \<Rightarrow> True | _ \<Rightarrow> False)"

definition lock_place :: "filesystem \<Rightarrow> path \<Rightarrow> bool" where
  "lock_place fs p \<longleftrightarrow> folder_there fs (butlast (the_lock_path p))
     \<and> writable_dir fs (butlast (the_lock_path p)) \<and> locks_usable fs"

definition lockable :: "lib \<Rightarrow> path \<Rightarrow> world \<Rightarrow> bool" where
  "lockable L p w \<longleftrightarrow> managed p \<and> isFinishedConnecting w \<and> is_file (files w) p
     \<and> lock_place (files w) p
     \<and> (map_of (files w) (the_lock_path p) = None \<or> held_lock L p (files w) \<noteq> None)"

lemma is_file_iff: "is_file fs k \<longleftrightarrow> (\<exists>pm s t. map_of fs k = Some (Regular pm s t))"
  by (auto simp: is_file_def split: option.split node.split)

lemma no_dir_file: "is_file fs k \<Longrightarrow> k \<noteq> [] \<Longrightarrow> no_dir fs k"
  by (auto simp: is_file_iff no_dir_def)

lemma lock_place_update:
  "lock_place fs p \<Longrightarrow> no_dir fs k \<Longrightarrow> \<not> lock_name k \<Longrightarrow> lock_place (AList.update k n fs) p"
  using locks_usable_update [of fs k n]
  by (simp add: lock_place_def folder_there_update writable_dir_update)

lemma no_dir_lock:
  assumes "locks_usable fs" and "managed p"
  shows "no_dir fs (the_lock_path p)"
proof (cases "map_of fs (the_lock_path p)")
  case None
  then show ?thesis using the_lock_path(3) [OF assms(2)] by (simp add: no_dir_def)
next
  case (Some n)
  with assms(1) obtain pm s t where "n = Regular pm s t"
    using the_lock_path(4) [OF assms(2)] by (rule locks_usable_lookup)
  then show ?thesis using Some the_lock_path(3) [OF assms(2)] by (simp add: no_dir_def)
qed

lemma lock_place_saved:
  assumes "managed p" and "lock_place fs p"
  shows "lock_place (saved_lock L t p v fs) p" "lock_place (truncated_lock t p fs) p"
proof -
  have u: "locks_usable fs" "no_dir fs (the_lock_path p)"
    using assms by (simp_all add: lock_place_def no_dir_lock)
  show "lock_place (saved_lock L t p v fs) p"
    using assms u locks_usable_saved [OF assms(1) u(1)]
    by (simp add: lock_place_def saved_lock_def folder_there_update writable_dir_update)
  show "lock_place (truncated_lock t p fs) p"
    using assms u locks_usable_truncated [OF assms(1) u(1)]
    by (simp add: lock_place_def truncated_lock_def folder_there_update writable_dir_update)
qed

lemma create_lock_folder:
  "managed p \<Longrightarrow> lock_place fs p \<Longrightarrow>
    create_directories (remove_filename (the_lock_path p)) fs = (Inr (), fs)"
  by (rule create_directories_there) (simp_all add: lock_folder lock_place_def)

lemma map_of_saved_other:
  "managed p \<Longrightarrow> k \<noteq> the_lock_path p \<Longrightarrow> map_of (saved_lock L t p v fs) k = map_of fs k"
  "managed p \<Longrightarrow> k \<noteq> the_lock_path p \<Longrightarrow> map_of (truncated_lock t p fs) k = map_of fs k"
  by (simp_all add: saved_lock_def truncated_lock_def update_conv')

text \<open>The permissions of the locked file after a lock taken by \<open>owner\<close> at the process \<open>self\<close>.\<close>

definition locked_file :: "ip_address \<Rightarrow> ip_address \<Rightarrow> path \<Rightarrow> filesystem \<Rightarrow> filesystem" where
  "locked_file self owner p fs =
     (case map_of fs p of
        Some n \<Rightarrow> if owner = self then fs
                  else AList.update p (set_perms (new_perms writePerms Remove (node_perms n)) n) fs
      | None \<Rightarrow> fs)"

definition perms_of :: "filesystem \<Rightarrow> path \<Rightarrow> perms" where
  "perms_of fs k = (case map_of fs k of Some n \<Rightarrow> node_perms n | None \<Rightarrow> perms_unknown)"

text \<open>What the lock handler does when it can: on a free lock and on a held one.\<close>

lemma processLock_free:
  assumes w: "lockable L (targetFile m) w"
    and free: "map_of (files w) (the_lock_path (targetFile m)) = None"
  shows "\<exists>t. processLockMessage L m w = (Inr True, w\<lparr>ticks := ticks w + 2,
      files := saved_lock L t (targetFile m)
        (m, perms_of (locked_file (self_ip w) (originatorNode m) (targetFile m) (files w))
              (targetFile m) AND writePerms)
        (locked_file (self_ip w) (originatorNode m) (targetFile m) (files w))\<rparr>)"
proof -
  let ?p = "targetFile m" and ?fs = "locked_file (self_ip w) (originatorNode m) (targetFile m) (files w)"
  have p: "managed ?p" and fin: "isFinishedConnecting w" and lp: "lock_place (files w) ?p"
    and reg: "is_file (files w) ?p"
    using w by (auto simp: lockable_def)
  then obtain pm s u where n: "map_of (files w) ?p = Some (Regular pm s u)"
    by (auto simp: is_file_iff)
  have ne: "?p \<noteq> the_lock_path ?p" "?p \<noteq> []" "resolve ?p = ?p" "lookup fs ?p = map_of fs ?p" for fs
    using lock_path_not_managed [OF p p] managed_simps [OF p] by auto
  have place: "lock_place ?fs ?p"
    using lp reg p n ne by (auto simp: locked_file_def managed_def no_dir_file
        intro!: lock_place_update)
  define w1 where "w1 = w\<lparr>files := ?fs\<rparr>"
  have chmod: "(if originatorNode m \<noteq> self_ip w
      then on_files (permissions ?p writePerms Remove) else ret ()) w = (Inr (), w1)"
    using n ne by (simp add: exec_simps fs_simps locked_file_def w1_def)
  have free1: "lookup (files w) (the_lock_path ?p) = None"
    using free by (simp add: lookup_lock p)
  note pl = place [unfolded lock_place_def]
  define w2 where "w2 = w1\<lparr>ticks := Suc (ticks w1),
    files := truncated_lock (clock w1 (ticks w1)) ?p (files w1)\<rparr>"
  have opn: "open_out (the_lock_path ?p) w1 = (Inr True, w2)"
    unfolding w2_def by (rule open_lock_exec [OF p]) (use pl in \<open>simp_all add: w1_def\<close>)
  have st: "on_files (status_perms ?p) w2 = (Inr (perms_of ?fs ?p), w2)"
    using ne p by (simp add: exec_simps fs_simps w2_def w1_def perms_of_def map_of_saved_other)
  have place2: "lock_place (files w2) ?p"
    using lock_place_saved(2) [OF p place] by (simp add: w2_def w1_def)
  have sv: "archive_save True (the_lock_path ?p) (save_lock L m pm) w2
    = (Inr (), w2\<lparr>ticks := Suc (ticks w2),
         files := saved_lock L (clock w2 (ticks w2)) ?p (m, pm) (files w2)\<rparr>)" for pm
    by (rule archive_save_exec [OF p]) (use place2 in \<open>simp_all add: lock_place_def\<close>)
  have mk: "on_files (create_directories (remove_filename (the_lock_path ?p))) w1 = (Inr (), w1)"
    using create_lock_folder [OF p place] by (simp add: exec_simps w1_def)
  have ex: "on_files (fs_exists ?p) w = (Inr True, w)"
    "on_files (fs_exists (the_lock_path ?p)) w = (Inr False, w)"
    using n ne free1 by (simp_all add: exec_simps fs_simps)
  have "processLockMessage L m w = (Inr True, w2\<lparr>ticks := Suc (ticks w2),
         files := saved_lock L (clock w2 (ticks w2)) ?p (m, perms_of ?fs ?p AND writePerms) (files w2)\<rparr>)"
    unfolding processLockMessage_def the_lockFilePath_def the_lock_path(1) [OF p]
    using fin by (simp add: bnd_exec ex finishedConnecting_exec gets_exec chmod mk opn st sv
        need_exec ret_exec)
  then show ?thesis
    using p by (auto simp: w2_def w1_def)
qed


lemma processLock_held:
  assumes w: "lockable L (targetFile m) w"
    and held: "held_lock L (targetFile m) (files w) = Some (old, pm)"
  shows "if timestamp m < timestamp old
    then \<exists>t. processLockMessage L m w = (Inr True, w\<lparr>ticks := ticks w + 2,
      files := saved_lock L t (targetFile m) (m, pm AND writePerms) (files w)\<rparr>)
    else processLockMessage L m w = (Inr True, w)"
proof -
  let ?p = "targetFile m"
  have p: "managed ?p" and fin: "isFinishedConnecting w" and place: "lock_place (files w) ?p"
    and reg: "is_file (files w) ?p"
    using w by (auto simp: lockable_def)
  then obtain pm' s u where n: "map_of (files w) ?p = Some (Regular pm' s u)"
    by (auto simp: is_file_iff)
  have there: "map_of (files w) (the_lock_path ?p) \<noteq> None"
    using held by (auto simp: held_lock_def split: option.splits)
  have ex: "on_files (fs_exists ?p) w = (Inr True, w)"
    "on_files (fs_exists (the_lock_path ?p)) w = (Inr True, w)"
    using n there managed_simps [OF p] by (simp_all add: exec_simps fs_simps lookup_lock p)
  note pl = place [unfolded lock_place_def]
  define w2 where "w2 = w\<lparr>ticks := Suc (ticks w),
    files := truncated_lock (clock w (ticks w)) ?p (files w)\<rparr>"
  have opn: "open_out (the_lock_path ?p) w = (Inr True, w2)"
    unfolding w2_def by (rule open_lock_exec [OF p]) (use pl in simp_all)
  have place2: "lock_place (files w2) ?p"
    using lock_place_saved(2) [OF p place] by (simp add: w2_def)
  have sv: "archive_save True (the_lock_path ?p) (save_lock L m v) w2
    = (Inr (), w2\<lparr>ticks := Suc (ticks w2),
         files := saved_lock L (clock w2 (ticks w2)) ?p (m, v) (files w2)\<rparr>)" for v
    by (rule archive_save_exec [OF p]) (use place2 in \<open>simp_all add: lock_place_def\<close>)
  have mk: "on_files (create_directories (remove_filename (the_lock_path ?p))) w2 = (Inr (), w2)"
    using create_lock_folder [OF p place2] by (simp add: exec_simps w2_def)
  have "processLockMessage L m w =
     (if timestamp m < timestamp old
      then (Inr True, w2\<lparr>ticks := Suc (ticks w2),
         files := saved_lock L (clock w2 (ticks w2)) ?p (m, pm AND writePerms) (files w2)\<rparr>)
      else (Inr True, w))"
    unfolding processLockMessage_def the_lockFilePath_def the_lock_path(1) [OF p]
    using fin by (simp add: bnd_exec ex finishedConnecting_exec loadLockFile_exec [OF p] held
        opn mk sv need_exec ret_exec)
  then show ?thesis using p by (auto simp: w2_def)
qed

section \<open>The earliest lock wins\<close>

text \<open>A lock request for \<open>p\<close> as it comes out of the archive, and the abstract lock.\<close>

definition lock_request :: "path \<Rightarrow> FileMessage \<Rightarrow> bool" where
  "lock_request p m \<longleftrightarrow> targetFile m = p \<and> fits (MFile m) \<and> received (MFile m) = MFile m"

definition holder :: "lib \<Rightarrow> path \<Rightarrow> world \<Rightarrow> FileMessage option" where
  "holder L p w = map_option fst (held_lock L p (files w))"

definition take_lock :: "FileMessage option \<Rightarrow> FileMessage \<Rightarrow> FileMessage" where
  "take_lock h m = (case h of None \<Rightarrow> m | Some old \<Rightarrow> if timestamp m < timestamp old then m else old)"

lemma lockable_saved:
  assumes L: "lib_laws L" and m: "lock_request p m" and w: "lockable L p w"
    and fs: "lock_place fs p" "is_file fs p"
  shows "lockable L p (w\<lparr>ticks := k, files := saved_lock L t p (m, pm) fs\<rparr>)"
    and "held_lock L p (saved_lock L t p (m, pm) fs) = Some (m, pm)"
proof -
  have p: "managed p" using w by (simp add: lockable_def)
  have v: "lock_value (m, pm)"
    using m unfolding lock_request_def lock_value_def fst_conv by blast
  show held: "held_lock L p (saved_lock L t p (m, pm) fs) = Some (m, pm)"
    using lock_store.load_save [OF lock_files_store [OF L] p p v] fs(1)
    by (simp add: lock_place_def)
  show "lockable L p (w\<lparr>ticks := k, files := saved_lock L t p (m, pm) fs\<rparr>)"
    using w fs p held lock_place_saved(1) [OF p fs(1)] lock_path_not_managed [OF p p]
    by (auto simp: lockable_def is_file_iff map_of_saved_other isFinishedConnecting_def)
qed

lemma locked_file_place:
  assumes "managed p" and "lock_place fs p" and "is_file fs p"
  shows "lock_place (locked_file self owner p fs) p" "is_file (locked_file self owner p fs) p"
proof -
  have "no_dir fs p" "\<not> lock_name p"
    using assms managed_simps(1) [OF assms(1)] by (auto simp: managed_def no_dir_file)
  then show "lock_place (locked_file self owner p fs) p"
    using assms(2) by (auto simp: locked_file_def split: option.split intro!: lock_place_update)
  show "is_file (locked_file self owner p fs) p"
    using assms(3) by (auto simp: locked_file_def is_file_iff update_conv')
qed

lemma processLock_refines:
  assumes L: "lib_laws L" and w: "lockable L p w" and m: "lock_request p m"
  shows "\<exists>w'. processLockMessage L m w = (Inr True, w') \<and> lockable L p w'
    \<and> holder L p w' = Some (take_lock (holder L p w) m)"
proof -
  have p: "managed p" and tm: "targetFile m = p" and pl: "lock_place (files w) p" "is_file (files w) p"
    using w m by (simp_all add: lockable_def lock_request_def)
  show ?thesis
  proof (cases "map_of (files w) (the_lock_path p)")
    case None
    then have "held_lock L p (files w) = None" by (simp add: held_lock_def)
    then show ?thesis
      using processLock_free [of L m w] None w tm
        lockable_saved [OF L m w locked_file_place [OF p pl]]
      by (fastforce simp: holder_def take_lock_def)
  next
    case (Some n)
    then obtain old pm where h: "held_lock L p (files w) = Some (old, pm)"
      using w by (auto simp: lockable_def)
    show ?thesis
      using processLock_held [of L m w old pm] h w tm lockable_saved [OF L m w pl]
      by (fastforce simp: holder_def take_lock_def split: if_splits)
  qed
qed

text \<open>A sequence of lock messages, as the queue hands them over.\<close>

definition process_locks :: "lib \<Rightarrow> FileMessage list \<Rightarrow> (world, unit) prog" where
  "process_locks L = for_each (\<lambda>m. bnd (processLockMessage L m) (\<lambda>_. ret ()))"

lemma process_locks_holder:
  assumes L: "lib_laws L"
  shows "lockable L p w \<Longrightarrow> \<forall>m \<in> set ms. lock_request p m \<Longrightarrow>
    \<exists>w'. process_locks L ms w = (Inr (), w') \<and> lockable L p w'
      \<and> holder L p w' = foldl (\<lambda>h m. Some (take_lock h m)) (holder L p w) ms"
proof (induction ms arbitrary: w)
  case Nil
  then show ?case by (simp add: process_locks_def exec_simps)
next
  case (Cons m ms)
  obtain w1 where w1: "processLockMessage L m w = (Inr True, w1)" "lockable L p w1"
    "holder L p w1 = Some (take_lock (holder L p w) m)"
    using processLock_refines [OF L Cons.prems(1), of m] Cons.prems(2) by auto
  show ?case
    using Cons.IH [OF w1(2)] Cons.prems(2) w1
    by (simp add: process_locks_def exec_simps)
qed

lemma take_locks_least:
  "\<exists>h. foldl (\<lambda>h m. Some (take_lock h m)) (Some m) ms = Some h \<and> h \<in> set (m # ms)
    \<and> (\<forall>x \<in> set (m # ms). timestamp h \<le> timestamp x)"
proof (induction ms arbitrary: m)
  case Nil
  then show ?case by simp
next
  case (Cons x ms)
  let ?m = "if timestamp x < timestamp m then x else m"
  obtain h where "foldl (\<lambda>h m. Some (take_lock h m)) (Some ?m) ms = Some h"
    "h \<in> set (?m # ms)" "\<forall>y \<in> set (?m # ms). timestamp h \<le> timestamp y"
    using Cons.IH [of ?m] by blast
  then show ?case
    by (intro exI [of _ h]) (auto simp: take_lock_def split: if_splits)
qed


text \<open>Whatever the order in which lock requests for a file arrive, the file ends up locked by one
  with the earliest time stamp.\<close>

lemma lock_goes_to_earliest:
  assumes "lib_laws L" and "lockable L p w" and "holder L p w = None" and "ms \<noteq> []"
    and "\<forall>m \<in> set ms. lock_request p m"
  shows "\<exists>w' h. process_locks L ms w = (Inr (), w') \<and> holder L p w' = Some h \<and> h \<in> set ms
    \<and> (\<forall>m \<in> set ms. timestamp h \<le> timestamp m)"
proof -
  obtain m rest where ms: "ms = m # rest" using assms(4) by (cases ms) auto
  obtain w' where w': "process_locks L ms w = (Inr (), w')"
    "holder L p w' = foldl (\<lambda>h m. Some (take_lock h m)) None ms"
    using process_locks_holder [OF assms(1,2,5)] assms(3) by auto
  moreover have "foldl (\<lambda>h m. Some (take_lock h m)) None ms
      = foldl (\<lambda>h m. Some (take_lock h m)) (Some m) rest"
    by (simp add: ms take_lock_def)
  ultimately show ?thesis
    using take_locks_least [of m rest] ms by auto
qed

text \<open>C2: Two processes that get the same lock requests for a file, with different time stamps and in
  whatever order, both process them all and agree on the holder of the lock, the request with the
  earliest time stamp.\<close>

theorem nodes_agree_on_the_holder:
  assumes "lib_laws L" and "lockable L p v" and "holder L p v = None"
    and "lockable L p w" and "holder L p w = None"
    and "set ms = set ns" and "ms \<noteq> []" and "inj_on timestamp (set ms)"
    and "\<forall>m \<in> set ms. lock_request p m"
  shows "\<exists>v' w' h. process_locks L ms v = (Inr (), v') \<and> process_locks L ns w = (Inr (), w')
    \<and> holder L p v' = Some h \<and> holder L p w' = Some h
    \<and> h \<in> set ms \<and> (\<forall>m \<in> set ms. timestamp h \<le> timestamp m)"
proof -
  obtain v' h where v: "process_locks L ms v = (Inr (), v')" "holder L p v' = Some h" "h \<in> set ms"
    "\<forall>m \<in> set ms. timestamp h \<le> timestamp m"
    using lock_goes_to_earliest [OF assms(1-3,7,9)] by blast
  have "ns \<noteq> []" "\<forall>m \<in> set ns. lock_request p m" using assms(6,7,9) by auto
  then obtain w' k where w: "process_locks L ns w = (Inr (), w')" "holder L p w' = Some k" "k \<in> set ns"
    "\<forall>m \<in> set ns. timestamp k \<le> timestamp m"
    using lock_goes_to_earliest [OF assms(1,4,5)] by blast
  have "timestamp h = timestamp k" using v(3,4) w(3,4) assms(6) by (simp add: eq_iff)
  then have "k = h" using assms(6,8) v(3) w(3) by (auto dest: inj_onD)
  then show ?thesis using v w by blast
qed

text \<open>C21: Two lock requests with the same time stamp, which travels in whole seconds, that reach two
  processes in different orders leave each process with another holder: the lock is held twice.\<close>

theorem tied_locks_have_two_holders:
  assumes "lib_laws L" and "lockable L p v" and "holder L p v = None"
    and "lockable L p w" and "holder L p w = None"
    and "lock_request p a" and "lock_request p b" and "timestamp a = timestamp b"
  shows "\<exists>v' w'. process_locks L [a, b] v = (Inr (), v') \<and> process_locks L [b, a] w = (Inr (), w')
    \<and> holder L p v' = Some a \<and> holder L p w' = Some b"
  using process_locks_holder [OF assms(1,2), of "[a, b]"] process_locks_holder [OF assms(1,4), of "[b, a]"]
    assms(3,5-8)
  by (auto simp: take_lock_def)

text \<open>A process with a bookkeeping folder, and lock messages for its file \<open>d/f\<close>.\<close>

definition kept_world :: world where
  "kept_world = sample_world\<lparr>files :=
     [([''d''], Directory 0x1ED), ([''d'', ''.wnts''], Directory 0x1ED),
      ([''d'', ''f''], Regular 0x1A4 ''old'' 0)]\<rparr>"

definition file_msg :: "msg_type \<Rightarrow> ip_address \<Rightarrow> int \<Rightarrow> FileMessage" where
  "file_msg t owner ts =
     \<lparr>mtype = type_code t, receiverNode = ipv6Unspecified, senderNode = ipv6Unspecified,
      originatorNode = owner, messageHash = 0, targetFile = [''d'', ''f''], timestamp = ts\<rparr>"

lemma file_msg_simps [simp]:
  "targetFile (file_msg t owner ts) = [''d'', ''f'']" "timestamp (file_msg t owner ts) = ts"
  "originatorNode (file_msg t owner ts) = owner"
  by (simp_all add: file_msg_def)

lemma managed_d_f: "managed [''d'', ''f'']" "the_lock_path [''d'', ''f''] = [''d'', ''.wnts'', ''.lock.f'']"
proof -
  have fp: "file_path [''d'', ''f'']" by (simp add: file_path_def name_ok_def)
  then show "managed [''d'', ''f'']"
    by (simp add: managed_def resolve_def lock_name_def)
  show "the_lock_path [''d'', ''f''] = [''d'', ''.wnts'', ''.lock.f'']"
    using lockFilePath_eq [of "''f''" "''d''" "[]"] wf_path_file_path [OF fp]
    by (simp add: the_lock_path_def name_ok_def)
qed

lemma lockable_kept: "lockable L [''d'', ''f''] kept_world"
  by (simp add: lockable_def managed_d_f kept_world_def isFinishedConnecting_def is_file_def
      lock_place_def folder_there_def upt_rec entry_def writable_dir_def locks_usable_def
      lock_name_def)

lemma lock_request_msg:
  assumes "isValid owner"
  shows "lock_request [''d'', ''f''] (file_msg t owner (of_nat n * 1000000000)) \<longleftrightarrow> n < 2 ^ 63"
proof -
  have "lexically_normal [''d'', ''f''] = [''d'', ''f'']"
    by (simp add: lexically_normal_def)
  then show ?thesis
    using assms
    by (auto simp: lock_request_def file_msg_def base_fits_def isValid_def path_fits_def
        name_ok_def time_fits_def sys_to_time_t_def whole_seconds_def sys_from_time_t_def)
qed

theorem nodes_agree_on_the_holder_witness:
  "let a = file_msg lock (IPv6 7) 5000000000; b = file_msg lock (IPv6 8) 3000000000;
       c = file_msg lock (IPv6 9) 4000000000
   in \<exists>v w h. process_locks raw_lib [a, b, c] kept_world = (Inr (), v)
     \<and> process_locks raw_lib [b, c, a] (kept_world\<lparr>self_ip := IPv6 8\<rparr>) = (Inr (), w)
     \<and> holder raw_lib [''d'', ''f''] v = Some h \<and> holder raw_lib [''d'', ''f''] w = Some h
     \<and> originatorNode h = IPv6 8"
proof -
  let ?ms = "[file_msg lock (IPv6 7) 5000000000, file_msg lock (IPv6 8) 3000000000,
        file_msg lock (IPv6 9) 4000000000]"
  let ?ns = "[file_msg lock (IPv6 8) 3000000000, file_msg lock (IPv6 9) 4000000000,
        file_msg lock (IPv6 7) 5000000000]"
  let ?w = "kept_world\<lparr>self_ip := IPv6 8\<rparr>"
  have r: "\<forall>m \<in> set ?ms. lock_request [''d'', ''f''] m"
    using lock_request_msg [of "IPv6 7" lock 5] lock_request_msg [of "IPv6 8" lock 3]
      lock_request_msg [of "IPv6 9" lock 4]
    by (simp add: isValid_def)
  have h: "holder raw_lib [''d'', ''f''] kept_world = None"
    by (simp add: holder_def held_lock_def managed_d_f kept_world_def)
  have l: "lockable raw_lib [''d'', ''f''] ?w" "holder raw_lib [''d'', ''f''] ?w = None"
    using lockable_kept [of raw_lib] h by (simp_all add: lockable_def isFinishedConnecting_def holder_def)
  have s: "set ?ms = set ?ns" "inj_on timestamp (set ?ms)" by auto
  obtain v w h where "process_locks raw_lib ?ms kept_world = (Inr (), v)"
    "process_locks raw_lib ?ns ?w = (Inr (), w)"
    "holder raw_lib [''d'', ''f''] v = Some h" "holder raw_lib [''d'', ''f''] w = Some h" "h \<in> set ?ms"
    "\<forall>m \<in> set ?ms. timestamp h \<le> timestamp m"
    using nodes_agree_on_the_holder [OF raw.lib_laws_axioms lockable_kept h l s(1) _ s(2) r] by blast
  moreover from this have "originatorNode h = IPv6 8" by auto
  ultimately show ?thesis unfolding Let_def by blast
qed

theorem tied_locks_have_two_holders_witness:
  "let a = file_msg lock (IPv6 7) 5000000000; b = file_msg lock (IPv6 8) 5000000000
   in \<exists>v w. process_locks raw_lib [a, b] (kept_world\<lparr>self_ip := IPv6 7\<rparr>) = (Inr (), v)
     \<and> process_locks raw_lib [b, a] (kept_world\<lparr>self_ip := IPv6 8\<rparr>) = (Inr (), w)
     \<and> map_option originatorNode (holder raw_lib [''d'', ''f''] v) = Some (IPv6 7)
     \<and> map_option originatorNode (holder raw_lib [''d'', ''f''] w) = Some (IPv6 8)"
proof -
  let ?v = "\<lambda>ip. kept_world\<lparr>self_ip := ip\<rparr>"
  have r: "lock_request [''d'', ''f''] (file_msg lock (IPv6 7) 5000000000)"
    "lock_request [''d'', ''f''] (file_msg lock (IPv6 8) 5000000000)"
    using lock_request_msg [of "IPv6 7" lock 5] lock_request_msg [of "IPv6 8" lock 5]
    by (simp_all add: isValid_def)
  have l: "lockable raw_lib [''d'', ''f''] (?v ip)" "holder raw_lib [''d'', ''f''] (?v ip) = None" for ip
    using lockable_kept [of raw_lib]
    by (simp_all add: lockable_def isFinishedConnecting_def holder_def held_lock_def managed_d_f kept_world_def)
  show ?thesis
    using tied_locks_have_two_holders [OF raw.lib_laws_axioms l l r] unfolding Let_def by fastforce
qed


section \<open>Unlocking\<close>

text \<open>The unlock handler on a held lock.\<close>

definition unlocked_file :: "path \<Rightarrow> perms \<Rightarrow> filesystem \<Rightarrow> filesystem" where
  "unlocked_file p pm fs =
     (case map_of fs p of
        Some n \<Rightarrow> AList.update p (set_perms (new_perms pm Add (node_perms n)) n) fs
      | None \<Rightarrow> fs)"

lemma unlock_steps:
  assumes p: "managed p" and place: "lock_place (files w) p" and reg: "is_file (files w) p"
    and held: "held_lock L p (files w) = Some (old, pm)"
  shows "on_files (fs_exists (the_lock_path p)) w = (Inr True, w)"
    and "on_files (permissions p pm Add) w = (Inr (), w\<lparr>files := unlocked_file p pm (files w)\<rparr>)"
    and "on_files (fs_remove (the_lock_path p)) (w\<lparr>files := unlocked_file p pm (files w)\<rparr>)
      = (Inr True, w\<lparr>files := dropped_lock p (unlocked_file p pm (files w))\<rparr>)"
proof -
  let ?fs = "unlocked_file p pm (files w)"
  obtain pm' s u where n: "map_of (files w) p = Some (Regular pm' s u)"
    using reg by (auto simp: is_file_iff)
  obtain k where there: "map_of (files w) (the_lock_path p) = Some k"
    using held by (auto simp: held_lock_def split: option.splits)
  have ne: "p \<noteq> the_lock_path p" "p \<noteq> []" "resolve p = p" "lookup fs p = map_of fs p" for fs
    using lock_path_not_managed [OF p p] managed_simps [OF p] by auto
  show "on_files (fs_exists (the_lock_path p)) w = (Inr True, w)"
    using there by (simp add: exec_simps fs_simps lookup_lock p)
  show "on_files (permissions p pm Add) w = (Inr (), w\<lparr>files := ?fs\<rparr>)"
    using n ne by (simp add: exec_simps fs_simps unlocked_file_def)
  have "lock_place ?fs p"
    using place reg ne p by (auto simp: unlocked_file_def managed_def no_dir_file split: option.split
        intro!: lock_place_update)
  then have pw: "parent_writable ?fs (the_lock_path p)"
    using p by (simp add: parent_writable_def the_lock_path lock_place_def)
  have there': "map_of ?fs (the_lock_path p) = Some k"
    using there ne n by (simp add: unlocked_file_def update_conv')
  have "lock_name (the_lock_path p)" using p by (rule the_lock_path(4))
  then obtain x y z where "k = Regular x y z"
    using locks_usable_lookup [OF _ there] place unfolding lock_place_def by blast
  then show "on_files (fs_remove (the_lock_path p)) (w\<lparr>files := ?fs\<rparr>)
      = (Inr True, w\<lparr>files := dropped_lock p ?fs\<rparr>)"
    using there' pw p by (simp add: exec_simps fs_simps lookup_lock dropped_lock_def the_lock_path)
qed

lemma processUnlock_held:
  assumes w: "lockable L (targetFile m) w"
    and held: "held_lock L (targetFile m) (files w) = Some (old, pm)"
  shows "processUnlockMessage L m w = (Inr True,
    if originatorNode m = originatorNode old \<and> perms_of (files w) (targetFile m) AND writePerms = 0
    then w\<lparr>files := dropped_lock (targetFile m) (unlocked_file (targetFile m) pm (files w))\<rparr> else w)"
proof -
  let ?p = "targetFile m"
  have p: "managed ?p" and fin: "isFinishedConnecting w" and place: "lock_place (files w) ?p"
    and reg: "is_file (files w) ?p"
    using w by (auto simp: lockable_def)
  have "on_files (status_perms ?p) w = (Inr (perms_of (files w) ?p), w)"
    using reg managed_simps [OF p] by (auto simp: exec_simps fs_simps perms_of_def is_file_iff)
  then show ?thesis
    unfolding processUnlockMessage_def the_lockFilePath_def the_lock_path(1) [OF p]
    using fin by (simp add: bnd_exec finishedConnecting_exec loadLockFile_exec [OF p] held
        unlock_steps [OF p place reg held] need_exec ret_exec)
qed

lemma perms_of_unlocked:
  assumes "managed p" and "is_file fs p"
  shows "perms_of (dropped_lock p (unlocked_file p pm fs)) p = new_perms pm Add (perms_of fs p)"
proof -
  obtain x s t where "map_of fs p = Some (Regular x s t)"
    using assms(2) by (auto simp: is_file_iff)
  then show ?thesis
    using lock_path_not_managed [OF assms(1,1)]
    by (simp add: perms_of_def dropped_lock_def delete_conv' unlocked_file_def update_conv')
qed

lemma new_perms_none [simp]: "new_perms 0 Add x = x" "new_perms 0 Remove x = x"
  by (simp_all add: new_perms_def)

text \<open>An unlock request from a node that does not hold the lock changes nothing.\<close>

lemma unlock_needs_the_holder:
  assumes "lockable L (targetFile m) w" and "holder L (targetFile m) w = Some old"
    and "originatorNode m \<noteq> originatorNode old"
  shows "processUnlockMessage L m w = (Inr True, w)"
  using assms processUnlock_held [OF assms(1)] by (auto simp: holder_def)

text \<open>C25: Once another node has locked a file and unlocked it again, the file has lost its write
  permissions for good: the lock handler removes them before it records the permissions to restore,
  so it records none.\<close>

theorem remote_lock_is_never_undone:
  assumes L: "lib_laws L" and w: "lockable L p w" and h: "holder L p w = None"
    and m: "lock_request p m" and u: "targetFile u = p"
    and o: "originatorNode m \<noteq> self_ip w" "originatorNode u = originatorNode m"
  shows "\<exists>w'. bnd (processLockMessage L m) (\<lambda>_. processUnlockMessage L u) w = (Inr True, w')
    \<and> map_of (files w') (the_lock_path p) = None \<and> perms_of (files w') p AND writePerms = 0"
proof -
  have p: "managed p" and pl: "lock_place (files w) p" "is_file (files w) p" and tm: "targetFile m = p"
    using w m by (simp_all add: lockable_def lock_request_def)
  have free: "map_of (files w) (the_lock_path p) = None"
    using w h by (auto simp: lockable_def holder_def)
  let ?fs = "locked_file (self_ip w) (originatorNode m) p (files w)"
  have zero: "perms_of ?fs p AND writePerms = 0"
    using pl(2) o(1) by (auto simp: is_file_iff perms_of_def locked_file_def update_conv'
        new_perms_def writePerms_def intro!: bit_word_eqI simp: bit_simps)
  note pl1 = locked_file_place [OF p pl, of "self_ip w" "originatorNode m"]
  obtain t where t: "processLockMessage L m w = (Inr True, w\<lparr>ticks := ticks w + 2,
      files := saved_lock L t p (m, 0) ?fs\<rparr>)"
    using processLock_free [of L m w] w free tm zero by auto
  let ?w1 = "w\<lparr>ticks := ticks w + 2, files := saved_lock L t p (m, 0) ?fs\<rparr>"
  note s1 = lockable_saved [OF L m w pl1, where t = t and pm = 0]
  have z1: "perms_of (files ?w1) p = perms_of ?fs p"
    using lock_path_not_managed [OF p p] p by (simp add: perms_of_def map_of_saved_other)
  have "processUnlockMessage L u ?w1 = (Inr True,
      ?w1\<lparr>files := dropped_lock p (unlocked_file p 0 (files ?w1))\<rparr>)"
    using processUnlock_held [of L u ?w1 m 0] s1 u o z1 zero by simp
  moreover have "perms_of (dropped_lock p (unlocked_file p 0 (files ?w1))) p = perms_of ?fs p"
    using perms_of_unlocked [OF p, of "files ?w1" 0] s1(1) [of "ticks w + 2"] z1
    by (simp add: lockable_def)
  ultimately show ?thesis
    using t zero by (auto simp: exec_simps dropped_lock_def delete_conv')
qed

text \<open>The lock a process took itself is not released by its own unlock: its file is still
  writable, which the unlock handler takes for an unlocked file, and the lock file stays.\<close>

lemma own_lock_is_never_released:
  assumes L: "lib_laws L" and w: "lockable L p w" and h: "holder L p w = None"
    and m: "lock_request p m" and u: "targetFile u = p"
    and o: "originatorNode m = self_ip w" "originatorNode u = self_ip w"
    and wr: "perms_of (files w) p AND writePerms \<noteq> 0"
  shows "\<exists>w'. bnd (processLockMessage L m) (\<lambda>_. processUnlockMessage L u) w = (Inr True, w')
    \<and> holder L p w' = Some m"
proof -
  have p: "managed p" and pl: "lock_place (files w) p" "is_file (files w) p" and tm: "targetFile m = p"
    using w m by (simp_all add: lockable_def lock_request_def)
  have free: "map_of (files w) (the_lock_path p) = None"
    using w h by (auto simp: lockable_def holder_def)
  have "locked_file (self_ip w) (originatorNode m) p (files w) = files w"
    using o by (auto simp: locked_file_def split: option.split)
  then obtain t pm where t: "processLockMessage L m w = (Inr True, w\<lparr>ticks := ticks w + 2,
      files := saved_lock L t p (m, pm) (files w)\<rparr>)"
    using processLock_free [of L m w] w free tm by auto
  let ?w1 = "w\<lparr>ticks := ticks w + 2, files := saved_lock L t p (m, pm) (files w)\<rparr>"
  note s1 = lockable_saved [OF L m w pl, where t = t and pm = pm]
  have "perms_of (files ?w1) p AND writePerms \<noteq> 0"
    using lock_path_not_managed [OF p p] p wr by (simp add: perms_of_def map_of_saved_other)
  then have "processUnlockMessage L u ?w1 = (Inr True, ?w1)"
    using processUnlock_held [of L u ?w1 m pm] s1 u by simp
  then show ?thesis
    using t s1(2) by (simp add: exec_simps holder_def)
qed


lemma sample_requests:
  "lock_request [''d'', ''f''] (file_msg t (IPv6 7) 5000000000)"
  "lock_request [''d'', ''f''] (file_msg t (IPv6 9) 5000000000)"
  using lock_request_msg [of "IPv6 7" t 5] lock_request_msg [of "IPv6 9" t 5]
  by (simp_all add: isValid_def)

lemma kept_free: "holder L [''d'', ''f''] kept_world = None" "self_ip kept_world = IPv6 9"
  by (simp_all add: holder_def held_lock_def managed_d_f kept_world_def)

theorem remote_lock_is_never_undone_witness:
  "\<exists>w'. bnd (processLockMessage raw_lib (file_msg lock (IPv6 7) 5000000000))
        (\<lambda>_. processUnlockMessage raw_lib (file_msg unlock (IPv6 7) 6000000000)) kept_world
      = (Inr True, w')
    \<and> perms_of (files kept_world) [''d'', ''f''] AND writePerms \<noteq> 0
    \<and> perms_of (files w') [''d'', ''f''] AND writePerms = 0"
proof -
  have "perms_of (files kept_world) [''d'', ''f''] AND writePerms \<noteq> 0"
    by (simp add: perms_of_def kept_world_def writePerms_def)
  then show ?thesis
    using remote_lock_is_never_undone [OF raw.lib_laws_axioms lockable_kept kept_free(1)
        sample_requests(1), of "file_msg unlock (IPv6 7) 6000000000" lock]
    by (auto simp: kept_free)
qed


lemma kept_locked:
  "\<exists>w'. process_locks raw_lib [file_msg lock (IPv6 7) 5000000000] kept_world = (Inr (), w')
    \<and> lockable raw_lib [''d'', ''f''] w'
    \<and> holder raw_lib [''d'', ''f''] w' = Some (file_msg lock (IPv6 7) 5000000000)"
  using process_locks_holder [OF raw.lib_laws_axioms lockable_kept,
      of "[file_msg lock (IPv6 7) 5000000000]"]
  by (auto simp: sample_requests kept_free take_lock_def)


end
