(* ===== verification/Handlers.thy ===== *)
theory Handlers
  imports Locks
begin

text \<open>
  The other message handlers of \<open>src/src/message_manager.cpp\<close>: deletions, content changes, the
  initial synchronisation, connecting, losing a link, disconnecting and resending, with
  \<open>Peer::connect\<close> of \<open>src/src/peer.hpp\<close>.  Each returns whether the message was processed
  (\<open>False\<close> asks for it to be queued again).
\<close>

section \<open>File changes\<close>

text \<open>
  The check both file handlers start with: \<open>None\<close> when another node holds the lock, otherwise the
  permissions to add while the file is changed.
\<close>

definition check_lock :: "lib \<Rightarrow> path \<Rightarrow> ip_address \<Rightarrow> (world, perms option) prog" where
  "check_lock L target originator =
     bnd (the_lockFilePath target) (\<lambda>lockPath.
     bnd (on_files (fs_exists lockPath)) (\<lambda>locked.
     if \<not> locked then ret (Some perms_none) else
     bnd (loadLockFile L target) (\<lambda>(lock, perms).
     bnd (gets self_ip) (\<lambda>self.
     if originatorNode lock \<noteq> self then ret None
     else if originatorNode lock \<noteq> originator then ret (Some perms_none)
     else ret (Some perms)))))"

definition the_wntsPath :: "path \<Rightarrow> (world, path) prog" where
  "the_wntsPath p = need ''*path.begin()'' (wntsPath p)"

definition processDeleteFileMessage :: "lib \<Rightarrow> FileMessage \<Rightarrow> (world, bool) prog" where
  "processDeleteFileMessage L m =
     bnd finishedConnecting (\<lambda>finished.
     if \<not> finished then ret False else
     bnd (check_lock L (targetFile m) (originatorNode m)) (\<lambda>ok. case ok of
       None \<Rightarrow> ret True
     | Some perms \<Rightarrow>
         bnd (on_files (permissions (targetFile m) perms Add)) (\<lambda>_.
         bnd (on_files (fs_remove (targetFile m))) (\<lambda>_.
         bnd (the_lockFilePath (targetFile m)) (\<lambda>lockPath.
         bnd (on_files (fs_remove lockPath)) (\<lambda>_.
         bnd (the_wntsPath (targetFile m)) (\<lambda>wnts.
         bnd (on_files (fs_remove wnts)) (\<lambda>_. ret True))))))))"

definition processContentFileMessage :: "lib \<Rightarrow> FileContentMessage \<Rightarrow> (world, bool) prog" where
  "processContentFileMessage L m =
     bnd finishedConnecting (\<lambda>finished.
     if \<not> finished then ret False else
     bnd (check_lock L (targetFile m) (originatorNode m)) (\<lambda>ok. case ok of
       None \<Rightarrow> ret True
     | Some perms \<Rightarrow>
         bnd (on_files (permissions (targetFile m) perms Add)) (\<lambda>_.
         bnd (on_files (create_directories (remove_filename (targetFile m)))) (\<lambda>_.
         bnd (write_out (targetFile m) (fileContent m)) (\<lambda>_.
         bnd (on_files (permissions (targetFile m) perms Remove)) (\<lambda>_. ret True))))))"

section \<open>The initial synchronisation\<close>

definition processInitialFileSyncMessage :: "FileInitialSyncMessage \<Rightarrow> (world, bool) prog" where
  "processInitialFileSyncMessage m =
     bnd (updates (\<lambda>w. w\<lparr>totalInitialFiles := total m,
            receivedInitialFiles := receivedInitialFiles w + 1\<rparr>)) (\<lambda>_.
     bnd (on_files (create_directories (remove_filename (targetFile m)))) (\<lambda>_.
     bnd (write_out (targetFile m) (fileContent m)) (\<lambda>_. ret True)))"

text \<open>\<open>std::getline(fin, s, '\0')\<close> on a freshly opened file: what comes before the first NUL.\<close>

definition getline_nul :: "string option \<Rightarrow> string" where
  "getline_nul content =
     (case content of None \<Rightarrow> '''' | Some s \<Rightarrow> takeWhile (\<lambda>c. c \<noteq> CHR 0x00) s)"

definition new_File :: "msg_type \<Rightarrow> path \<Rightarrow> int \<Rightarrow> FileMessage" where
  "new_File t p ts = Message.extend (new_Message t) (FileMessage.fields p ts)"

definition sync_message :: "path \<Rightarrow> int \<Rightarrow> string \<Rightarrow> size_t \<Rightarrow> size_t \<Rightarrow> any_message" where
  "sync_message p ts content n i =
     MSync (FileContentMessage.extend
       (FileMessage.extend (new_File initialSync p ts) (FileContentMessage.fields content))
       (FileInitialSyncMessage.fields n i))"

definition send_sync :: "lib \<Rightarrow> ip_address \<Rightarrow> size_t \<Rightarrow> nat \<times> path \<Rightarrow> (world, unit) prog" where
  "send_sync L destination n = (\<lambda>(i, p).
     bnd now (\<lambda>ts.
     bnd (on_files (read_file p)) (\<lambda>content.
     bnd (sendMessage L (sync_message p ts (getline_nul content) n (of_nat i)) destination) (\<lambda>_.
     bnd (the_lockFilePath p) (\<lambda>lockPath.
     bnd (on_files (fs_exists lockPath)) (\<lambda>locked.
     if \<not> locked then ret () else
     bnd (loadLockFile L p) (\<lambda>(lock, _).
     bnd now (\<lambda>ts. sendMessage L (MFile (lock\<lparr>timestamp := ts\<rparr>)) destination))))))))"

definition processInitialFileSyncRequestMessage :: "lib \<Rightarrow> Message \<Rightarrow> (world, bool) prog" where
  "processInitialFileSyncRequestMessage L m =
     bnd finishedConnecting (\<lambda>finished.
     if \<not> finished then ret False else
     bnd (gets folders) (\<lambda>managed_folders.
     bnd (on_files (enumerateAllFiles managed_folders)) (\<lambda>paths.
     bnd (for_each (send_sync L (originatorNode m) (of_nat (length paths))) (List.enumerate 0 paths))
       (\<lambda>_. ret True))))"

section \<open>Joining a network\<close>

definition processConnectMessage :: "ConnectMessage \<Rightarrow> (world, bool) prog" where
  "processConnectMessage m =
     bnd (updates (\<lambda>w. w\<lparr>backup_peers := backupPeers m, folders := managedPaths m\<rparr>)) (\<lambda>_.
     bnd (for_each (\<lambda>p. on_files (create_directories p)) (managedPaths m)) (\<lambda>_.
     bnd (on_files (enumerateAllFiles (managedPaths m))) (\<lambda>paths.
     bnd (for_each (\<lambda>p. bnd (the_wntsPath p) (\<lambda>wnts.
            bnd (on_files (fs_remove p)) (\<lambda>_.
            bnd (on_files (fs_remove wnts)) (\<lambda>_. ret ())))) paths) (\<lambda>_.
     bnd (updates (\<lambda>w. w\<lparr>receivedInitialFiles := 0, totalInitialFiles := 1\<rparr>)) (\<lambda>_.
     ret True)))))"

section \<open>Connecting to a peer\<close>

definition attempt :: "ip_address \<Rightarrow> 16 word \<Rightarrow> (world, bool) prog" where
  "attempt ip port = (\<lambda>w. (Inr (dials w ip port (ticks w)), w\<lparr>ticks := Suc (ticks w)\<rparr>))"

primrec dial :: "ip_address \<Rightarrow> 16 word \<Rightarrow> nat \<Rightarrow> (world, bool) prog" where
  "dial ip port 0 = ret False"
| "dial ip port (Suc n) =
     bnd (attempt ip port) (\<lambda>open. if open then ret True else dial ip port n)"

definition connect_peer :: "ip_address \<Rightarrow> 16 word \<Rightarrow> size_t \<Rightarrow> (world, peer) prog" where
  "connect_peer ip port retryAttempts =
     (let retryAttempts = (if retryAttempts = 0 then retryAttempts - 1 else retryAttempts) in
      bnd (dial ip port (unat retryAttempts)) (\<lambda>open.
      if \<not> open then throw (RuntimeError ''Failed to connect'')
      else ret (new_peer ip port)))"

section \<open>Losing a link\<close>


text \<open>\<open>try_backups pre bs\<close>: the loop over the backup peers at \<open>bs\<close>, after \<open>pre\<close>.\<close>

primrec try_backups ::
    "(ip_address \<times> 16 word) list \<Rightarrow> (ip_address \<times> 16 word) list \<Rightarrow> (world, unit) prog" where
  "try_backups pre [] = ret ()"
| "try_backups pre (b # bs) =
     (if isValid (fst b)
      then catch
        (bnd (connect_peer (fst b) (snd b) 3) (\<lambda>p.
         updates (\<lambda>w. w\<lparr>peers := insert_front p (peers w), gatewayIP := fst b, backup_peers := pre @ bs\<rparr>)))
        (\<lambda>e. case e of RuntimeError _ \<Rightarrow> try_backups (pre @ [b]) bs | _ \<Rightarrow> throw e)
      else try_backups (pre @ [b]) bs)"

definition remove_peer :: "ip_address \<Rightarrow> (world, ip_address) prog" where
  "remove_peer lost =
     bnd (gets (\<lambda>w. first_index (\<lambda>p. remoteIP p = lost) (peers w))) (\<lambda>index.
     bnd (updates (\<lambda>w. w\<lparr>peers := ask_until lost (peers w)\<rparr>)) (\<lambda>_. case index of
       None \<Rightarrow> ret NoAddress
     | Some i \<Rightarrow>
         bnd (gets (\<lambda>w. remoteIP (peers w ! i))) (\<lambda>removedIP.
         bnd (updates (\<lambda>w. w\<lparr>peers := erase_peer i (peers w)\<rparr>)) (\<lambda>_.
         bnd (gets gatewayIP) (\<lambda>gateway.
         bnd (if removedIP = gateway
              then bnd (updates (\<lambda>w. w\<lparr>gatewayIP := ipv6Unspecified\<rparr>)) (\<lambda>_.
                   bnd (gets backup_peers) (\<lambda>bs. try_backups [] bs))
              else ret ()) (\<lambda>_. ret removedIP))))))"

definition processLinkLostMessage :: "lib \<Rightarrow> Message \<Rightarrow> (world, bool) prog" where
  "processLinkLostMessage L m =
     bnd (remove_peer (originatorNode m)) (\<lambda>removedIP.
     bnd (if isValid removedIP
          then broadcast L (MBase ((new_Message disconnect)\<lparr>originatorNode := removedIP\<rparr>))
          else ret ()) (\<lambda>_. ret True))"

section \<open>A peer disconnects\<close>

text \<open>The loop that erases by index: the element that moves into the erased place is skipped.\<close>

fun erase_backups ::
    "ip_address \<Rightarrow> (ip_address \<times> 16 word) list \<Rightarrow> (ip_address \<times> 16 word) list" where
  "erase_backups ip [] = []"
| "erase_backups ip [b] = (if fst b = ip then [] else [b])"
| "erase_backups ip (b # c # bs) =
     (if fst b = ip then c # erase_backups ip bs else b # erase_backups ip (c # bs))"

definition unlock_message :: "path \<Rightarrow> ip_address \<Rightarrow> any_message" where
  "unlock_message p originator =
     MFile ((new_File unlock p 0)\<lparr>originatorNode := originator\<rparr>)"

definition processDisconnectMessage :: "lib \<Rightarrow> Message \<Rightarrow> (world, bool) prog" where
  "processDisconnectMessage L m =
     bnd finishedConnecting (\<lambda>finished.
     if \<not> finished then ret False else
     bnd (updates (\<lambda>w. w\<lparr>backup_peers := erase_backups (originatorNode m) (backup_peers w)\<rparr>)) (\<lambda>_.
     bnd (gets folders) (\<lambda>managed_folders.
     bnd (on_files (enumerateAllFiles managed_folders)) (\<lambda>paths.
     bnd (for_each (\<lambda>p. sendMessage L (unlock_message p (originatorNode m)) ipv6Loopback) paths)
       (\<lambda>_. ret True)))))"

section \<open>Resending\<close>

text \<open>
  \<open>reference_cast\<close> of a message to one of its classes; to a class the object is not an instance of
  it is undefined.  A copy as a base class loses the rest.
\<close>

definition as_payload :: "any_message \<Rightarrow> PayloadMessage option" where
  "as_payload m = (case m of MPayload x \<Rightarrow> Some x | _ \<Rightarrow> None)"

definition as_resend :: "any_message \<Rightarrow> ResendRequestMessage option" where
  "as_resend m = (case m of MResend x \<Rightarrow> Some x | _ \<Rightarrow> None)"

definition as_file :: "any_message \<Rightarrow> FileMessage option" where
  "as_file m =
     (case m of MFile x \<Rightarrow> Some x | MContent x \<Rightarrow> Some (FileMessage.truncate x)
      | MSync x \<Rightarrow> Some (FileMessage.truncate x) | _ \<Rightarrow> None)"

definition as_content :: "any_message \<Rightarrow> FileContentMessage option" where
  "as_content m =
     (case m of MContent x \<Rightarrow> Some x | MSync x \<Rightarrow> Some (FileContentMessage.truncate x) | _ \<Rightarrow> None)"

definition as_sync :: "any_message \<Rightarrow> FileInitialSyncMessage option" where
  "as_sync m = (case m of MSync x \<Rightarrow> Some x | _ \<Rightarrow> None)"

definition as_connect :: "any_message \<Rightarrow> ConnectMessage option" where
  "as_connect m = (case m of MConnect x \<Rightarrow> Some x | _ \<Rightarrow> None)"

definition cast :: "'a option \<Rightarrow> (world, 'a) prog" where
  "cast x = need ''reference_cast'' x"

definition resend :: "lib \<Rightarrow> any_message \<Rightarrow> ip_address \<Rightarrow> (world, unit) prog" where
  "resend L m destination =
     (case msg_kind m of
        Some payload_t \<Rightarrow> bnd (cast (as_payload m)) (\<lambda>x. sendMessage L (MPayload x) destination)
      | Some lock \<Rightarrow> bnd (cast (as_file m)) (\<lambda>x. sendMessage L (MFile x) destination)
      | Some unlock \<Rightarrow> bnd (cast (as_file m)) (\<lambda>x. sendMessage L (MFile x) destination)
      | Some deleteFile \<Rightarrow> bnd (cast (as_file m)) (\<lambda>x. sendMessage L (MFile x) destination)
      | Some contentChange \<Rightarrow> bnd (cast (as_content m)) (\<lambda>x. sendMessage L (MContent x) destination)
      | Some initialSync \<Rightarrow> bnd (cast (as_sync m)) (\<lambda>x. sendMessage L (MSync x) destination)
      | Some initialSyncRequest \<Rightarrow> sendMessage L (MBase (header m)) destination
      | Some connect \<Rightarrow> bnd (cast (as_connect m)) (\<lambda>x. sendMessage L (MConnect x) destination)
      | Some disconnect \<Rightarrow> sendMessage L (MBase (header m)) destination
      | Some linkLost \<Rightarrow> sendMessage L (MBase (header m)) destination
      | _ \<Rightarrow> throw (RuntimeError ''Unrecognized message type''))"

primrec resend_loop ::
    "lib \<Rightarrow> ResendRequestMessage \<Rightarrow> any_message option list \<Rightarrow> (world, bool) prog" where
  "resend_loop L request [] = ret True"
| "resend_loop L request (x # xs) =
     bnd (need ''null unique_ptr'' x) (\<lambda>m.
     if messageHash (header m) = requestedHash request
     then bnd (resend L m (originalDestination request)) (\<lambda>_. ret True)
     else resend_loop L request xs)"

definition processResendRequestMessage :: "lib \<Rightarrow> ResendRequestMessage \<Rightarrow> (world, bool) prog" where
  "processResendRequestMessage L request =
     bnd (gets self_ip) (\<lambda>self.
     if originatorNode request = self then ret True else
     bnd (gets (\<lambda>w. range_for (oldMessages w))) (\<lambda>visited. case visited of
       None \<Rightarrow> throw OutOfFuel
     | Some xs \<Rightarrow> resend_loop L request xs))"

end
