(* ===== verification/Processing.thy ===== *)
theory Processing
  imports Handlers
begin

text \<open>
  \<open>processNextMessage\<close> of \<open>src/src/message_manager.hpp\<close> and the destructor of \<open>MessageManager\<close>, and
  the invariant that makes the casts of the message classes sound: what is queued and what is
  cached has the class its type tag says.
\<close>

section \<open>Processing a message\<close>

text \<open>What to do with a processed message: \<open>None\<close> is the code's -1, no requeue.\<close>

definition requeue :: "size_t \<Rightarrow> bool \<Rightarrow> (world, size_t option) prog" where
  "requeue priority ok = ret (if ok then None else Some (priority + 1))"

definition dispatch :: "lib \<Rightarrow> any_message \<Rightarrow> (world, size_t option) prog" where
  "dispatch L msg =
     (case msg_kind msg of
        Some payload_t \<Rightarrow> bnd (cast (as_payload msg)) (\<lambda>_. ret None)
      | Some resendRequest \<Rightarrow> bnd (cast (as_resend msg)) (\<lambda>m.
          bnd (processResendRequestMessage L m) (requeue resendPriority))
      | Some lock \<Rightarrow> bnd (cast (as_file msg)) (\<lambda>m.
          bnd (processLockMessage L m) (requeue lockPriority))
      | Some unlock \<Rightarrow> bnd (cast (as_file msg)) (\<lambda>m.
          bnd (processUnlockMessage L m) (requeue lockPriority))
      | Some deleteFile \<Rightarrow> bnd (cast (as_file msg)) (\<lambda>m.
          bnd (processDeleteFileMessage L m) (requeue filePriority))
      | Some contentChange \<Rightarrow> bnd (cast (as_content msg)) (\<lambda>m.
          bnd (processContentFileMessage L m) (requeue filePriority))
      | Some initialSync \<Rightarrow> bnd (cast (as_sync msg)) (\<lambda>m.
          bnd (processInitialFileSyncMessage m) (requeue lockPriority))
      | Some initialSyncRequest \<Rightarrow>
          bnd (processInitialFileSyncRequestMessage L (header msg)) (requeue lockPriority)
      | Some connect \<Rightarrow> bnd (cast (as_connect msg)) (\<lambda>m.
          bnd (processConnectMessage m) (requeue connectPriority))
      | Some disconnect \<Rightarrow>
          bnd (processDisconnectMessage L (header msg)) (requeue disconnectPriority)
      | Some linkLost \<Rightarrow> bnd (processLinkLostMessage L (header msg)) (requeue resendPriority)
      | _ \<Rightarrow> throw (RuntimeError ''Unrecognized message type''))"

definition processNextMessage :: "lib \<Rightarrow> (world, unit) prog" where
  "processNextMessage L =
     bnd (gets messageQueue) (\<lambda>q.
     if pq_empty q then ret () else
     bnd (need ''PrioComp'' (pq_top q)) (\<lambda>(_, msg).
     bnd (updates (\<lambda>w. w\<lparr>messageQueue := pq_pop q\<rparr>)) (\<lambda>_.
     bnd (dispatch L msg) (\<lambda>requeuePriority. case requeuePriority of
       None \<Rightarrow> remember msg
     | Some p \<Rightarrow> enqueue p msg))))"

text \<open>The destructor: work off the queue (a loop that may not end, hence the fuel), then release the
  locks that are left.\<close>

primrec drain :: "lib \<Rightarrow> nat \<Rightarrow> (world, unit) prog" where
  "drain L 0 = throw OutOfFuel"
| "drain L (Suc fuel) =
     bnd (gets messageQueue) (\<lambda>q.
     if pq_empty q then ret () else bnd (processNextMessage L) (\<lambda>_. drain L fuel))"

definition release_lock :: "lib \<Rightarrow> path \<Rightarrow> (world, unit) prog" where
  "release_lock L path =
     bnd (the_lockFilePath path) (\<lambda>lockPath.
     bnd (on_files (fs_exists lockPath)) (\<lambda>locked.
     if \<not> locked then ret () else
     bnd (loadLockFile L path) (\<lambda>(_, permsToAdd).
     bnd (on_files (permissions path permsToAdd Add)) (\<lambda>_.
     bnd (on_files (fs_remove lockPath)) (\<lambda>_. ret ())))))"

definition destroy_MessageManager :: "lib \<Rightarrow> nat \<Rightarrow> (world, unit) prog" where
  "destroy_MessageManager L fuel =
     bnd (drain L fuel) (\<lambda>_.
     bnd (gets folders) (\<lambda>managed_folders.
     bnd (on_files (enumerateAllFiles managed_folders)) (for_each (release_lock L))))"

section \<open>Queued and cached messages have the class their type says\<close>

definition queue_typed :: "world \<Rightarrow> bool" where
  "queue_typed w \<longleftrightarrow> (\<forall>x \<in> set (messageQueue w). well_typed (snd x))"

definition cells_typed :: "world \<Rightarrow> bool" where
  "cells_typed w \<longleftrightarrow> (\<forall>x \<in> set (cells (oldMessages w)). pred_option well_typed x)"

text \<open>\<open>typed Q\<close> adds a predicate of the files, for what the lock files hold.\<close>

definition typed :: "(filesystem \<Rightarrow> bool) \<Rightarrow> world \<Rightarrow> bool" where
  "typed Q w \<longleftrightarrow> cache_ok w \<and> queue_typed w \<and> cells_typed w \<and> Q (files w)"

abbreviation (input) bad_cast :: "exn set" where
  "bad_cast \<equiv> {Undefined ''reference_cast'', Undefined ''PrioComp''}"

lemma typed_cong:
  "messageQueue v = messageQueue w \<Longrightarrow> oldMessages v = oldMessages w \<Longrightarrow> files v = files w \<Longrightarrow>
    typed Q v = typed Q w"
  by (simp add: typed_def cache_ok_def queue_typed_def cells_typed_def)

lemma typed_simps [simp]:
  "typed Q (w\<lparr>ticks := k\<rparr>) = typed Q w" "typed Q (w\<lparr>outbox := xs\<rparr>) = typed Q w"
  by (rule typed_cong, simp, simp, simp)+

lemma typed_files: "typed Q w \<Longrightarrow> R fs \<Longrightarrow> typed R (w\<lparr>files := fs\<rparr>)"
  by (simp add: typed_def cache_ok_def queue_typed_def cells_typed_def)

lemma safely_typed_updates:
  "(\<And>w. messageQueue (f w) = messageQueue w) \<Longrightarrow> (\<And>w. oldMessages (f w) = oldMessages w) \<Longrightarrow>
    (\<And>w. files (f w) = files w) \<Longrightarrow> safely (typed Q) E (updates f)"
  by (rule safely_updates) (metis typed_cong)

lemma safely_on_files:
  assumes "safely Q E m"
  shows "safely (typed Q) E (on_files m)"
proof (rule safelyI)
  fix w
  assume w: "typed Q w"
  then have "Q (snd (m (files w))) \<and> fst (m (files w)) \<notin> Inl ` E"
    using assms by (simp add: safely_def typed_def)
  then show "typed Q (snd (on_files m w)) \<and> fst (on_files m w) \<notin> Inl ` E"
    using w by (cases "m (files w)") (auto simp: on_files_def intro: typed_files)
qed

lemma safely_now [safely_intro]: "safely (typed Q) E now"
  by (rule safelyI) (auto simp: exec_simps)

lemma safely_enqueue [safely_intro]: "well_typed m \<Longrightarrow> safely (typed Q) E (enqueue p m)"
  by (rule safelyI) (auto simp: exec_simps typed_def cache_ok_def queue_typed_def cells_typed_def
      pq_emplace_def)

lemma safely_peer_send [safely_intro]: "safely (typed Q) E (peer_send data ip)"
  unfolding peer_send_def by (rule safely_typed_updates) simp_all

lemma safely_remember [safely_intro]: "well_typed m \<Longrightarrow> safely (typed Q) E (remember m)"
proof (rule safelyI)
  fix w
  assume m: "well_typed m" and w: "typed Q w"
  then have ok: "cache_ok w" by (simp add: typed_def)
  have "set (cells (emplace_back (Some m) (oldMessages w))) \<subseteq> insert (Some m) (set (cells (oldMessages w)))"
    using set_update_subset_insert [of "cells (oldMessages w)" "cb_end (oldMessages w)" "Some m"]
    by (simp add: emplace_back_def Let_def)
  then show "typed Q (snd (remember m w)) \<and> fst (remember m w) \<notin> Inl ` E"
    using m w ok cache_ok_remember [OF ok, of "Some m"]
    by (auto simp: remember_exec typed_def queue_typed_def cells_typed_def)
qed

lemma safely_asked_for [safely_intro]: "safely (typed Q) E (updates (asked_for d))"
  by (rule safely_typed_updates) simp_all

text \<open>The file operations never perform a cast.\<close>

lemma safely_files [safely_intro]:
  "safely P bad_cast (fs_exists p)" "safely P bad_cast (status_perms p)" "safely P bad_cast (read_file p)"
  "safely P bad_cast (gets f)"
  unfolding fs_exists_def status_perms_def read_file_def by (intro safely_intro)+

lemma safely_make_dirs: "safely (\<lambda>_. True) bad_cast (make_dirs p pre es)"
proof (induction es arbitrary: pre)
  case Nil
  then show ?case by (simp add: safely_ret)
next
  case (Cons e es)
  then show ?case
    by (auto intro!: safely_intro safely_updates split: option.split node.split)
qed

lemma safely_enumerate: "safely P bad_cast (enumerateAllFiles fds)"
  by (induction fds) (auto simp: enumerate_folder_def intro!: safely_intro split: option.split node.split)

lemma safely_file_changes:
  "safely (\<lambda>_. True) bad_cast (permissions p prms opt)" "safely (\<lambda>_. True) bad_cast (fs_remove p)"
  "safely (\<lambda>_. True) bad_cast (create_directories p)" "safely (\<lambda>_. True) bad_cast (write_file p s t)"
  by (auto simp: permissions_def fs_remove_def remove_entry_def create_directories_def write_file_def
      intro!: safely_intro safely_updates safely_make_dirs split: option.split node.split)

lemmas safely_on_files_intro [safely_intro] =
  safely_files [THEN safely_on_files] safely_file_changes [THEN safely_on_files]
  safely_enumerate [THEN safely_on_files]

section \<open>Sending and receiving\<close>

lemma safely_draw_time [safely_intro]: "safely (typed Q) E (draw_time m)"
  unfolding draw_time_def by (intro safely_intro)

lemma safely_archive_load:
  assumes "CerealException \<notin> E" and "\<And>x r. load data = Some (x, r) \<Longrightarrow> safely P E (f x)"
  shows "safely P E (bnd (archive_load load data) f)"
  using assms by (auto simp: archive_load_def safely_throw split: option.split)

lemma safely_validate:
  assumes "\<And>d. safely (typed Q) E (sendf (resend_request m) d)" and "well_typed m"
  shows "safely (typed Q) E (validate_and_enqueue L sendf m off p)"
  unfolding validate_and_enqueue_def validateMessageHash_def
  by (intro safely_intro assms)

context lib_laws
begin

lemma get_u8_Cons: "get_u8 L (c # r) = Some (c, r)"
  using get_put_laws(1) [of c r] by (simp add: raw_u8)

lemma load_types:
  "load_Message L (c # r) = Some (m0, r0) \<Longrightarrow> mtype m0 = c"
  "load_Payload L (c # r) = Some (m1, r1) \<Longrightarrow> mtype m1 = c"
  "load_Resend L (c # r) = Some (m2, r2) \<Longrightarrow> mtype m2 = c"
  "load_File L (c # r) = Some (m3, r3) \<Longrightarrow> mtype m3 = c"
  "load_Content L (c # r) = Some (m4, r4) \<Longrightarrow> mtype m4 = c"
  "load_Sync L (c # r) = Some (m5, r5) \<Longrightarrow> mtype m5 = c"
  "load_Connect L (c # r) = Some (m6, r6) \<Longrightarrow> mtype m6 = c"
  by (auto simp: load_Message_def load_Payload_def load_Resend_def load_File_def load_Content_def
      load_Sync_def load_Connect_def get_u8_Cons bind_eq_Some_conv Message.defs FileMessage.defs
      FileContentMessage.defs)

lemma safely_deserialize:
  assumes "\<And>m d. safely (typed Q) bad_cast (sendf (resend_request m) d)"
  shows "safely (typed Q) bad_cast (deserializeMessage L sendf data)"
proof (cases data)
  case Nil
  then show ?thesis by (simp add: deserializeMessage_def safely_throw)
next
  case (Cons c r)
  show ?thesis
  proof (cases "type_of_code c")
    case None
    then show ?thesis using Cons by (simp add: deserializeMessage_def safely_throw)
  next
    case (Some t)
    then have "c = type_code t" by (simp add: type_of_code_Some)
    then show ?thesis
      using Cons Some
      by (cases t) (auto simp: deserializeMessage_def well_typed_def msg_kind_Some
          mtype_header_simps dest: load_types
          intro!: safely_throw safely_archive_load safely_validate assms)
  qed
qed

lemma safely_send: "well_typed m \<Longrightarrow> safely (typed Q) bad_cast (send L n m d b)"
proof (induction n arbitrary: m d b)
  case 0
  then show ?case by (simp add: safely_throw)
next
  case (Suc n)
  have "safely (typed Q) bad_cast (routeData L (\<lambda>m d. send L n m d True) data d s)" for data s
    unfolding routeData_def by (intro safely_intro safely_deserialize Suc.IH resend_request_simps)
  then show ?case
    using Suc.prems by (auto simp: Let_def intro!: safely_intro)
qed

lemma safely_sendMessage: "well_typed m \<Longrightarrow> safely (typed Q) bad_cast (sendMessage L m d)"
  unfolding sendMessage_def by (rule safely_send)

end


section \<open>The handlers keep the invariant\<close>

lemma safely_paths [safely_intro]:
  "safely P bad_cast (the_lockFilePath p)" "safely P bad_cast (the_wntsPath p)"
  unfolding the_lockFilePath_def the_wntsPath_def by (intro safely_intro; simp)+

lemma safely_finished [safely_intro]: "safely P E finishedConnecting"
  unfolding finishedConnecting_def by (rule safely_gets)

lemma safely_archive_load_only [safely_intro]: "safely P bad_cast (archive_load load data)"
  by (auto simp: archive_load_def intro!: safely_intro split: option.split)

lemma safely_loadLockFile [safely_intro]: "safely (typed Q) bad_cast (loadLockFile L p)"
  unfolding loadLockFile_def by (intro safely_intro) simp_all

lemma safely_write_out [safely_intro]: "safely (typed (\<lambda>_. True)) bad_cast (write_out p s)"
  unfolding write_out_def by (intro safely_intro)

lemma safely_open_out [safely_intro]: "safely (typed (\<lambda>_. True)) bad_cast (open_out p)"
  unfolding open_out_def by (intro safely_intro)

lemma safely_archive_save [safely_intro]: "safely (typed (\<lambda>_. True)) bad_cast (archive_save b p bs)"
  unfolding archive_save_def by (intro safely_intro) simp_all

lemma safely_lock: "safely (typed (\<lambda>_. True)) bad_cast (processLockMessage L m)"
  unfolding processLockMessage_def by (intro safely_intro)

lemma safely_unlock: "safely (typed (\<lambda>_. True)) bad_cast (processUnlockMessage L m)"
  unfolding processUnlockMessage_def by (intro safely_intro)

lemma safely_check_lock [safely_intro]: "safely (typed Q) bad_cast (check_lock L p ip)"
  unfolding check_lock_def by (intro safely_intro)

lemma safely_delete: "safely (typed (\<lambda>_. True)) bad_cast (processDeleteFileMessage L m)"
  unfolding processDeleteFileMessage_def by (intro safely_intro)

lemma safely_content: "safely (typed (\<lambda>_. True)) bad_cast (processContentFileMessage L m)"
  unfolding processContentFileMessage_def by (intro safely_intro)

lemma safely_sync: "safely (typed (\<lambda>_. True)) bad_cast (processInitialFileSyncMessage m)"
  unfolding processInitialFileSyncMessage_def
  by (intro safely_intro safely_typed_updates) simp_all

lemma safely_connect: "safely (typed (\<lambda>_. True)) bad_cast (processConnectMessage m)"
  unfolding processConnectMessage_def
  by (intro safely_intro safely_typed_updates) simp_all

lemma well_typed_made [simp]:
  "well_typed (MBase ((new_Message disconnect)\<lparr>originatorNode := ip\<rparr>))"
  "well_typed (sync_message p ts s n i)" "well_typed (unlock_message p ip)"
  by (simp_all add: well_typed_def msg_kind_Some new_Message_def sync_message_def unlock_message_def
      new_File_def Message.defs FileMessage.defs FileContentMessage.defs FileInitialSyncMessage.defs)

lemma safely_attempt [safely_intro]: "safely (typed Q) E (attempt ip port)"
  by (rule safelyI) (auto simp: attempt_def)

lemma safely_dial: "safely (typed Q) E (dial ip port n)"
  by (induction n) (simp_all add: safely_intro)

lemma safely_connect_peer [safely_intro]:
  "RuntimeError ''Failed to connect'' \<notin> E \<Longrightarrow> safely (typed Q) E (connect_peer ip port n)"
  unfolding connect_peer_def Let_def by (intro safely_intro safely_dial)

lemma safely_try_backups: "safely (typed Q) bad_cast (try_backups pre bs)"
proof (induction bs arbitrary: pre)
  case Nil
  then show ?case by (simp add: safely_ret)
next
  case (Cons b bs)
  have "safely (typed Q) bad_cast (case e of RuntimeError _ \<Rightarrow> try_backups (pre @ [b]) bs | _ \<Rightarrow> throw e)"
    if "e \<notin> bad_cast" for e
    using Cons that by (auto intro!: safely_throw split: exn.split)
  moreover have "safely (typed Q) bad_cast
    (bnd (connect_peer (fst b) (snd b) 3) (\<lambda>p.
         updates (\<lambda>w. w\<lparr>peers := insert_front p (peers w), gatewayIP := fst b, backup_peers := pre @ bs\<rparr>)))"
    by (intro safely_intro safely_typed_updates) simp_all
  ultimately show ?case
    using Cons by (auto intro!: safely_catch [where F = bad_cast])
qed

lemma resend_typed:
  "well_typed m \<Longrightarrow> resend L m d =
     (if msg_kind m = Some resendRequest then throw (RuntimeError ''Unrecognized message type'')
      else sendMessage L m d)"
  by (cases m) (auto simp: well_typed_def resend_def cast_def need_def as_payload_def
      as_resend_def as_file_def as_content_def as_sync_def as_connect_def)

context lib_laws
begin

lemma safely_resend: "well_typed m \<Longrightarrow> safely (typed Q) bad_cast (resend L m d)"
  by (simp add: resend_typed safely_sendMessage safely_throw)

lemma safely_resend_loop:
  "\<forall>x \<in> set xs. pred_option well_typed x \<Longrightarrow> safely (typed Q) bad_cast (resend_loop L r xs)"
proof (induction xs)
  case Nil
  then show ?case by (simp add: safely_ret)
next
  case (Cons x xs)
  show ?case
  proof (cases x)
    case None
    then show ?thesis by (simp add: need_def safely_throw)
  next
    case (Some m)
    then have "well_typed m" using Cons.prems by simp
    then show ?thesis
      using Cons Some by (auto simp: need_def intro!: safely_intro safely_resend)
  qed
qed

lemma safely_resend_request: "safely (typed Q) bad_cast (processResendRequestMessage L r)"
proof -
  have "safely (typed Q) bad_cast (bnd (gets (\<lambda>w. range_for (oldMessages w))) (\<lambda>visited. case visited of
       None \<Rightarrow> throw OutOfFuel | Some xs \<Rightarrow> resend_loop L r xs))"
  proof (rule safely_gets_bnd)
    fix w
    assume "typed Q w"
    then have "cb_inv (oldMessages w)" "\<forall>x \<in> set (cells (oldMessages w)). pred_option well_typed x"
      by (simp_all add: typed_def cache_ok_def cells_typed_def)
    then show "safely (typed Q) bad_cast (case range_for (oldMessages w) of
       None \<Rightarrow> throw OutOfFuel | Some xs \<Rightarrow> resend_loop L r xs)"
      using range_for_cells by (fastforce intro!: safely_intro safely_resend_loop)
  qed
  then show ?thesis
    unfolding processResendRequestMessage_def
    by (intro safely_bnd [OF safely_gets]) (simp add: safely_ret)
qed

end


text \<open>
  The one handler that sends what it finds in a lock file needs the lock files to hold file messages;
  nothing in the program checks that.
\<close>

definition locks_typed :: "lib \<Rightarrow> filesystem \<Rightarrow> bool" where
  "locks_typed L fs \<longleftrightarrow> (\<forall>(k, n) \<in> set fs. lock_name k \<longrightarrow>
     (case n of
        Regular _ s _ \<Rightarrow> (case load_lock L (map byte_of_char s) of
            Some ((m, _), _) \<Rightarrow> well_typed (MFile m) | None \<Rightarrow> True)
      | Directory _ \<Rightarrow> True))"

lemma lockFilePath_name:
  assumes "lockFilePath p = Some lp"
  shows "lp \<noteq> []" "lock_name (resolve lp)"
proof -
  obtain q where "lp = path_div q [''.lock.'' @ filename p]"
    using assms by (auto simp: lockFilePath_def split: option.splits)
  then obtain r where lp: "lp = r @ [''.lock.'' @ filename p]"
    by (auto simp: path_div_def is_absolute_def split: if_splits)
  then show "lp \<noteq> []" by simp
  show "lock_name (resolve lp)"
    by (simp add: lp lock_name_def resolve_def)
qed

lemma loadLockFile_typed:
  assumes "locks_typed L (files w)" and "loadLockFile L p w = (Inr (m, pm), w')"
  shows "well_typed (MFile m) \<and> w' = w"
proof -
  obtain lp where lp: "lockFilePath p = Some lp"
    using assms(2) by (auto simp: loadLockFile_def the_lockFilePath_def exec_simps split: option.splits)
  note nm = lockFilePath_name [OF lp]
  obtain q s t bs where n: "lookup (files w) lp = Some (Regular q s t)"
    and s: "load_lock L (map byte_of_char s) = Some ((m, pm), bs)" and w': "w' = w"
    using assms(2) lp
    by (auto simp: loadLockFile_def the_lockFilePath_def exec_simps fs_simps archive_load_def
        split: option.splits node.splits if_splits)
  have "map_of (files w) (resolve lp) = Some (Regular q s t)"
    using n nm by (auto simp: lookup_def entry_def lock_name_def)
  then have "(resolve lp, Regular q s t) \<in> set (files w)" by (rule map_of_SomeD)
  then show ?thesis
    using assms(1) nm(2) s w' by (fastforce simp: locks_typed_def)
qed

lemma safely_loadLockFile_bnd:
  assumes "\<And>m pm. well_typed (MFile m) \<Longrightarrow> safely (typed (locks_typed L)) bad_cast (f (m, pm))"
  shows "safely (typed (locks_typed L)) bad_cast (bnd (loadLockFile L p) f)"
proof (rule safelyI)
  fix w
  assume w: "typed (locks_typed L) w"
  obtain r v where rv: "loadLockFile L p w = (r, v)" by (cases "loadLockFile L p w")
  have v: "typed (locks_typed L) v \<and> r \<notin> Inl ` bad_cast"
    using safely_loadLockFile w rv by (rule safelyD)
  show "typed (locks_typed L) (snd (bnd (loadLockFile L p) f w))
      \<and> fst (bnd (loadLockFile L p) f w) \<notin> Inl ` bad_cast"
  proof (cases r)
    case (Inl e)
    then show ?thesis using v rv by (auto simp: bnd_def)
  next
    case (Inr x)
    then obtain m pm where x: "x = (m, pm)" by (cases x)
    have "well_typed (MFile m)"
      using loadLockFile_typed [of L w p m pm v] w rv Inr x by (simp add: typed_def)
    then show ?thesis
      using assms [of m pm] v rv Inr x by (simp add: bnd_def safely_def)
  qed
qed

lemma well_typed_lock_time: "well_typed (MFile m) \<Longrightarrow> well_typed (MFile (m\<lparr>timestamp := t\<rparr>))"
  by (simp add: well_typed_def msg_kind_def Message.defs)

context lib_laws
begin

lemma safely_send_sync: "safely (typed (locks_typed L)) bad_cast (send_sync L d n x)"
  unfolding send_sync_def split_beta
  by (intro safely_intro safely_sendMessage well_typed_made safely_loadLockFile_bnd)
    (simp add: well_typed_lock_time)

lemma safely_sync_request:
  "safely (typed (locks_typed L)) bad_cast (processInitialFileSyncRequestMessage L m)"
  unfolding processInitialFileSyncRequestMessage_def
  by (intro safely_intro safely_send_sync)

lemma safely_link_lost: "safely (typed Q) bad_cast (processLinkLostMessage L m)"
  unfolding processLinkLostMessage_def remove_peer_def broadcast_def
  by (intro safely_intro safely_typed_updates safely_try_backups safely_sendMessage well_typed_made)
    simp_all

lemma safely_disconnect: "safely (typed Q) bad_cast (processDisconnectMessage L m)"
  unfolding processDisconnectMessage_def
  by (intro safely_intro safely_typed_updates safely_sendMessage well_typed_made) simp_all

lemma safely_requeue [safely_intro]: "safely P E (requeue p ok)"
  unfolding requeue_def by (rule safely_ret)

lemma safely_dispatch:
  assumes "well_typed m"
  shows "safely (typed (if msg_kind m = Some initialSyncRequest then locks_typed L else (\<lambda>_. True)))
    bad_cast (dispatch L m)"
  using assms
  by (cases m) (auto simp: well_typed_def dispatch_def cast_def need_def as_payload_def
      as_resend_def as_file_def as_content_def as_sync_def as_connect_def
      intro!: safely_intro safely_resend_request safely_lock safely_unlock safely_delete
        safely_content safely_sync safely_connect safely_sync_request safely_link_lost
        safely_disconnect)

end


section \<open>Properties of message processing\<close>

lemma queue_popped:
  assumes "typed Q w" and "pq_top (messageQueue w) = Some (p, m)"
  shows "well_typed m" "typed Q (w\<lparr>messageQueue := pq_pop (messageQueue w)\<rparr>)"
proof -
  have "set (pq_pop (messageQueue w)) \<subseteq> set (messageQueue w)"
    by (simp add: pq_pop_def set_remove1_subset split: option.split)
  then show "typed Q (w\<lparr>messageQueue := pq_pop (messageQueue w)\<rparr>)"
    using assms(1) by (auto simp: typed_def queue_typed_def cache_ok_def cells_typed_def)
  show "well_typed m"
    using pq_top_in [OF assms(2)] assms(1) by (auto simp: typed_def queue_typed_def)
qed

lemma typed_weaken: "typed Q w \<Longrightarrow> typed (\<lambda>_. True) w"
  by (simp add: typed_def)

lemma processNextMessage_exec:
  assumes "pq_top (messageQueue w) = Some (p, m)"
  shows "processNextMessage L w =
    bnd (dispatch L m) (\<lambda>r. case r of None \<Rightarrow> remember m | Some k \<Rightarrow> enqueue k m)
      (w\<lparr>messageQueue := pq_pop (messageQueue w)\<rparr>)"
proof -
  have "messageQueue w \<noteq> []" using assms by (auto simp: pq_top_def)
  then show ?thesis
    using assms by (simp add: processNextMessage_def bnd_exec gets_exec need_exec updates_exec
        pq_empty_def)
qed

text \<open>As long as what is queued and cached has the class its type tag says, and the lock files
  hold file messages, processing the next message never casts a message to a class it is not an
  instance of, unless the comparison of two queued messages does, and leaves queue and cache that way,
  whether the handler succeeds or throws.\<close>

lemma processing_is_cast_safe:
  assumes "lib_laws L" and "typed (locks_typed L) w"
  shows "fst (processNextMessage L w) \<noteq> Inl (Undefined ''reference_cast'')
    \<and> (comparable (messageQueue w) \<longrightarrow> fst (processNextMessage L w) \<noteq> Inl (Undefined ''PrioComp''))
    \<and> typed (\<lambda>_. True) (snd (processNextMessage L w))"
proof (cases "pq_top (messageQueue w)")
  case None
  then show ?thesis
    using typed_weaken [OF assms(2)] comparable_top [of "messageQueue w"]
    by (auto simp: processNextMessage_def exec_simps pq_empty_def split: if_split)
next
  case (Some x)
  then obtain p m where x: "pq_top (messageQueue w) = Some (p, m)" by (cases x) auto
  note q = queue_popped [OF assms(2) x]
  let ?Q = "if msg_kind m = Some initialSyncRequest then locks_typed L else (\<lambda>_. True)"
  have "safely (typed ?Q) bad_cast
      (bnd (dispatch L m) (\<lambda>r. case r of None \<Rightarrow> remember m | Some k \<Rightarrow> enqueue k m))"
    using q(1) by (intro safely_intro lib_laws.safely_dispatch assms(1)) auto
  moreover have "typed ?Q (w\<lparr>messageQueue := pq_pop (messageQueue w)\<rparr>)"
    using q(2) typed_weaken by auto
  ultimately have "typed ?Q (snd (processNextMessage L w))
      \<and> fst (processNextMessage L w) \<notin> Inl ` bad_cast"
    unfolding safely_def processNextMessage_exec [OF x] by blast
  then show ?thesis using typed_weaken by auto
qed

text \<open>The messages that wait until the initial synchronisation is done, with the priority of the
  requeued message.\<close>

definition waits_at :: "any_message \<Rightarrow> size_t option" where
  "waits_at m =
     (case msg_kind m of
        Some lock \<Rightarrow> Some (lockPriority + 1)
      | Some unlock \<Rightarrow> Some (lockPriority + 1)
      | Some deleteFile \<Rightarrow> Some (filePriority + 1)
      | Some contentChange \<Rightarrow> Some (filePriority + 1)
      | Some initialSyncRequest \<Rightarrow> Some (lockPriority + 1)
      | Some disconnect \<Rightarrow> Some (disconnectPriority + 1)
      | _ \<Rightarrow> None)"

lemma dispatch_waits:
  assumes "\<not> isFinishedConnecting w" and "well_typed m" and "waits_at m = Some k"
  shows "dispatch L m w = (Inr (Some k), w)"
  using assms
  by (cases m) (auto simp: well_typed_def waits_at_def dispatch_def cast_def need_def as_file_def
      as_content_def bnd_exec requeue_def ret_exec finishedConnecting_exec
      processLockMessage_def processUnlockMessage_def processDeleteFileMessage_def
      processContentFileMessage_def processInitialFileSyncRequestMessage_def
      processDisconnectMessage_def)

text \<open>Until the initial synchronisation is done, a message about a file, a synchronisation request
  and a disconnect change nothing: they are put back into the queue, one priority lower, and no
  other message is touched.\<close>

lemma messages_wait_for_the_initial_sync:
  assumes "\<not> isFinishedConnecting w" and "pq_top (messageQueue w) = Some (p, m)"
    and "well_typed m" and "waits_at m = Some k"
  shows "processNextMessage L w
      = (Inr (), w\<lparr>messageQueue := pq_emplace k m (pq_pop (messageQueue w))\<rparr>)"
proof -
  have "\<not> isFinishedConnecting (w\<lparr>messageQueue := pq_pop (messageQueue w)\<rparr>)"
    using assms(1) by (simp add: isFinishedConnecting_def)
  then show ?thesis
    using dispatch_waits [OF _ assms(3,4)]
    by (simp add: processNextMessage_exec [OF assms(2)] bnd_exec enqueue_exec)
qed

text \<open>A message of the queue that waits.\<close>

definition waiting_entry :: "prio \<Rightarrow> bool" where
  "waiting_entry x \<longleftrightarrow> well_typed (snd x) \<and> waits_at (snd x) \<noteq> None"

text \<open>Handling one of the waiting messages leaves the same messages.\<close>

lemma waiting_step:
  assumes "\<not> isFinishedConnecting w" and "messageQueue w \<noteq> []"
    and "\<forall>x \<in> set (messageQueue w). waiting_entry x"
    and "sorted_wrt (\<lambda>m m'. \<not> clash m m') (map snd (messageQueue w))"
  shows "\<exists>q. processNextMessage L w = (Inr (), w\<lparr>messageQueue := q\<rparr>) \<and> q \<noteq> []
    \<and> (\<forall>x \<in> set q. waiting_entry x) \<and> sorted_wrt (\<lambda>m m'. \<not> clash m m') (map snd q)"
proof -
  obtain p m where t: "pq_top (messageQueue w) = Some (p, m)"
    using comparable_top [OF clash_free_comparable [OF assms(4)] assms(2)] by auto
  have "(p, m) \<in> set (messageQueue w)" using t by (rule pq_top_in)
  then have e: "waiting_entry (p, m)" using assms(3) by blast
  then obtain k where k: "well_typed m" "waits_at m = Some k" by (auto simp: waiting_entry_def)
  let ?q = "pq_emplace k m (pq_pop (messageQueue w))"
  have "processNextMessage L w = (Inr (), w\<lparr>messageQueue := ?q\<rparr>)"
    by (rule messages_wait_for_the_initial_sync [OF assms(1) t k])
  moreover have "?q \<noteq> []" by (simp add: pq_emplace_def)
  moreover have "set (pq_pop (messageQueue w)) \<subseteq> set (messageQueue w)"
    by (simp add: pq_pop_def set_remove1_subset split: option.split)
  then have "\<forall>x \<in> set ?q. waiting_entry x"
    using assms(3) e by (auto simp: pq_emplace_def waiting_entry_def)
  moreover have "sorted_wrt (\<lambda>m m'. \<not> clash m m') (map snd ?q)"
  proof (rule sorted_wrt_mset [OF _ _ assms(4)])
    show "mset (map snd (messageQueue w)) = mset (map snd ?q)"
      using mset_pq_pop [OF t] pq_top_in [OF t]
      by (simp add: image_mset_Diff) (metis image_eqI insert_DiffM set_image_mset set_mset_mset snd_conv)
  qed (auto simp: clash_def)
  ultimately show ?thesis by blast
qed

lemma drain_waits:
  "\<not> isFinishedConnecting w \<Longrightarrow> messageQueue w \<noteq> [] \<Longrightarrow>
    \<forall>x \<in> set (messageQueue w). waiting_entry x \<Longrightarrow>
    sorted_wrt (\<lambda>m m'. \<not> clash m m') (map snd (messageQueue w)) \<Longrightarrow>
    fst (drain L fuel w) = Inl OutOfFuel"
proof (induction fuel arbitrary: w)
  case 0
  then show ?case by (simp add: throw_exec)
next
  case (Suc fuel)
  obtain q where q: "processNextMessage L w = (Inr (), w\<lparr>messageQueue := q\<rparr>)" "q \<noteq> []"
    "\<forall>x \<in> set q. waiting_entry x" "sorted_wrt (\<lambda>m m'. \<not> clash m m') (map snd q)"
    using waiting_step [OF Suc.prems, of L] by blast
  have "fst (drain L fuel (w\<lparr>messageQueue := q\<rparr>)) = Inl OutOfFuel"
    by (rule Suc.IH) (use Suc.prems(1) q in \<open>simp_all add: isFinishedConnecting_def\<close>)
  then show ?case using q(1) Suc.prems(2) by (simp add: bnd_exec gets_exec pq_empty_def)
qed

text \<open>C28: The destructor does not end when the process is shut down before its initial
  synchronisation is done and what is queued, one message or more, waits for it: messages about files,
  synchronisation requests and disconnects, of which no two make the comparison of the queue
  undefined (as two synchronisation requests do).  No number of iterations empties the queue.\<close>

theorem shutdown_before_sync_never_ends:
  assumes "\<not> isFinishedConnecting w" and "messageQueue w \<noteq> []"
    and "\<forall>x \<in> set (messageQueue w). well_typed (snd x) \<and> waits_at (snd x) \<noteq> None"
    and "sorted_wrt (\<lambda>m m'. \<not> clash m m') (map snd (messageQueue w))"
  shows "fst (destroy_MessageManager L fuel w) = Inl OutOfFuel"
proof -
  have "fst (drain L fuel w) = Inl OutOfFuel"
    using drain_waits [OF assms(1,2) _ assms(4)] assms(3) by (simp add: waiting_entry_def)
  then show ?thesis by (cases "drain L fuel w") (simp add: destroy_MessageManager_def bnd_exec)
qed


text \<open>Sample states for the properties above.\<close>

definition lock_waiting :: world where
  "lock_waiting = kept_world\<lparr>totalInitialFiles := 1,
     messageQueue := [(lockPriority, MFile (file_msg lock (IPv6 7) 0))]\<rparr>"

lemma sample_lock_waits:
  "well_typed (MFile (file_msg lock (IPv6 7) 0))"
  "waits_at (MFile (file_msg lock (IPv6 7) 0)) = Some 5"
  "\<not> isFinishedConnecting lock_waiting"
  "messageQueue lock_waiting = [(lockPriority, MFile (file_msg lock (IPv6 7) 0))]"
proof -
  have k: "msg_kind (MFile (file_msg lock (IPv6 7) 0)) = Some lock"
    by (simp add: msg_kind_Some file_msg_def Message.defs)
  then show "well_typed (MFile (file_msg lock (IPv6 7) 0))" by (simp add: well_typed_def)
  show "waits_at (MFile (file_msg lock (IPv6 7) 0)) = Some 5"
    using k by (simp add: waits_at_def lockPriority_def)
  show "\<not> isFinishedConnecting lock_waiting"
    by (simp add: lock_waiting_def isFinishedConnecting_def kept_world_def)
  show "messageQueue lock_waiting = [(lockPriority, MFile (file_msg lock (IPv6 7) 0))]"
    by (simp add: lock_waiting_def)
qed

lemma typed_kept: "typed (locks_typed L) (kept_world\<lparr>totalInitialFiles := t, messageQueue := q\<rparr>)
    \<longleftrightarrow> (\<forall>x \<in> set q. well_typed (snd x))"
proof -
  have "cells (oldMessages sample_world) = replicate 100 None"
    by (simp add: sample_world_def setup_MessageManager_def setFinalizer_def new_finalizeable_def)
  moreover have "cache_ok sample_world" by (rule cache_ok_sample)
  ultimately show ?thesis
    by (simp add: typed_def kept_world_def cache_ok_def queue_typed_def cells_typed_def
        locks_typed_def lock_name_def)
qed


text \<open>A lock message and a disconnect wait.\<close>

theorem shutdown_before_sync_never_ends_witness:
  "fst (destroy_MessageManager raw_lib 1000 (lock_waiting\<lparr>messageQueue :=
      [(lockPriority, MFile (file_msg lock (IPv6 7) 0)),
       (disconnectPriority, MBase (new_Message disconnect))]\<rparr>)) = Inl OutOfFuel"
proof (rule shutdown_before_sync_never_ends)
  have "msg_kind (MBase (new_Message disconnect)) = Some disconnect"
    by (simp add: msg_kind_Some new_Message_def)
  then have "well_typed (MBase (new_Message disconnect))"
    "waits_at (MBase (new_Message disconnect)) = Some 3"
    by (simp_all add: well_typed_def waits_at_def disconnectPriority_def)
  then show "\<forall>x \<in> set (messageQueue (lock_waiting\<lparr>messageQueue :=
      [(lockPriority, MFile (file_msg lock (IPv6 7) 0)),
       (disconnectPriority, MBase (new_Message disconnect))]\<rparr>)).
      well_typed (snd x) \<and> waits_at (snd x) \<noteq> None"
    using sample_lock_waits(1,2) by simp
  show "\<not> isFinishedConnecting (lock_waiting\<lparr>messageQueue :=
      [(lockPriority, MFile (file_msg lock (IPv6 7) 0)),
       (disconnectPriority, MBase (new_Message disconnect))]\<rparr>)"
    using sample_lock_waits(3) by (simp add: isFinishedConnecting_def)
qed (simp_all add: clash_def has_file_bits_def fileTypes_def new_Message_def)

end
