(* ===== verification/Sweeper.thy ===== *)
theory Sweeper
  imports Prelude "HOL-Library.List_Lexorder" "HOL-Library.Char_ord"
begin

text \<open>
  \<open>FilesystemSweeper\<close> of \<open>src/src/file_sweep.hpp\<close>: the scan that compares the managed files with the
  time stamps of the last scan and reports what changed through callbacks.  The file system, the
  clock and the callbacks are what the sweep calls; they are passed as a record, so that the same
  definition runs in the program and against a log of the callbacks.
\<close>

section \<open>State and environment\<close>

text \<open>\<open>std::map\<close>: the entries in the order of their keys.\<close>

fun map_put :: "'k::linorder \<Rightarrow> 'v \<Rightarrow> ('k \<times> 'v) list \<Rightarrow> ('k \<times> 'v) list" where
  "map_put k v [] = [(k, v)]"
| "map_put k v ((k', v') # m) =
     (if k < k' then (k, v) # (k', v') # m
      else if k = k' then (k, v) # m
      else (k', v') # map_put k v m)"

definition map_erase :: "'k \<Rightarrow> ('k \<times> 'v) list \<Rightarrow> ('k \<times> 'v) list" where
  "map_erase k m = filter (\<lambda>e. fst e \<noteq> k) m"

type_synonym stamp_map = "(path \<times> (int \<times> size_t)) list"

record sweeper =
  timestamps :: stamp_map
  fastTrackTimestamps :: stamp_map
  iteration :: size_t

definition new_sweeper :: sweeper where
  "new_sweeper = \<lparr>timestamps = [], fastTrackTimestamps = [], iteration = 0\<rparr>"

record 'w sweep_env =
  list_files :: "('w, path list) prog"
  write_time :: "path \<Rightarrow> ('w, int) prog"
  file_clock :: "('w, int) prog"
  onFileCreated :: "path \<Rightarrow> ('w, unit) prog"
  onFileModified :: "path \<Rightarrow> ('w, unit) prog"
  onFileDeleted :: "path \<Rightarrow> ('w, unit) prog"
  onFileFastTracked :: "path \<Rightarrow> ('w, unit) prog"
  onFileUnFastTracked :: "path \<Rightarrow> ('w, unit) prog"

definition on_env :: "('w, 'a) prog \<Rightarrow> (sweeper \<times> 'w, 'a) prog" where
  "on_env m = (\<lambda>(s, w). case m w of (r, w') \<Rightarrow> (r, (s, w')))"

definition of_sweeper :: "(sweeper \<Rightarrow> 'a) \<Rightarrow> (sweeper \<times> 'w, 'a) prog" where
  "of_sweeper f = gets (\<lambda>(s, w). f s)"

definition set_sweeper :: "(sweeper \<Rightarrow> sweeper) \<Rightarrow> (sweeper \<times> 'w, unit) prog" where
  "set_sweeper f = updates (\<lambda>(s, w). (f s, w))"

section \<open>The sweep\<close>

text \<open>The map the pointer \<open>timestamps\<close> of \<open>sweep\<close> points to.\<close>

definition stamps :: "bool \<Rightarrow> sweeper \<Rightarrow> stamp_map" where
  "stamps is_total s = (if is_total then timestamps s else fastTrackTimestamps s)"

definition set_stamp :: "bool \<Rightarrow> path \<Rightarrow> int \<times> size_t \<Rightarrow> sweeper \<Rightarrow> sweeper" where
  "set_stamp is_total p v s =
     (if is_total then s\<lparr>timestamps := map_put p v (timestamps s)\<rparr>
      else s\<lparr>fastTrackTimestamps := map_put p v (fastTrackTimestamps s)\<rparr>)"

definition fast_track :: "'w sweep_env \<Rightarrow> path \<Rightarrow> int \<times> size_t \<Rightarrow> (sweeper \<times> 'w, unit) prog" where
  "fast_track env p v =
     bnd (of_sweeper (\<lambda>s. map_of (fastTrackTimestamps s) p)) (\<lambda>tracked.
     bnd (if tracked = None then on_env (onFileFastTracked env p) else ret ()) (\<lambda>_.
     set_sweeper (set_stamp False p v)))"

definition scan_file :: "'w sweep_env \<Rightarrow> bool \<Rightarrow> path \<Rightarrow> (sweeper \<times> 'w, unit) prog" where
  "scan_file env is_total p =
     bnd (on_env (write_time env p)) (\<lambda>ts.
     bnd (of_sweeper (\<lambda>s. (ts, iteration s))) (\<lambda>v.
     bnd (of_sweeper (\<lambda>s. map_of (stamps is_total s) p)) (\<lambda>known.
     bnd (case known of
            None \<Rightarrow> bnd (on_env (onFileCreated env p)) (\<lambda>_. fast_track env p v)
          | Some (old, _) \<Rightarrow>
              if old < ts then bnd (on_env (onFileModified env p)) (\<lambda>_. fast_track env p v)
              else ret ()) (\<lambda>_.
     set_sweeper (set_stamp is_total p v)))))"

text \<open>The scan in its \<open>try\<close> block: a missing file ends it.\<close>

definition scan :: "'w sweep_env \<Rightarrow> bool \<Rightarrow> path list \<Rightarrow> (sweeper \<times> 'w, path list) prog" where
  "scan env is_total paths =
     catch (bnd (for_each (scan_file env is_total) paths) (\<lambda>_. ret []))
       (\<lambda>e. case e of
          FilesystemError code p \<Rightarrow> if code = 2 then ret [p] else throw e
        | _ \<Rightarrow> throw e)"

text \<open>The second loop: the paths to remove, and those to remove from the fast track only.\<close>

primrec review ::
    "'w sweep_env \<Rightarrow> int \<Rightarrow> stamp_map \<Rightarrow> (sweeper \<times> 'w, path list \<times> path list) prog" where
  "review env time [] = ret ([], [])"
| "review env time (e # es) =
     bnd (of_sweeper iteration) (\<lambda>current.
     if snd (snd e) \<noteq> current then
       bnd (on_env (onFileDeleted env (fst e))) (\<lambda>_.
       bnd (review env time es) (\<lambda>(rm, ft). ret (fst e # rm, ft)))
     else if tdiv (time - fst (snd e)) 1000000 > 10000 then
       bnd (of_sweeper (\<lambda>s. map_of (fastTrackTimestamps s) (fst e))) (\<lambda>tracked.
       bnd (if tracked \<noteq> None then on_env (onFileUnFastTracked env (fst e)) else ret ()) (\<lambda>_.
       bnd (review env time es) (\<lambda>(rm, ft). ret (rm, fst e # ft))))
     else review env time es)"

definition forget :: "path list \<Rightarrow> path list \<Rightarrow> sweeper \<Rightarrow> sweeper" where
  "forget removed ft s =
     s\<lparr>timestamps := foldl (\<lambda>m p. map_erase p m) (timestamps s) removed,
       fastTrackTimestamps := foldl (\<lambda>m p. map_erase p m) (fastTrackTimestamps s) (removed @ ft),
       iteration := iteration s + 1\<rparr>"

definition sweep :: "'w sweep_env \<Rightarrow> bool \<Rightarrow> (sweeper \<times> 'w, unit) prog" where
  "sweep env is_total =
     bnd (if is_total then on_env (list_files env)
          else of_sweeper (\<lambda>s. map fst (fastTrackTimestamps s))) (\<lambda>paths.
     bnd (scan env is_total paths) (\<lambda>missing.
     bnd (on_env (file_clock env)) (\<lambda>time.
     bnd (of_sweeper (stamps is_total)) (\<lambda>es.
     bnd (review env time es) (\<lambda>(removed, ft).
     set_sweeper (forget (missing @ removed) ft))))))"

definition totalSweepEveryN :: "'w sweep_env \<Rightarrow> size_t \<Rightarrow> (sweeper \<times> 'w, unit) prog" where
  "totalSweepEveryN env n = bnd (of_sweeper (\<lambda>s. iteration s mod n = 0)) (sweep env)"

section \<open>A log of the callbacks\<close>

text \<open>An environment over a fixed table of files that records the callbacks in order.\<close>

datatype report = Created path | Modified path | Deleted path | FastTracked path | UnFastTracked path

definition log_env :: "(path \<times> int) list \<Rightarrow> int \<Rightarrow> report list sweep_env" where
  "log_env tbl time =
     (let log = (\<lambda>f p. updates (\<lambda>w. w @ [f p])) in
      \<lparr>list_files = ret (map fst tbl),
       write_time = (\<lambda>p. case map_of tbl p of None \<Rightarrow> throw (FilesystemError 2 p) | Some t \<Rightarrow> ret t),
       file_clock = ret time, onFileCreated = log Created, onFileModified = log Modified,
       onFileDeleted = log Deleted, onFileFastTracked = log FastTracked,
       onFileUnFastTracked = log UnFastTracked\<rparr>)"

lemma log_env_simps [simp]:
  "list_files (log_env tbl time) = ret (map fst tbl)"
  "write_time (log_env tbl time) p
     = (case map_of tbl p of None \<Rightarrow> throw (FilesystemError 2 p) | Some t \<Rightarrow> ret t)"
  "file_clock (log_env tbl time) = ret time"
  "onFileCreated (log_env tbl time) p = updates (\<lambda>w. w @ [Created p])"
  "onFileModified (log_env tbl time) p = updates (\<lambda>w. w @ [Modified p])"
  "onFileDeleted (log_env tbl time) p = updates (\<lambda>w. w @ [Deleted p])"
  "onFileFastTracked (log_env tbl time) p = updates (\<lambda>w. w @ [FastTracked p])"
  "onFileUnFastTracked (log_env tbl time) p = updates (\<lambda>w. w @ [UnFastTracked p])"
  by (simp_all add: log_env_def Let_def)

lemma sweep_exec:
  "on_env m (s, w) = (case m w of (r, w') \<Rightarrow> (r, (s, w')))"
  "of_sweeper f (s, w) = (Inr (f s), (s, w))"
  "set_sweeper g (s, w) = (Inr (), (g s, w))"
  by (simp_all add: on_env_def of_sweeper_def set_sweeper_def gets_exec updates_exec)

lemma map_of_put [simp]: "map_of (map_put k v m) = (map_of m)(k \<mapsto> v)"
  by (induction k v m rule: map_put.induct) (auto simp: fun_eq_iff)

lemma map_of_erase [simp]: "map_of (map_erase k m) = (map_of m)(k := None)"
  by (induction m) (auto simp: map_erase_def fun_eq_iff)

lemma map_of_erases: "map_of (foldl (\<lambda>m p. map_erase p m) m ps) k = (if k \<in> set ps then None else map_of m k)"
  by (induction ps arbitrary: m) auto


section \<open>What a total sweep reports\<close>

definition key_sorted :: "('k::linorder \<times> 'v) list \<Rightarrow> bool" where
  "key_sorted m \<longleftrightarrow> sorted_wrt (<) (map fst m)"

lemma set_map_put: "set (map fst (map_put k v m)) = insert k (set (map fst m))"
  by (induction k v m rule: map_put.induct) auto

lemma key_sorted_put: "key_sorted m \<Longrightarrow> key_sorted (map_put k v m)"
  unfolding key_sorted_def
proof (induction k v m rule: map_put.induct)
  case (2 k v k' v' m)
  have "\<forall>x \<in> set (map fst (map_put k v m)). k' < x" if "\<not> k < k'" "k \<noteq> k'"
    using 2 that by (simp only: set_map_put) auto
  then show ?case using 2 by auto
qed simp

lemma key_sorted_distinct: "key_sorted m \<Longrightarrow> distinct (map fst m)"
  by (simp add: key_sorted_def strict_sorted_iff)

text \<open>One file of the scan, against the log.\<close>

definition scan_reports :: "bool \<Rightarrow> sweeper \<Rightarrow> path \<Rightarrow> int \<Rightarrow> report list" where
  "scan_reports is_total s p ts =
     (let ft = (if map_of (fastTrackTimestamps s) p = None then [FastTracked p] else []) in
      case map_of (stamps is_total s) p of
        None \<Rightarrow> Created p # ft
      | Some (old, _) \<Rightarrow> if old < ts then Modified p # ft else [])"

definition scanned :: "bool \<Rightarrow> sweeper \<Rightarrow> path \<Rightarrow> int \<Rightarrow> sweeper" where
  "scanned is_total s p ts =
     set_stamp is_total p (ts, iteration s)
       (if scan_reports is_total s p ts = [] then s else set_stamp False p (ts, iteration s) s)"

lemma scan_file_exec:
  assumes "map_of tbl p = Some ts"
  shows "scan_file (log_env tbl time) is_total p (s, w)
    = (Inr (), (scanned is_total s p ts, w @ scan_reports is_total s p ts))"
  using assms
  by (simp add: scan_file_def fast_track_def bnd_exec sweep_exec ret_exec updates_exec
      scanned_def scan_reports_def Let_def split: option.split)

lemma scanned_simps:
  "iteration (scanned is_total s p ts) = iteration s"
  "map_of (timestamps (scanned True s p ts)) = (map_of (timestamps s))(p \<mapsto> (ts, iteration s))"
  "key_sorted (timestamps s) \<Longrightarrow> key_sorted (timestamps (scanned True s p ts))"
  by (simp_all add: scanned_def set_stamp_def key_sorted_put)

lemma scan_total:
  "distinct ps \<Longrightarrow> \<forall>p \<in> set ps. map_of tbl p \<noteq> None \<Longrightarrow> key_sorted (timestamps s) \<Longrightarrow>
    \<exists>s' log. for_each (scan_file (log_env tbl time) True) ps (s, w) = (Inr (), (s', w @ log))
      \<and> iteration s' = iteration s \<and> key_sorted (timestamps s')
      \<and> (\<forall>q. map_of (timestamps s') q = (if q \<in> set ps then Some (the (map_of tbl q), iteration s)
            else map_of (timestamps s) q))
      \<and> (\<forall>q. Created q \<in> set log \<longleftrightarrow> q \<in> set ps \<and> map_of (timestamps s) q = None)
      \<and> (\<forall>q. Modified q \<in> set log \<longleftrightarrow> q \<in> set ps
            \<and> (\<exists>old i. map_of (timestamps s) q = Some (old, i) \<and> old < the (map_of tbl q)))
      \<and> (\<forall>q. Deleted q \<notin> set log)"
proof (induction ps arbitrary: s w)
  case Nil
  then show ?case by (simp add: ret_exec)
next
  case (Cons p ps)
  obtain ts where ts: "map_of tbl p = Some ts" using Cons.prems(2) by auto
  let ?s = "scanned True s p ts" and ?l = "scan_reports True s p ts"
  obtain s' log where ih: "for_each (scan_file (log_env tbl time) True) ps (?s, w @ ?l)
      = (Inr (), (s', (w @ ?l) @ log))"
    "iteration s' = iteration s" "key_sorted (timestamps s')"
    "\<forall>q. map_of (timestamps s') q = (if q \<in> set ps then Some (the (map_of tbl q), iteration s)
            else map_of (timestamps ?s) q)"
    "\<forall>q. Created q \<in> set log \<longleftrightarrow> q \<in> set ps \<and> map_of (timestamps ?s) q = None"
    "\<forall>q. Modified q \<in> set log \<longleftrightarrow> q \<in> set ps
            \<and> (\<exists>old i. map_of (timestamps ?s) q = Some (old, i) \<and> old < the (map_of tbl q))"
    "\<forall>q. Deleted q \<notin> set log"
    using Cons.IH [of ?s "w @ ?l"] Cons.prems scanned_simps(3) [OF Cons.prems(3)]
    by (auto simp: scanned_simps(1))
  have p: "p \<notin> set ps" using Cons.prems(1) by simp
  have l: "Created q \<in> set ?l \<longleftrightarrow> q = p \<and> map_of (timestamps s) p = None"
    "Modified q \<in> set ?l \<longleftrightarrow> q = p \<and> (\<exists>old i. map_of (timestamps s) p = Some (old, i) \<and> old < ts)"
    "Deleted q \<notin> set ?l" for q
    by (auto simp: scan_reports_def Let_def stamps_def split: option.split)
  have other: "map_of (timestamps ?s) q = map_of (timestamps s) q" if "q \<in> set ps" for q
    using that p by (auto simp: scanned_simps)
  show ?case
  proof (intro exI conjI)
    show "for_each (scan_file (log_env tbl time) True) (p # ps) (s, w) = (Inr (), (s', w @ ?l @ log))"
      using ih(1) by (simp add: bnd_exec scan_file_exec [OF ts])
    show "\<forall>q. map_of (timestamps s') q = (if q \<in> set (p # ps)
        then Some (the (map_of tbl q), iteration s) else map_of (timestamps s) q)"
      using ih(4) ts by (auto simp: scanned_simps)
    show "\<forall>q. Created q \<in> set (?l @ log) \<longleftrightarrow> q \<in> set (p # ps) \<and> map_of (timestamps s) q = None"
      using ih(5) l(1) other p by auto
    show "\<forall>q. Modified q \<in> set (?l @ log) \<longleftrightarrow> q \<in> set (p # ps)
        \<and> (\<exists>old i. map_of (timestamps s) q = Some (old, i) \<and> old < the (map_of tbl q))"
      using ih(6) l(2) other p ts by auto
    show "\<forall>q. Deleted q \<notin> set (?l @ log)" using ih(7) l(3) by simp
  qed (use ih in simp_all)
qed

lemma review_exec:
  "\<exists>ft log. review (log_env tbl time) clock es (s, w)
      = (Inr (map fst (filter (\<lambda>e. snd (snd e) \<noteq> iteration s) es), ft), (s, w @ log))
    \<and> (\<forall>q. Created q \<notin> set log \<and> Modified q \<notin> set log
        \<and> (Deleted q \<in> set log \<longleftrightarrow> (\<exists>v. (q, v) \<in> set es \<and> snd v \<noteq> iteration s)))"
proof (induction es arbitrary: w)
  case Nil
  then show ?case by (simp add: ret_exec)
next
  case (Cons e es)
  obtain q ts i where e: "e = (q, (ts, i))" by (cases e) auto
  show ?case
  proof (cases "i = iteration s")
    case False
    then show ?thesis
      using Cons.IH [of "w @ [Deleted q]"] e
      by (fastforce simp: bnd_exec sweep_exec updates_exec ret_exec)
  next
    case True
    let ?u = "if tdiv (clock - ts) 1000000 > 10000 \<and> map_of (fastTrackTimestamps s) q \<noteq> None
        then [UnFastTracked q] else []"
    show ?thesis
      using Cons.IH [of "w @ ?u"] e True
      by (fastforce simp: bnd_exec sweep_exec updates_exec ret_exec split: if_splits)
  qed
qed


text \<open>The entries of a map carry stamps of earlier sweeps.\<close>

definition stamped_before :: "size_t \<Rightarrow> stamp_map \<Rightarrow> bool" where
  "stamped_before k m \<longleftrightarrow> (\<forall>e \<in> set m. snd (snd e) \<noteq> k)"

text \<open>C10: A total sweep over an unchanging file system reports as created exactly the files it did not
  know, as modified exactly those whose time stamp grew, and as deleted exactly the known files
  that are gone; afterwards it knows exactly the files that are there, with their current time
  stamps.\<close>

theorem total_sweep_reports_the_changes:
  assumes "distinct (map fst tbl)" and "key_sorted (timestamps s)"
    and "stamped_before (iteration s) (timestamps s)"
  shows "\<exists>s' log. sweep (log_env tbl time) True (s, w) = (Inr (), (s', w @ log))
    \<and> (\<forall>p. Created p \<in> set log \<longleftrightarrow> map_of tbl p \<noteq> None \<and> map_of (timestamps s) p = None)
    \<and> (\<forall>p. Modified p \<in> set log \<longleftrightarrow> (\<exists>t old i. map_of tbl p = Some t
          \<and> map_of (timestamps s) p = Some (old, i) \<and> old < t))
    \<and> (\<forall>p. Deleted p \<in> set log \<longleftrightarrow> map_of tbl p = None \<and> map_of (timestamps s) p \<noteq> None)
    \<and> (\<forall>p. map_of (timestamps s') p = map_option (\<lambda>t. (t, iteration s)) (map_of tbl p))
    \<and> iteration s' = iteration s + 1"
proof -
  have dom: "q \<in> set (map fst tbl) \<longleftrightarrow> map_of tbl q \<noteq> None" for q
    by (metis map_of_eq_None_iff set_map)
  then have "\<forall>p \<in> set (map fst tbl). map_of tbl p \<noteq> None" by blast
  from scan_total [OF assms(1) this assms(2), of time w] obtain s1 l1 where s1:
    "for_each (scan_file (log_env tbl time) True) (map fst tbl) (s, w) = (Inr (), (s1, w @ l1))"
    "iteration s1 = iteration s" "key_sorted (timestamps s1)"
    "\<forall>q. map_of (timestamps s1) q = (if map_of tbl q \<noteq> None then Some (the (map_of tbl q), iteration s)
            else map_of (timestamps s) q)"
    "\<forall>q. Created q \<in> set l1 \<longleftrightarrow> map_of tbl q \<noteq> None \<and> map_of (timestamps s) q = None"
    "\<forall>q. Modified q \<in> set l1 \<longleftrightarrow> map_of tbl q \<noteq> None
            \<and> (\<exists>old i. map_of (timestamps s) q = Some (old, i) \<and> old < the (map_of tbl q))"
    "\<forall>q. Deleted q \<notin> set l1"
    by (auto simp only: dom)
  have d1: "distinct (map fst (timestamps s1))" using s1(3) by (rule key_sorted_distinct)
  have mem: "(q, v) \<in> set (timestamps s1) \<longleftrightarrow> map_of (timestamps s1) q = Some v" for q v
    using d1 by simp
  have old: "map_of (timestamps s) q = Some v \<Longrightarrow> snd v \<noteq> iteration s" for q v
    using assms(3) map_of_SomeD [of "timestamps s" q v] by (auto simp: stamped_before_def)
  have gone: "(\<exists>v. (q, v) \<in> set (timestamps s1) \<and> snd v \<noteq> iteration s1)
      \<longleftrightarrow> map_of tbl q = None \<and> map_of (timestamps s) q \<noteq> None" for q
    using s1(4) old [of q] by (auto simp: mem s1(2))
  obtain ft l2 where l2: "review (log_env tbl time) time (timestamps s1) (s1, w @ l1)
      = (Inr (map fst (filter (\<lambda>e. snd (snd e) \<noteq> iteration s1) (timestamps s1)), ft), (s1, (w @ l1) @ l2))"
    "\<forall>q. Created q \<notin> set l2 \<and> Modified q \<notin> set l2
        \<and> (Deleted q \<in> set l2 \<longleftrightarrow> (\<exists>v. (q, v) \<in> set (timestamps s1) \<and> snd v \<noteq> iteration s1))"
    using review_exec [of tbl time time "timestamps s1" s1 "w @ l1"] by blast
  let ?rm = "map fst (filter (\<lambda>e. snd (snd e) \<noteq> iteration s1) (timestamps s1))"
  let ?s' = "forget ?rm ft s1"
  have "sweep (log_env tbl time) True (s, w) = (Inr (), (?s', w @ l1 @ l2))"
    using s1(1) l2(1)
    by (simp add: sweep_def scan_def bnd_exec catch_exec sweep_exec ret_exec stamps_def)
  moreover have rm: "q \<in> set ?rm \<longleftrightarrow> map_of tbl q = None \<and> map_of (timestamps s) q \<noteq> None" for q
    unfolding gone [symmetric] by force
  have "map_of (timestamps ?s') p = map_option (\<lambda>t. (t, iteration s)) (map_of tbl p)" for p
  proof -
    have "map_of (timestamps ?s') p = (if p \<in> set ?rm then None else map_of (timestamps s1) p)"
      by (simp add: forget_def map_of_erases)
    then show ?thesis using s1(4) rm [of p] by auto
  qed
  moreover have "iteration ?s' = iteration s + 1" by (simp add: forget_def s1(2))
  moreover have "Created p \<in> set (l1 @ l2) \<longleftrightarrow> map_of tbl p \<noteq> None \<and> map_of (timestamps s) p = None" for p
    using s1(5) l2(2) by simp
  moreover have "Modified p \<in> set (l1 @ l2) \<longleftrightarrow> (\<exists>t old i. map_of tbl p = Some t
          \<and> map_of (timestamps s) p = Some (old, i) \<and> old < t)" for p
    using s1(6) l2(2) by auto
  moreover have "Deleted p \<in> set (l1 @ l2) \<longleftrightarrow> map_of tbl p = None \<and> map_of (timestamps s) p \<noteq> None" for p
    using s1(7) l2(2) gone [of p] by simp
  ultimately show ?thesis by blast
qed

theorem total_sweep_reports_the_changes_witness:
  "let s = \<lparr>timestamps = [([''d'', ''a''], (5, 0)), ([''d'', ''b''], (5, 0))],
            fastTrackTimestamps = [], iteration = 10\<rparr>;
       tbl = [([''d'', ''c''], 9), ([''d'', ''b''], 7)]
   in \<exists>s' log. sweep (log_env tbl 9) True (s, []) = (Inr (), (s', log))
      \<and> Created [''d'', ''c''] \<in> set log \<and> Modified [''d'', ''b''] \<in> set log
      \<and> Deleted [''d'', ''a''] \<in> set log \<and> Deleted [''d'', ''b''] \<notin> set log"
proof -
  let ?s = "\<lparr>timestamps = [([''d'', ''a''], (5, 0)), ([''d'', ''b''], (5, 0))],
            fastTrackTimestamps = [], iteration = 10\<rparr>"
  let ?tbl = "[([''d'', ''c''], 9), ([''d'', ''b''], 7)] :: (path \<times> int) list"
  have h: "distinct (map fst ?tbl)" "key_sorted (timestamps ?s)"
    "stamped_before (iteration ?s) (timestamps ?s)"
    by (simp, simp add: key_sorted_def less_char_def, simp add: stamped_before_def)
  obtain s' log where r: "sweep (log_env ?tbl 9) True (?s, []) = (Inr (), (s', [] @ log))"
    "\<forall>p. Created p \<in> set log \<longleftrightarrow> map_of ?tbl p \<noteq> None \<and> map_of (timestamps ?s) p = None"
    "\<forall>p. Modified p \<in> set log \<longleftrightarrow> (\<exists>t old i. map_of ?tbl p = Some t
          \<and> map_of (timestamps ?s) p = Some (old, i) \<and> old < t)"
    "\<forall>p. Deleted p \<in> set log \<longleftrightarrow> map_of ?tbl p = None \<and> map_of (timestamps ?s) p \<noteq> None"
    using total_sweep_reports_the_changes [OF h, of 9 "[]"] by (elim exE conjE)
  have "Created [''d'', ''c''] \<in> set log" "Modified [''d'', ''b''] \<in> set log"
    "Deleted [''d'', ''a''] \<in> set log" "Deleted [''d'', ''b''] \<notin> set log"
    unfolding r(2-4) [rule_format] by simp_all
  with r(1) show ?thesis by (auto simp: Let_def)
qed

section \<open>Two defects of the fast sweep\<close>

text \<open>C40: When the first of the fast-tracked files is gone, the scan of a fast sweep ends there, and every
  fast-tracked file is reported as deleted and forgotten, whether it still exists or not.\<close>

theorem missing_file_deletes_the_fast_track:
  assumes "fastTrackTimestamps s = e # es" and "map_of tbl (fst e) = None"
    and "stamped_before (iteration s) (fastTrackTimestamps s)"
  shows "\<exists>s' log. sweep (log_env tbl time) False (s, w) = (Inr (), (s', w @ log))
    \<and> (\<forall>q. Deleted q \<in> set log \<longleftrightarrow> map_of (fastTrackTimestamps s) q \<noteq> None)
    \<and> (\<forall>q. map_of (fastTrackTimestamps s) q \<noteq> None \<longrightarrow> map_of (timestamps s') q = None)"
proof -
  have sc: "scan (log_env tbl time) False (map fst (fastTrackTimestamps s)) (s, w)
      = (Inr [fst e], (s, w))"
    using assms(1,2)
    by (simp add: scan_def scan_file_def bnd_exec catch_exec sweep_exec throw_exec ret_exec)
  obtain ft l where l: "review (log_env tbl time) time (fastTrackTimestamps s) (s, w)
      = (Inr (map fst (filter (\<lambda>e. snd (snd e) \<noteq> iteration s) (fastTrackTimestamps s)), ft), (s, w @ l))"
    "\<forall>q. Deleted q \<in> set l \<longleftrightarrow> (\<exists>v. (q, v) \<in> set (fastTrackTimestamps s) \<and> snd v \<noteq> iteration s)"
    using review_exec [of tbl time time "fastTrackTimestamps s" s w] by blast
  have all: "filter (\<lambda>e. snd (snd e) \<noteq> iteration s) (fastTrackTimestamps s) = fastTrackTimestamps s"
    using assms(3) by (simp add: stamped_before_def filter_id_conv)
  have key: "map_of (fastTrackTimestamps s) q \<noteq> None \<longleftrightarrow> q \<in> fst ` set (fastTrackTimestamps s)" for q
    by (metis map_of_eq_None_iff)
  have stale: "(\<exists>v. (q, v) \<in> set m \<and> snd v \<noteq> k) \<longleftrightarrow> q \<in> fst ` set m"
    if "stamped_before k m" for q k and m :: stamp_map
    using that by (metis (no_types, lifting) fst_conv imageE image_eqI prod.collapse snd_conv stamped_before_def)
  have "Deleted q \<in> set l \<longleftrightarrow> map_of (fastTrackTimestamps s) q \<noteq> None" for q
    by (simp only: l(2) key stale [OF assms(3)])
  moreover have "sweep (log_env tbl time) False (s, w)
      = (Inr (), (forget (fst e # map fst (fastTrackTimestamps s)) ft s, w @ l))"
    using sc l(1) all by (simp add: sweep_def bnd_exec sweep_exec ret_exec stamps_def)
  moreover have "map_of (fastTrackTimestamps s) q \<noteq> None \<Longrightarrow>
      map_of (timestamps (forget (fst e # map fst (fastTrackTimestamps s)) ft s)) q = None" for q
    unfolding key by (simp add: forget_def map_of_erases del: foldl_Cons foldl.simps)
  ultimately show ?thesis by blast
qed

theorem missing_file_deletes_the_fast_track_witness:
  "let s = \<lparr>timestamps = [([''d'', ''a''], (5, 0)), ([''d'', ''b''], (5, 0))],
            fastTrackTimestamps = [([''d'', ''a''], (5, 3)), ([''d'', ''b''], (5, 3))], iteration = 4\<rparr>;
       tbl = [([''d'', ''b''], 5)]
   in \<exists>s' log. sweep (log_env tbl 9) False (s, []) = (Inr (), (s', log))
      \<and> map_of tbl [''d'', ''b''] = Some 5 \<and> Deleted [''d'', ''b''] \<in> set log"
proof -
  let ?s = "\<lparr>timestamps = [([''d'', ''a''], (5, 0)), ([''d'', ''b''], (5, 0))],
            fastTrackTimestamps = [([''d'', ''a''], (5, 3)), ([''d'', ''b''], (5, 3))], iteration = 4\<rparr>"
  have h: "fastTrackTimestamps ?s = ([''d'', ''a''], (5, 3)) # [([''d'', ''b''], (5, 3))]"
    "map_of [([''d'', ''b''], 5)] (fst ([''d'', ''a''], (5, 3))) = None"
    "stamped_before (iteration ?s) (fastTrackTimestamps ?s)"
    by (simp_all add: stamped_before_def)
  obtain s' log where r: "sweep (log_env [([''d'', ''b''], 5)] 9) False (?s, []) = (Inr (), (s', [] @ log))"
    "\<forall>q. Deleted q \<in> set log \<longleftrightarrow> map_of (fastTrackTimestamps ?s) q \<noteq> None"
    using missing_file_deletes_the_fast_track [OF h, of 9 "[]"] by (elim exE conjE)
  have "Deleted [''d'', ''b''] \<in> set log"
    unfolding r(2) [rule_format] by simp
  with r(1) show ?thesis by (simp only: Let_def append_Nil) auto
qed


text \<open>A modification found by a fast sweep is reported again by the next total sweep: the fast sweep
  updates only its own map of time stamps.\<close>

lemma modification_is_reported_twice:
  assumes "t0 < t1" and "tdiv (time - t1) 1000000 \<le> 10000"
  shows "\<exists>s'. bnd (sweep (log_env [(p, t1)] time) False) (\<lambda>_. sweep (log_env [(p, t1)] time) True)
      (\<lparr>timestamps = [(p, (t0, i))], fastTrackTimestamps = [(p, (t0, j))], iteration = k\<rparr>, [])
    = (Inr (), (s', [Modified p, Modified p]))"
proof -
  let ?s = "\<lparr>timestamps = [(p, (t0, i))], fastTrackTimestamps = [(p, (t0, j))], iteration = k\<rparr>"
  let ?s1 = "\<lparr>timestamps = [(p, (t0, i))], fastTrackTimestamps = [(p, (t1, k))], iteration = k + 1\<rparr>"
  have "sweep (log_env [(p, t1)] time) False (?s, []) = (Inr (), (?s1, [Modified p]))"
    using assms
    by (simp add: sweep_def scan_def bnd_exec catch_exec sweep_exec ret_exec stamps_def
        scan_file_exec [of _ p t1] scan_reports_def scanned_def set_stamp_def forget_def Let_def)
  moreover have "\<exists>s'. sweep (log_env [(p, t1)] time) True (?s1, [Modified p])
      = (Inr (), (s', [Modified p, Modified p]))"
    using assms
    by (simp add: sweep_def scan_def bnd_exec catch_exec sweep_exec ret_exec stamps_def
        scan_file_exec [of _ p t1] scan_reports_def scanned_def set_stamp_def forget_def Let_def)
  ultimately show ?thesis by (simp add: bnd_exec)
qed


end
