(* ===== verification/MainLoop.thy ===== *)
theory MainLoop
  imports Processing Sweeper
begin

text \<open>
  The program of \<open>src/src/main.cpp\<close>: the callbacks the sweeper reports to, the start of the process
  and its main loop, which alternates sweeps and message processing.  The command line parser is not
  part of the repository: the parsed options are arguments, and \<open>usage\<close> stands for the second
  call of the parser that is meant to print the usage and end the program.
\<close>

section \<open>The hash of a file as it was last sent\<close>

text \<open>\<open>fin >> oldHash\<close>: an unsigned number read from a stream; text without digits gives 0 and a
  number that does not fit gives the greatest one.  When there is nothing but white space, the
  stream fails before it stores anything, and the variable keeps what it was: it is not initialised
  (\<open>None\<close>).\<close>

definition is_digit :: "char \<Rightarrow> bool" where
  "is_digit c \<longleftrightarrow> 48 \<le> (of_char c :: nat) \<and> (of_char c :: nat) \<le> 57"

definition is_space :: "char \<Rightarrow> bool" where
  "is_space c \<longleftrightarrow> (of_char c :: nat) \<in> {9, 10, 11, 12, 13, 32}"

definition digits_value :: "string \<Rightarrow> nat" where
  "digits_value ds = foldl (\<lambda>n c. 10 * n + (of_char c - 48)) 0 ds"

definition read_size_t :: "string \<Rightarrow> size_t option" where
  "read_size_t text =
     (let s = dropWhile is_space text;
          negative = (case s of c # _ \<Rightarrow> c = CHR ''-'' | [] \<Rightarrow> False);
          signed = (case s of c # _ \<Rightarrow> c = CHR ''-'' \<or> c = CHR ''+'' | [] \<Rightarrow> False);
          ds = takeWhile is_digit (if signed then tl s else s);
          v = digits_value ds
      in if s = [] then None else Some (if ds = [] then 0 else if 2 ^ 64 \<le> v then - 1
         else if negative then - of_nat v else of_nat v))"

text \<open>Whether the network is told: there is no saved hash, or it differs.  A file that cannot be
  opened leaves the old hash uninitialised, too.\<close>

definition should_send :: "path \<Rightarrow> size_t \<Rightarrow> (world, bool) prog" where
  "should_send wnts h =
     bnd (on_files (fs_exists wnts)) (\<lambda>saved.
     if \<not> saved then ret True else
     bnd (on_files (read_file wnts)) (\<lambda>content.
     bnd (need ''oldHash'' (Option.bind content read_size_t)) (\<lambda>oldHash. ret (h \<noteq> oldHash))))"

section \<open>The callbacks of the sweeper\<close>

text \<open>\<open>convertTimepoint\<close> of the last write, from the clock of the file system to the system's.\<close>

definition write_timestamp :: "path \<Rightarrow> (world, int) prog" where
  "write_timestamp p =
     bnd (on_files (last_write_time p)) (\<lambda>tp.
     bnd now (\<lambda>now_in. bnd now (\<lambda>now_out. ret (convertTimepoint tp now_in now_out))))"

definition content_message :: "path \<Rightarrow> int \<Rightarrow> string \<Rightarrow> any_message" where
  "content_message p ts content =
     MContent (FileMessage.extend (new_File contentChange p ts) (FileContentMessage.fields content))"

text \<open>A file that cannot be opened has the size -1, which is too long for a string.\<close>

definition onFileCreatedOrModified_cb :: "lib \<Rightarrow> path \<Rightarrow> (world, unit) prog" where
  "onFileCreatedOrModified_cb L p =
     bnd (write_timestamp p) (\<lambda>ts.
     bnd (on_files (read_file p)) (\<lambda>content. case content of
       None \<Rightarrow> throw LengthError
     | Some s \<Rightarrow>
         bnd (the_wntsPath p) (\<lambda>wnts.
         bnd (should_send wnts (hash_str s)) (\<lambda>shouldSend.
         if \<not> shouldSend then ret () else
         bnd (broadcast L (content_message p ts s)) (\<lambda>_.
         write_out wnts (to_string (unat (hash_str s))))))))"

definition onFileDeleted_cb :: "lib \<Rightarrow> path \<Rightarrow> (world, unit) prog" where
  "onFileDeleted_cb L p =
     bnd now (\<lambda>ts. broadcast L (MFile (new_File deleteFile p ts)))"

definition onFileFastTracked_cb :: "lib \<Rightarrow> path \<Rightarrow> (world, unit) prog" where
  "onFileFastTracked_cb L p =
     bnd (write_timestamp p) (\<lambda>ts. broadcast L (MFile (new_File lock p ts)))"

definition onFileUnFastTracked_cb :: "lib \<Rightarrow> path \<Rightarrow> (world, unit) prog" where
  "onFileUnFastTracked_cb L p =
     bnd (write_timestamp p) (\<lambda>ts. broadcast L (MFile (new_File unlock p ts)))"

text \<open>The sweeper holds a reference to the folders that \<open>MessageManager\<close> replaces when the process
  joins a network.\<close>

definition main_env :: "lib \<Rightarrow> world sweep_env" where
  "main_env L =
     \<lparr>list_files = bnd (gets folders) (\<lambda>fds. on_files (enumerateAllFiles fds)),
      write_time = (\<lambda>p. on_files (last_write_time p)), file_clock = now,
      onFileCreated = onFileCreatedOrModified_cb L, onFileModified = onFileCreatedOrModified_cb L,
      onFileDeleted = onFileDeleted_cb L, onFileFastTracked = onFileFastTracked_cb L,
      onFileUnFastTracked = onFileUnFastTracked_cb L\<rparr>"

section \<open>Setting up the sweeper\<close>

text \<open>\<open>std::filesystem::remove_all\<close>: what is below a directory goes before it.\<close>

definition fs_remove_all :: "path \<Rightarrow> (filesystem, unit) prog" where
  "fs_remove_all p =
     bnd (gets (\<lambda>fs. case lookup fs p of
       Some (Directory _) \<Rightarrow>
         rev (sort (filter (\<lambda>k. length (resolve p) < length k \<and> take (length (resolve p)) k = resolve p)
           (map fst fs)))
     | _ \<Rightarrow> [])) (\<lambda>ks.
     for_each (\<lambda>k. bnd (fs_remove k) (\<lambda>_. ret ())) (ks @ [p]))"

definition setup_sweeper :: "path list \<Rightarrow> (world, unit) prog" where
  "setup_sweeper fds = for_each (\<lambda>folder. on_files (fs_remove_all (path_div folder [''.wnts'']))) fds"

section \<open>The start of the process\<close>

text \<open>\<open>boost::split\<close> at every comma.\<close>

fun split_commas :: "string \<Rightarrow> string list" where
  "split_commas [] = [[]]"
| "split_commas (c # cs) =
     (if c = CHR '','' then [] # split_commas cs
      else (c # hd (split_commas cs)) # tl (split_commas cs))"

text \<open>\<open>std::filesystem::relative\<close> of a path below the working directory.\<close>

definition relative_path :: "path \<Rightarrow> path" where
  "relative_path p = (if resolve p = [] then [''.''] else resolve p)"

primrec relative_folders :: "(world, unit) prog \<Rightarrow> path list \<Rightarrow> (world, path list) prog" where
  "relative_folders usage [] = ret []"
| "relative_folders usage (p # ps) =
     bnd (on_files (fs_exists p)) (\<lambda>there.
     bnd (if there then ret (relative_path p) else bnd usage (\<lambda>_. ret p)) (\<lambda>q.
     bnd (relative_folders usage ps) (\<lambda>qs. ret (q # qs))))"

text \<open>The gateway the command line names; the handler catches \<open>ZTError\<close> only.  The temporary peer is
  moved into the vector; \<open>grow\<close> says whether the vector, which may hold peers accepted before, has to
  grow for it.\<close>

definition join_network :: "(world, unit) prog \<Rightarrow> bool \<Rightarrow> ip_address \<Rightarrow> 16 word \<Rightarrow> (world, unit) prog" where
  "join_network usage grow remote port =
     catch
       (bnd (connect_peer remote port 3) (\<lambda>p.
        updates (\<lambda>w. w\<lparr>peers := emplace_peer grow (move_new p) (peers w), gatewayIP := remote\<rparr>)))
       (\<lambda>e. case e of NetworkError _ \<Rightarrow> usage | _ \<Rightarrow> throw e)"

text \<open>
  The network is set up in a thread of its own while the main thread tidies up the folders:
  \<open>MessageManager::setup\<close>, then \<open>network\<close>, which stands for \<open>ZeroTierNode::setup\<close> (\<open>setup_node\<close> in
  theory ZTNode, over a state of its own) and for starting the listening thread.  The two threads are
  run one after the other here: what \<open>MessageManager::setup\<close> does and what the sweeper's does
  commute (\<open>setup_threads_commute\<close>).
\<close>

definition startup ::
    "(world, unit) prog \<Rightarrow> (world, unit) prog \<Rightarrow> bool \<Rightarrow> string \<Rightarrow> ip_address \<Rightarrow> 16 word
      \<Rightarrow> (world, unit) prog" where
  "startup usage network grow folder_option remote port =
     (let given = map parse_path (split_commas folder_option) in
      bnd (if length given = 1 \<and> given ! 0 = [] \<and> \<not> isValid remote then usage else ret ()) (\<lambda>_.
      bnd (relative_folders usage (if isValid remote then [] else given)) (\<lambda>fds.
      bnd (updates (setup_MessageManager fds)) (\<lambda>_.
      bnd network (\<lambda>_.
      bnd (setup_sweeper fds) (\<lambda>_.
      if isValid remote then join_network usage grow remote port
      else updates (\<lambda>w. w\<lparr>totalInitialFiles := 0\<rparr>)))))))"

lemma setup_threads_commute:
  "setup_sweeper fds (setup_MessageManager gs w)
    = (case setup_sweeper fds w of (r, v) \<Rightarrow> (r, setup_MessageManager gs v))"
proof (induction fds arbitrary: w)
  case Nil
  then show ?case by (simp add: setup_sweeper_def ret_exec)
next
  case (Cons d fds)
  have s: "files (setup_MessageManager gs w) = files w"
    "(setup_MessageManager gs w)\<lparr>files := fs\<rparr> = setup_MessageManager gs (w\<lparr>files := fs\<rparr>)" for w fs
    by (simp_all add: setup_MessageManager_def)
  show ?case
    using Cons by (auto simp: setup_sweeper_def bnd_exec on_files_exec s split: prod.split sum.split)
qed

section \<open>The main loop\<close>

text \<open>Process messages for a second; the fuel bounds the number of calls.\<close>

primrec process_for_a_second :: "lib \<Rightarrow> nat \<Rightarrow> int \<Rightarrow> (world, unit) prog" where
  "process_for_a_second L 0 began = throw OutOfFuel"
| "process_for_a_second L (Suc fuel) began =
     bnd now (\<lambda>t.
     if tdiv (t - began) 1000000 < 1000
     then bnd (processNextMessage L) (\<lambda>_. process_for_a_second L fuel began)
     else ret ())"

definition main_iteration :: "lib \<Rightarrow> nat \<Rightarrow> (sweeper \<times> world, unit) prog" where
  "main_iteration L fuel =
     bnd (on_env now) (\<lambda>began.
     bnd (totalSweepEveryN (main_env L) 10) (\<lambda>_.
     on_env (process_for_a_second L fuel began)))"

text \<open>The first sweep and \<open>n\<close> rounds of the endless loop.\<close>

primrec rounds :: "lib \<Rightarrow> nat \<Rightarrow> nat \<Rightarrow> (sweeper \<times> world, unit) prog" where
  "rounds L fuel 0 = ret ()"
| "rounds L fuel (Suc n) = bnd (main_iteration L fuel) (\<lambda>_. rounds L fuel n)"

definition main_program ::
    "lib \<Rightarrow> (world, unit) prog \<Rightarrow> (world, unit) prog \<Rightarrow> bool \<Rightarrow> string \<Rightarrow> ip_address \<Rightarrow> 16 word
      \<Rightarrow> nat \<Rightarrow> nat \<Rightarrow> (sweeper \<times> world, unit) prog" where
  "main_program L usage network grow folder_option remote port fuel n =
     bnd (on_env (startup usage network grow folder_option remote port)) (\<lambda>_.
     bnd (sweep (main_env L) True) (\<lambda>_. rounds L fuel n))"

section \<open>The command line\<close>

text \<open>
  The options as Argos returns them: the texts that were given (empty without the option) and, for
  the port, an unsigned number.  \<open>useVerboseOutput\<close> only decides what is printed; it is false here (to
  print the hash of a message, the clock is read two more times).
\<close>

record options =
  opt_folders :: string
  opt_connect :: string
  opt_port :: "32 word option"
  opt_verbose :: bool

definition defaultPort :: "16 word" where "defaultPort = 12345"

definition port_of_options :: "options \<Rightarrow> 16 word" where
  "port_of_options opts = ucast (case opt_port opts of None \<Rightarrow> ucast defaultPort | Some n \<Rightarrow> n)"

text \<open>The reader of addresses is \<open>zt::IpAddress::ipv6FromString\<close>.\<close>

definition main_with_options ::
    "lib \<Rightarrow> (world, unit) prog \<Rightarrow> (16 word \<Rightarrow> (world, unit) prog) \<Rightarrow> bool
      \<Rightarrow> (string \<Rightarrow> ip_address) \<Rightarrow> options \<Rightarrow> nat \<Rightarrow> nat \<Rightarrow> (sweeper \<times> world, unit) prog" where
  "main_with_options L usage network grow ipv6FromString opts =
     (let port = port_of_options opts in
      main_program L usage (network port) grow (opt_folders opts)
        (ipv6FromString (opt_connect opts)) port)"

text \<open>A port that does not fit into 16 bits is taken modulo 65536.\<close>

lemma port_wraps: "opt_port opts = Some n \<Longrightarrow> unat (port_of_options opts) = unat n mod 65536"
  by (simp add: port_of_options_def unsigned_ucast_eq take_bit_eq_mod)

lemma port_default: "opt_port opts = None \<Longrightarrow> port_of_options opts = defaultPort"
  by (simp add: port_of_options_def defaultPort_def)


end
