(* ===== verification/Liveness.thy ===== *)
theory Liveness
  imports MainLoop
begin

text \<open>
  Nothing in the processing of messages runs for ever: the handlers end, and the phase of the main
  loop that processes messages ends as soon as the clock has advanced by a second.
\<close>

section \<open>Running processes\<close>

text \<open>What every step keeps: the message cache and the address, and that clock readings are used up.\<close>

definition running :: "(nat \<Rightarrow> int) \<Rightarrow> nat \<Rightarrow> world \<Rightarrow> bool" where
  "running c k w \<longleftrightarrow> cache_ok w \<and> isValid (self_ip w) \<and> clock w = c \<and> k \<le> ticks w"

abbreviation (input) no_fuel :: "exn set" where
  "no_fuel \<equiv> {OutOfFuel}"

named_theorems live_intro \<open>programs that end\<close>

lemmas [live_intro] = safely_ret safely_gets safely_bnd safely_if safely_option safely_prod
  safely_for_each

lemma live_throw [live_intro]: "e \<noteq> OutOfFuel \<Longrightarrow> safely P no_fuel (throw e)"
  by (rule safely_throw) simp

lemma live_need [live_intro]: "safely P no_fuel (need why x)"
  by (rule safely_need) simp

lemma live_updates:
  "(\<And>w. oldMessages (f w) = oldMessages w \<and> self_ip (f w) = self_ip w \<and> clock (f w) = clock w
      \<and> ticks w \<le> ticks (f w)) \<Longrightarrow> safely (running c k) no_fuel (updates f)"
  by (rule safely_updates) (metis running_def cache_ok_cong le_trans)

lemma live_asked_for [live_intro]: "safely (running c k) no_fuel (updates (asked_for d))"
  by (rule live_updates) simp

lemma live_on_files:
  assumes "safely (\<lambda>_. True) no_fuel m"
  shows "safely (running c k) no_fuel (on_files m)"
proof (rule safelyI)
  fix w
  assume w: "running c k w"
  have "fst (m (files w)) \<notin> Inl ` no_fuel" using assms by (simp add: safely_def)
  then show "running c k (snd (on_files m w)) \<and> fst (on_files m w) \<notin> Inl ` no_fuel"
    using w by (cases "m (files w)") (auto simp: on_files_def running_def cache_ok_def)
qed

lemma live_steps [live_intro]:
  "safely (running c k) no_fuel now" "safely (running c k) no_fuel (enqueue p m)"
  "safely (running c k) no_fuel (peer_send data q)" "safely (running c k) no_fuel (attempt ip port)"
  "safely (running c k) no_fuel (remember m)"
  by (auto simp: safely_def running_def exec_simps cache_ok_def peer_send_def attempt_def
      remember_exec)

lemma live_finished [live_intro]: "safely P no_fuel finishedConnecting"
  unfolding finishedConnecting_def by (rule safely_gets)

section \<open>File operations end\<close>

lemma live_make_dirs: "safely (\<lambda>_. True) no_fuel (make_dirs p pre es)"
proof (induction es arbitrary: pre)
  case Nil
  then show ?case by (simp add: safely_ret)
next
  case (Cons e es)
  then show ?case
    by (auto intro!: live_intro safely_updates split: option.split node.split)
qed

lemma live_enumerate: "safely (\<lambda>_. True) no_fuel (enumerateAllFiles fds)"
  by (induction fds) (auto simp: enumerate_folder_def intro!: live_intro split: option.split node.split)

lemma live_files:
  "safely (\<lambda>_. True) no_fuel (fs_exists p)" "safely (\<lambda>_. True) no_fuel (status_perms p)"
  "safely (\<lambda>_. True) no_fuel (read_file p)" "safely (\<lambda>_. True) no_fuel (gets f)"
  "safely (\<lambda>_. True) no_fuel (permissions p prms opt)" "safely (\<lambda>_. True) no_fuel (fs_remove p)"
  "safely (\<lambda>_. True) no_fuel (create_directories p)" "safely (\<lambda>_. True) no_fuel (write_file p s t)"
  by (auto simp: fs_exists_def status_perms_def read_file_def permissions_def fs_remove_def
      remove_entry_def create_directories_def write_file_def
      intro!: live_intro safely_updates live_make_dirs split: option.split node.split)

lemmas live_on_files_intro [live_intro] =
  live_files [THEN live_on_files] live_enumerate [THEN live_on_files]

section \<open>Sending ends\<close>

lemma live_draw_time [live_intro]: "safely (running c k) no_fuel (draw_time m)"
  unfolding draw_time_def by (intro live_intro)

lemma after_resend_running: "running c k w \<Longrightarrow> running c k (after_resend L m d w)"
  by (auto simp: running_def after_resend_simps) (simp_all add: after_resend_def Let_def posted_def)

text \<open>The resend request for a message that was loaded is sent to everyone, one level deep.\<close>

lemma live_resend_request:
  assumes "lib_laws L" and "as_loaded m"
  shows "safely (running c k) no_fuel (send L (Suc n) (resend_request m) ipv6Unspecified True)"
proof (rule safelyI)
  fix w
  assume w: "running c k w"
  then have "send L (Suc n) (resend_request m) ipv6Unspecified True w
      = (Inr (), after_resend L m ipv6Unspecified w)"
    using assms by (intro send_resend) (simp_all add: running_def as_loaded_def isValid_def)
  then show "running c k (snd (send L (Suc n) (resend_request m) ipv6Unspecified True w))
      \<and> fst (send L (Suc n) (resend_request m) ipv6Unspecified True w) \<notin> Inl ` no_fuel"
    using after_resend_running [OF w] by simp
qed

lemma live_validate:
  assumes "lib_laws L" and "as_loaded m"
  shows "safely (running c k) no_fuel
    (validate_and_enqueue L (\<lambda>m d. send L (Suc n) m d True) m off p)"
proof -
  have "senderNode (header m) = ipv6Unspecified" using assms(2) by (simp add: as_loaded_def)
  then show ?thesis
    unfolding validate_and_enqueue_def validateMessageHash_def
    by (simp only:) (intro live_intro live_resend_request assms)
qed

lemma live_deserialize:
  assumes "lib_laws L"
  shows "safely (running c k) no_fuel (deserializeMessage L (\<lambda>m d. send L (Suc n) m d True) data)"
proof -
  have l: "safely (running c k) no_fuel (bnd (archive_load load data) f)"
    if "\<And>x r. load data = Some (x, r) \<Longrightarrow> safely (running c k) no_fuel (f x)"
    for load :: "'x get" and f :: "'x \<Rightarrow> (world, unit) prog"
    using that by (auto intro: safely_archive_load)
  show ?thesis
    by (auto simp: deserializeMessage_def intro!: live_throw l live_validate [OF assms]
        dest: load_as_loaded split: list.split option.split msg_type.split simp del: send.simps)
qed

lemma live_send: "lib_laws L \<Longrightarrow> safely (running c k) no_fuel (send L (Suc (Suc n)) m d b)"
  unfolding send.simps(2) [of L "Suc n"] routeData_def Let_def
  by (intro live_intro live_deserialize)

lemma live_sendMessage: "lib_laws L \<Longrightarrow> safely (running c k) no_fuel (sendMessage L m d)"
  using live_send [of L c k 0 m d True] by (simp add: sendMessage_def numeral_2_eq_2)


text \<open>C16: Sends nest at most two deep: with fuel 2 the mutual recursion of \<open>send\<close>, \<open>routeData\<close>,
  \<open>deserializeMessage\<close> and \<open>validateMessageHash\<close> ends (the fuel does not run out, whatever is sent), and
  more fuel changes nothing.\<close>

theorem send_two_is_enough:
  assumes "lib_laws L" and "cache_ok w" and "isValid (self_ip w)"
  shows "fst (send L 2 m d b w) \<noteq> Inl OutOfFuel \<and> send L (Suc (Suc n)) m d b w = send L 2 m d b w"
proof -
  have "running (clock w) (ticks w) w" using assms(2,3) by (simp add: running_def)
  then have "fst (send L 2 m d b w) \<notin> Inl ` no_fuel"
    using live_send [OF assms(1), of "clock w" "ticks w" 0 m d b] by (simp add: safely_def numeral_2_eq_2)
  then show ?thesis
    using send_fuel [OF assms(1), of w n m d b] assms(2,3) by (simp add: sendable_def)
qed

theorem send_two_is_enough_witness:
  "fst (send raw_lib 2 sample_lock ipv6Unspecified True sample_world) \<noteq> Inl OutOfFuel
    \<and> send raw_lib (Suc (Suc 7)) sample_lock ipv6Unspecified True sample_world
      = send raw_lib 2 sample_lock ipv6Unspecified True sample_world"
  by (rule send_two_is_enough [OF raw.lib_laws_axioms cache_ok_sample]) (simp add: isValid_def)

section \<open>Handlers end\<close>

lemma live_paths [live_intro]:
  "safely P no_fuel (the_lockFilePath p)" "safely P no_fuel (the_wntsPath p)"
  unfolding the_lockFilePath_def the_wntsPath_def by (intro live_intro)+

lemma live_archive_load [live_intro]: "safely P no_fuel (archive_load load data)"
  by (auto simp: archive_load_def intro!: live_intro split: option.split)

lemma live_loadLockFile [live_intro]: "safely (running c k) no_fuel (loadLockFile L p)"
  unfolding loadLockFile_def by (intro live_intro) simp_all

lemma live_write_out [live_intro]: "safely (running c k) no_fuel (write_out p s)"
  unfolding write_out_def by (intro live_intro)

lemma live_open_out [live_intro]: "safely (running c k) no_fuel (open_out p)"
  unfolding open_out_def by (intro live_intro)

lemma live_archive_save [live_intro]: "safely (running c k) no_fuel (archive_save b p bs)"
  unfolding archive_save_def by (intro live_intro) simp_all

lemma live_check_lock [live_intro]: "safely (running c k) no_fuel (check_lock L p ip)"
  unfolding check_lock_def by (intro live_intro)

lemma live_dial: "safely (running c k) no_fuel (dial ip port n)"
  by (induction n) (simp_all add: live_intro)

lemma live_connect_peer [live_intro]: "safely (running c k) no_fuel (connect_peer ip port n)"
  unfolding connect_peer_def Let_def by (intro live_intro live_dial) simp

lemma live_try_backups: "safely (running c k) no_fuel (try_backups pre bs)"
proof (induction bs arbitrary: pre)
  case Nil
  then show ?case by (simp add: safely_ret)
next
  case (Cons b bs)
  have "safely (running c k) no_fuel (case e of RuntimeError _ \<Rightarrow> try_backups (pre @ [b]) bs | _ \<Rightarrow> throw e)"
    if "e \<notin> no_fuel" for e
    using Cons that by (auto intro!: safely_throw split: exn.split)
  moreover have "safely (running c k) no_fuel
    (bnd (connect_peer (fst b) (snd b) 3) (\<lambda>p.
         updates (\<lambda>w. w\<lparr>peers := insert_front p (peers w), gatewayIP := fst b, backup_peers := pre @ bs\<rparr>)))"
    by (intro live_intro live_updates) simp_all
  ultimately show ?case
    using Cons by (auto intro!: safely_catch [where F = no_fuel])
qed

lemma live_simple_handlers:
  "safely (running c k) no_fuel (processLockMessage L m)"
  "safely (running c k) no_fuel (processUnlockMessage L m)"
  "safely (running c k) no_fuel (processDeleteFileMessage L m)"
  "safely (running c k) no_fuel (processContentFileMessage L m')"
  "safely (running c k) no_fuel (processInitialFileSyncMessage ms)"
  "safely (running c k) no_fuel (processConnectMessage mc)"
  unfolding processLockMessage_def processUnlockMessage_def processDeleteFileMessage_def
    processContentFileMessage_def processInitialFileSyncMessage_def processConnectMessage_def
  by (intro live_intro live_updates; simp)+

lemma live_cast [live_intro]: "safely P no_fuel (cast x)"
  unfolding cast_def by (rule live_need)

lemma live_resend: "lib_laws L \<Longrightarrow> safely (running c k) no_fuel (resend L m d)"
  by (auto simp: resend_def intro!: live_intro live_sendMessage split: option.split msg_type.split)

lemma live_resend_loop: "lib_laws L \<Longrightarrow> safely (running c k) no_fuel (resend_loop L r xs)"
  by (induction xs) (simp_all add: live_intro live_resend)

lemma live_resend_request_handler:
  assumes "lib_laws L"
  shows "safely (running c k) no_fuel (processResendRequestMessage L r)"
proof -
  have "safely (running c k) no_fuel (bnd (gets (\<lambda>w. range_for (oldMessages w))) (\<lambda>visited. case visited of
       None \<Rightarrow> throw OutOfFuel | Some xs \<Rightarrow> resend_loop L r xs))"
  proof (rule safely_gets_bnd)
    fix w
    assume "running c k w"
    then have "cb_inv (oldMessages w)" by (simp add: running_def cache_ok_def)
    then obtain xs where "range_for (oldMessages w) = Some xs"
      using range_for_filled range_for_empty by (cases "bsize (oldMessages w) = 0") blast+
    then show "safely (running c k) no_fuel (case range_for (oldMessages w) of
       None \<Rightarrow> throw OutOfFuel | Some xs \<Rightarrow> resend_loop L r xs)"
      by (simp add: live_resend_loop assms)
  qed
  then show ?thesis
    unfolding processResendRequestMessage_def
    by (intro safely_bnd [OF safely_gets]) (simp add: safely_ret)
qed

lemma live_sending_handlers:
  assumes "lib_laws L"
  shows "safely (running c k) no_fuel (processInitialFileSyncRequestMessage L m)"
    "safely (running c k) no_fuel (processLinkLostMessage L m)"
    "safely (running c k) no_fuel (processDisconnectMessage L m)"
  unfolding processInitialFileSyncRequestMessage_def processLinkLostMessage_def
    processDisconnectMessage_def send_sync_def split_beta remove_peer_def broadcast_def
  by (intro live_intro live_updates live_try_backups live_sendMessage assms; simp)+

lemma live_requeue [live_intro]: "safely P E (requeue p ok)"
  unfolding requeue_def by (rule safely_ret)

lemma live_dispatch:
  assumes "lib_laws L"
  shows "safely (running c k) no_fuel (dispatch L m)"
  by (auto simp: dispatch_def intro!: live_intro live_simple_handlers live_sending_handlers
      live_resend_request_handler assms split: option.split msg_type.split)

lemma live_processNextMessage:
  assumes "lib_laws L"
  shows "safely (running c k) no_fuel (processNextMessage L)"
  unfolding processNextMessage_def
  by (intro live_intro live_updates live_dispatch assms) simp_all

section \<open>A second of processing ends\<close>

lemma process_for_a_second_ends:
  assumes L: "lib_laws L" and late: "\<forall>i \<ge> n. 1000000000 \<le> c i - began"
  shows "running c k w \<Longrightarrow> n \<le> k + fuel \<Longrightarrow>
    fst (process_for_a_second L (Suc fuel) began w) \<noteq> Inl OutOfFuel"
proof (induction fuel arbitrary: k w)
  case (0 k)
  then have "1000000000 \<le> clock w (ticks w) - began" using late by (simp add: running_def)
  then have "\<not> tdiv (clock w (ticks w) - began) 1000000 < 1000"
    by (simp add: tdiv_nonneg)
  then show ?case by (simp add: exec_simps)
next
  case (Suc fuel k)
  let ?w = "w\<lparr>ticks := Suc (ticks w)\<rparr>"
  obtain r v where rv: "processNextMessage L ?w = (r, v)" by (cases "processNextMessage L ?w")
  have "running c (Suc k) ?w" using Suc.prems(1) by (simp add: running_def cache_ok_def)
  then have v: "running c (Suc k) v \<and> r \<notin> Inl ` no_fuel"
    using safelyD [OF live_processNextMessage [OF L] _ rv] by blast
  have "fst (process_for_a_second L (Suc fuel) began v) \<noteq> Inl OutOfFuel"
    by (rule Suc.IH [of "Suc k"]) (use v Suc.prems(2) in simp_all)
  then show ?case
    using rv v by (auto simp: exec_simps process_for_a_second.simps(2) [of L "Suc fuel"]
        simp del: process_for_a_second.simps split: sum.split)
qed

text \<open>C12: Processing messages for a second ends: if from the \<open>n\<close>-th reading on the clock is a second
  past the start, \<open>n\<close> calls of \<open>processNextMessage\<close> are never exceeded, and no handler, whatever is
  queued, keeps it from returning.\<close>

theorem processing_ends_after_a_second:
  assumes "lib_laws L" and "cache_ok w" and "isValid (self_ip w)"
    and "\<forall>i \<ge> n. 1000000000 \<le> clock w i - began" and "n \<le> ticks w + fuel"
  shows "fst (process_for_a_second L (Suc fuel) began w) \<noteq> Inl OutOfFuel"
  by (rule process_for_a_second_ends [OF assms(1,4), of "ticks w"])
    (use assms(2,3,5) in \<open>simp_all add: running_def\<close>)

theorem processing_ends_after_a_second_witness:
  "let w = sample_world\<lparr>clock := (\<lambda>i. of_nat i * 100000000),
      messageQueue := [(lockPriority, sample_lock), (disconnectPriority, sample_payload)]\<rparr>
   in fst (process_for_a_second raw_lib 11 0 w) \<noteq> Inl OutOfFuel"
proof -
  let ?w = "sample_world\<lparr>clock := (\<lambda>i. of_nat i * 100000000),
      messageQueue := [(lockPriority, sample_lock), (disconnectPriority, sample_payload)]\<rparr>"
  have "cache_ok ?w" using cache_ok_sample by (simp add: cache_ok_def)
  then have "fst (process_for_a_second raw_lib (Suc 10) 0 ?w) \<noteq> Inl OutOfFuel"
    by (intro processing_ends_after_a_second [OF raw.lib_laws_axioms, where n = 10])
      (simp_all add: isValid_def)
  then show ?thesis by (simp add: Let_def del: process_for_a_second.simps)
qed

end
