(* ===== verification/Monitor.thy ===== *)
theory Monitor
  imports Prelude
begin

text \<open>
  The monitors of \<open>src/src/monitor.hpp\<close> and how the threads of the process use the two it has: the
  one around the list of peers (\<open>src/src/peer_manager.hpp\<close>) and the one around the message queue
  (\<open>src/src/message_manager.hpp\<close>).  A thread is the list of what it still does with the mutexes; the
  threads run in any interleaving.  \<open>std::shared_mutex\<close> leaves open whether a waiting writer keeps
  new readers out: that choice is a parameter.
\<close>

section \<open>The mutex\<close>

type_synonym thread = nat

record shared_mutex =
  writer :: "thread option"
  readers :: "thread list"

definition free_mutex :: shared_mutex where
  "free_mutex = \<lparr>writer = None, readers = []\<rparr>"

text \<open>\<open>std::unique_lock\<close> and \<open>std::shared_lock\<close>; \<open>None\<close> means that the thread waits.\<close>

definition acquire_unique :: "thread \<Rightarrow> shared_mutex \<Rightarrow> shared_mutex option" where
  "acquire_unique t m =
     (if writer m = None \<and> readers m = [] then Some (m\<lparr>writer := Some t\<rparr>) else None)"

definition acquire_shared :: "thread \<Rightarrow> shared_mutex \<Rightarrow> shared_mutex option" where
  "acquire_shared t m = (if writer m = None then Some (m\<lparr>readers := t # readers m\<rparr>) else None)"

definition release_unique :: "shared_mutex \<Rightarrow> shared_mutex" where
  "release_unique m = m\<lparr>writer := None\<rparr>"

definition release_shared :: "thread \<Rightarrow> shared_mutex \<Rightarrow> shared_mutex" where
  "release_shared t m = m\<lparr>readers := remove1 t (readers m)\<rparr>"

section \<open>The pointers a monitor hands out\<close>

text \<open>\<open>creator\<close> says whether the pointer to the monitor is set, \<open>owns\<close> whether the lock is held.\<close>

record guard =
  creator :: bool
  owns :: bool

definition has_lock :: "guard \<Rightarrow> bool" where
  "has_lock g = creator g"

definition write_lock :: "thread \<Rightarrow> shared_mutex \<Rightarrow> (guard \<times> shared_mutex) option" where
  "write_lock t m = map_option (\<lambda>m'. (\<lparr>creator = True, owns = True\<rparr>, m')) (acquire_unique t m)"

definition read_lock :: "thread \<Rightarrow> shared_mutex \<Rightarrow> (guard \<times> shared_mutex) option" where
  "read_lock t m = map_option (\<lambda>m'. (\<lparr>creator = True, owns = True\<rparr>, m')) (acquire_shared t m)"

definition try_write_lock :: "thread \<Rightarrow> shared_mutex \<Rightarrow> guard \<times> shared_mutex" where
  "try_write_lock t m =
     (let lock = \<lparr>creator = False, owns = False\<rparr> in
      case acquire_unique t m of
        Some m' \<Rightarrow> (lock\<lparr>creator := True, owns := True\<rparr>, m')
      | None \<Rightarrow> (lock, m))"

definition try_read_lock :: "thread \<Rightarrow> shared_mutex \<Rightarrow> guard \<times> shared_mutex" where
  "try_read_lock t m =
     (let lock = \<lparr>creator = False, owns = False\<rparr> in
      case acquire_shared t m of
        Some m' \<Rightarrow> (lock\<lparr>creator := True, owns := True\<rparr>, m')
      | None \<Rightarrow> (lock, m))"

section \<open>Threads\<close>

datatype mutex_id = PeersMutex | QueueMutex

datatype instr =
    Shared mutex_id | Unshared mutex_id
  | Unique mutex_id | Ununique mutex_id
  | Join thread

record system =
  mutexes :: "mutex_id \<Rightarrow> shared_mutex"
  todo :: "instr list list"

definition boot :: "instr list list \<Rightarrow> system" where
  "boot cs = \<lparr>mutexes = (\<lambda>_. free_mutex), todo = cs\<rparr>"

definition writer_waits :: "mutex_id \<Rightarrow> system \<Rightarrow> bool" where
  "writer_waits m s \<longleftrightarrow> list_ex (\<lambda>c. c \<noteq> [] \<and> hd c = Unique m) (todo s)"

definition set_mutex :: "mutex_id \<Rightarrow> shared_mutex option \<Rightarrow> system \<Rightarrow> system option" where
  "set_mutex m x s = map_option (\<lambda>x'. s\<lparr>mutexes := (mutexes s)(m := x')\<rparr>) x"

text \<open>What an instruction of thread \<open>t\<close> does; \<open>None\<close> means that it has to wait.\<close>

fun effect :: "bool \<Rightarrow> thread \<Rightarrow> instr \<Rightarrow> system \<Rightarrow> system option" where
  "effect writers_first t (Shared m) s =
     (if writers_first \<and> writer_waits m s then None
      else set_mutex m (acquire_shared t (mutexes s m)) s)"
| "effect writers_first t (Unshared m) s = set_mutex m (Some (release_shared t (mutexes s m))) s"
| "effect writers_first t (Unique m) s = set_mutex m (acquire_unique t (mutexes s m)) s"
| "effect writers_first t (Ununique m) s = set_mutex m (Some (release_unique (mutexes s m))) s"
| "effect writers_first t (Join u) s =
     (if u < length (todo s) \<and> todo s ! u \<noteq> [] then None else Some s)"

definition run_thread :: "bool \<Rightarrow> thread \<Rightarrow> system \<Rightarrow> system option" where
  "run_thread writers_first t s =
     (case todo s ! t of
        [] \<Rightarrow> None
      | i # is \<Rightarrow> map_option (\<lambda>s'. s'\<lparr>todo := (todo s')[t := is]\<rparr>) (effect writers_first t i s))"

inductive reach :: "bool \<Rightarrow> system \<Rightarrow> system \<Rightarrow> bool" for writers_first s0 where
  here: "reach writers_first s0 s0"
| there: "reach writers_first s0 s \<Longrightarrow> t < length (todo s) \<Longrightarrow> run_thread writers_first t s = Some s'
    \<Longrightarrow> reach writers_first s0 s'"

text \<open>Some thread is not done, and none can go on.\<close>

definition stuck :: "bool \<Rightarrow> system \<Rightarrow> bool" where
  "stuck writers_first s \<longleftrightarrow> list_ex (\<lambda>c. c \<noteq> []) (todo s)
     \<and> list_all (\<lambda>t. run_thread writers_first t s = None) [0..<length (todo s)]"

section \<open>What the operations of the program do with the mutexes\<close>

text \<open>\<open>messageQueue->\<close> holds the queue's lock for one call.\<close>

definition queue_locks :: "instr list" where
  "queue_locks = [Unique QueueMutex, Ununique QueueMutex]"

text \<open>
  What becomes of routed data here: it is not for this node, it is queued, or its hash is wrong and a
  resend request is broadcast while the list of peers is still locked.
\<close>

datatype handled = Elsewhere | Queued | Refused

definition routeData_locks :: "instr list \<Rightarrow> instr list" where
  "routeData_locks body = Shared PeersMutex # body @ [Unshared PeersMutex]"

fun deserialize_locks :: "handled \<Rightarrow> instr list" where
  "deserialize_locks Elsewhere = []"
| "deserialize_locks Queued = queue_locks"
| "deserialize_locks Refused = routeData_locks queue_locks"

text \<open>
  The operations, with the threads that are joined because the list of peers moves or destroys their
  \<open>Peer\<close> (\<open>Peer::operator=\<close> and the destructor of \<open>std::jthread\<close>) while it is locked.
\<close>

datatype operation =
    Route handled
  | Accept handled
  | LinkLost "handled option"
  | EnqueueLinkLost
  | ProcessNext "operation option" bool

fun locks_of :: "thread list \<Rightarrow> operation \<Rightarrow> instr list" where
  "locks_of moved (Route h) = routeData_locks (deserialize_locks h)"
| "locks_of moved (Accept h) =
     Unique PeersMutex # map Join moved @ [Ununique PeersMutex]
       @ routeData_locks (deserialize_locks h) @ queue_locks"
| "locks_of moved (LinkLost notify) =
     Unique PeersMutex # map Join moved @ [Ununique PeersMutex]
       @ (case notify of None \<Rightarrow> [] | Some h \<Rightarrow> routeData_locks (deserialize_locks h))"
| "locks_of moved EnqueueLinkLost = queue_locks"
| "locks_of moved (ProcessNext handler requeued) =
     queue_locks @ queue_locks @ queue_locks
       @ (case handler of None \<Rightarrow> [] | Some h \<Rightarrow> locks_of moved h)
       @ (if requeued then queue_locks else [])"

section \<open>Mutual exclusion\<close>

definition excluding :: "shared_mutex \<Rightarrow> bool" where
  "excluding m \<longleftrightarrow> writer m = None \<or> readers m = []"

lemma effect_excluding:
  "effect pf t i s = Some s' \<Longrightarrow> \<forall>m. excluding (mutexes s m) \<Longrightarrow> excluding (mutexes s' m)"
  by (cases i) (auto simp: set_mutex_def excluding_def acquire_shared_def acquire_unique_def
      release_shared_def release_unique_def split: if_splits)

lemma run_thread_Some:
  assumes "run_thread pf t s = Some s'"
  obtains i c s1 where "todo s ! t = i # c" "effect pf t i s = Some s1"
    "s' = s1\<lparr>todo := (todo s1)[t := c]\<rparr>"
  using assms by (auto simp: run_thread_def split: list.splits)

lemma reach_excluding: "reach pf (boot cs) s \<Longrightarrow> excluding (mutexes s m)"
proof (induction arbitrary: m rule: reach.induct)
  case here
  then show ?case by (simp add: boot_def free_mutex_def excluding_def)
next
  case (there s t s')
  then show ?case by (auto elim!: run_thread_Some dest: effect_excluding)
qed

lemma try_locks:
  "has_lock (fst (try_write_lock t m)) \<longleftrightarrow> writer m = None \<and> readers m = []"
  "has_lock (fst (try_read_lock t m)) \<longleftrightarrow> writer m = None"
  by (auto simp: try_write_lock_def try_read_lock_def has_lock_def acquire_unique_def
      acquire_shared_def Let_def)

section \<open>Threads that keep the order of the mutexes\<close>

text \<open>
  \<open>ordered d w q c\<close>: a thread that holds \<open>d\<close> read locks on the peers, the write lock on the peers if
  \<open>w\<close>, and the lock on the queue if \<open>q\<close>, takes and releases its locks properly with what it has left,
  takes nothing while it holds the queue, and joins no thread.
\<close>

fun ordered :: "nat \<Rightarrow> bool \<Rightarrow> bool \<Rightarrow> instr list \<Rightarrow> bool" where
  "ordered d w q [] \<longleftrightarrow> d = 0 \<and> \<not> w \<and> \<not> q"
| "ordered d w q (Shared m # c) \<longleftrightarrow> m = PeersMutex \<and> \<not> w \<and> \<not> q \<and> ordered (Suc d) w q c"
| "ordered d w q (Unshared m # c) \<longleftrightarrow> m = PeersMutex \<and> 0 < d \<and> \<not> q \<and> ordered (d - 1) w q c"
| "ordered d w q (Unique m # c) \<longleftrightarrow> \<not> q \<and>
     (case m of PeersMutex \<Rightarrow> d = 0 \<and> \<not> w \<and> ordered d True q c | QueueMutex \<Rightarrow> ordered d w True c)"
| "ordered d w q (Ununique m # c) \<longleftrightarrow>
     (case m of PeersMutex \<Rightarrow> w \<and> \<not> q \<and> ordered d False q c | QueueMutex \<Rightarrow> q \<and> ordered d w False c)"
| "ordered d w q (Join t # c) \<longleftrightarrow> False"

text \<open>Sections that leave the locks as they found them.\<close>

lemma ordered_queue [simp]: "ordered d w False (queue_locks @ c) = ordered d w False c"
  by (simp add: queue_locks_def)

lemma ordered_deserialize [simp]:
  "ordered d False False (deserialize_locks h @ c) = ordered d False False c"
  by (cases h) (simp_all add: routeData_locks_def)

lemma ordered_route [simp]:
  "ordered d False False (routeData_locks (deserialize_locks h) @ c) = ordered d False False c"
  by (simp add: routeData_locks_def)

lemma ordered_locks_of [simp]:
  "ordered 0 False False (locks_of [] op @ c) = ordered 0 False False c"
proof (induction op arbitrary: c)
  case (ProcessNext h r)
  show ?case
    by (cases h) (use ProcessNext in auto)
qed (simp_all split: option.split)

lemma ordered_program: "ordered 0 False False (concat (map (locks_of []) ops))"
  by (induction ops) simp_all



section \<open>The invariant of ordered threads\<close>

text \<open>Every lock that is held belongs to a thread that still releases it.\<close>

definition held_by :: "system \<Rightarrow> thread \<Rightarrow> instr list \<Rightarrow> bool" where
  "held_by s t c \<longleftrightarrow> ordered (count_list (readers (mutexes s PeersMutex)) t)
     (writer (mutexes s PeersMutex) = Some t) (writer (mutexes s QueueMutex) = Some t) c"

definition all_ordered :: "system \<Rightarrow> bool" where
  "all_ordered s \<longleftrightarrow> (\<forall>t < length (todo s). held_by s t (todo s ! t))
     \<and> (\<forall>m. excluding (mutexes s m)) \<and> readers (mutexes s QueueMutex) = []
     \<and> set (readers (mutexes s PeersMutex)) \<subseteq> {..<length (todo s)}
     \<and> (\<forall>m t. writer (mutexes s m) = Some t \<longrightarrow> t < length (todo s))"

lemma all_ordered_boot: "\<forall>c \<in> set cs. ordered 0 False False c \<Longrightarrow> all_ordered (boot cs)"
  by (simp add: all_ordered_def boot_def free_mutex_def held_by_def excluding_def)

lemma count_remove1 [simp]: "count_list (remove1 x xs) y = count_list xs y - (if x = y then 1 else 0)"
  by (induction xs) auto

lemma effect_todo [simp]: "effect pf t i s = Some s' \<Longrightarrow> todo s' = todo s"
  by (cases i) (auto simp: set_mutex_def split: if_splits)

lemma effect_held:
  assumes "effect pf t i s = Some s'" and "held_by s t (i # c)"
    and "readers (mutexes s QueueMutex) = []"
  shows "held_by s' t c \<and> readers (mutexes s' QueueMutex) = []
    \<and> set (readers (mutexes s' PeersMutex)) \<subseteq> insert t (set (readers (mutexes s PeersMutex)))
    \<and> (\<forall>m u. writer (mutexes s' m) = Some u \<longrightarrow> u = t \<or> writer (mutexes s m) = Some u)"
proof (cases i)
  case (Shared m)
  then show ?thesis
    using assms by (auto simp: set_mutex_def held_by_def acquire_shared_def split: if_splits)
next
  case (Unshared m)
  have "set (readers (release_shared t (mutexes s PeersMutex))) \<subseteq> set (readers (mutexes s PeersMutex))"
    by (simp add: release_shared_def set_remove1_subset)
  then show ?thesis
    using Unshared assms by (auto simp: set_mutex_def held_by_def release_shared_def split: if_splits)
next
  case (Unique m)
  then show ?thesis
    using assms by (cases m) (auto simp: set_mutex_def held_by_def acquire_unique_def split: if_splits)
next
  case (Ununique m)
  then show ?thesis
    using assms by (cases m) (auto simp: set_mutex_def held_by_def release_unique_def split: if_splits)
next
  case (Join u)
  then show ?thesis using assms by (simp add: held_by_def)
qed

text \<open>A step of one thread does not change what the others hold.\<close>

lemma effect_others:
  assumes "effect pf t i s = Some s'" and "held_by s t (i # c)" and "u \<noteq> t"
  shows "held_by s' u d = held_by s u d"
proof (cases i)
  case (Ununique m)
  then show ?thesis
    using assms by (cases m) (auto simp: set_mutex_def held_by_def release_unique_def)
next
  case (Unique m)
  then show ?thesis
    using assms by (cases m) (auto simp: set_mutex_def held_by_def acquire_unique_def split: if_splits)
qed (use assms in \<open>auto simp: set_mutex_def held_by_def acquire_shared_def release_shared_def
       split: if_splits\<close>)

lemma run_thread_ordered:
  assumes inv: "all_ordered s" and t: "t < length (todo s)" and run: "run_thread pf t s = Some s'"
  shows "all_ordered s'"
proof -
  obtain i c s1 where c: "todo s ! t = i # c" and e: "effect pf t i s = Some s1"
    and s': "s' = s1\<lparr>todo := (todo s1)[t := c]\<rparr>"
    using run by (rule run_thread_Some)
  have h: "held_by s t (i # c)" using inv t c by (metis all_ordered_def)
  have q: "readers (mutexes s QueueMutex) = []" using inv by (simp add: all_ordered_def)
  note eh = effect_held [OF e h q]
  have len: "todo s1 = todo s" using e by simp
  have upd: "held_by (s1\<lparr>todo := x\<rparr>) u d = held_by s1 u d" for x u d by (simp add: held_by_def)
  have "held_by s' u (todo s' ! u)" if "u < length (todo s')" for u
    using that inv eh effect_others [OF e h, of u] t
    by (cases "u = t") (simp_all add: s' len upd all_ordered_def)
  moreover have "\<forall>m. excluding (mutexes s' m)"
    using effect_excluding [OF e] inv by (simp add: s' all_ordered_def)
  moreover have "set (readers (mutexes s' PeersMutex)) \<subseteq> {..<length (todo s')}"
    using inv eh t by (auto simp: s' len all_ordered_def)
  moreover have "\<forall>m u. writer (mutexes s' m) = Some u \<longrightarrow> u < length (todo s')"
    using inv eh t unfolding all_ordered_def by (simp add: s' len) metis
  ultimately show ?thesis using eh by (simp add: all_ordered_def s')
qed

lemma reach_ordered:
  "reach pf (boot cs) s \<Longrightarrow> \<forall>c \<in> set cs. ordered 0 False False c \<Longrightarrow> all_ordered s"
proof (induction rule: reach.induct)
  case here
  then show ?case by (rule all_ordered_boot)
next
  case (there s t s')
  then show ?case by (blast intro: run_thread_ordered)
qed

text \<open>Some thread can always go on, when waiting writers do not keep readers out.\<close>

lemma ordered_progress:
  assumes inv: "all_ordered s"
  shows "\<not> stuck False s"
proof
  assume st: "stuck False s"
  then have no: "run_thread False t s = None" if "t < length (todo s)" for t
    using that by (auto simp: stuck_def list_all_iff)
  have ord: "held_by s t (todo s ! t)" if "t < length (todo s)" for t
    using inv that by (simp add: all_ordered_def)
  have queue: "writer (mutexes s QueueMutex) = None"
  proof (rule ccontr)
    assume "writer (mutexes s QueueMutex) \<noteq> None"
    then obtain t where t: "writer (mutexes s QueueMutex) = Some t" "t < length (todo s)"
      using inv by (auto simp: all_ordered_def)
    show False
      using ord [OF t(2)] no [OF t(2)] t(1)
      by (cases "todo s ! t" rule: list.exhaust; cases "hd (todo s ! t)")
        (auto simp: held_by_def run_thread_def set_mutex_def split: mutex_id.splits)
  qed
  have qr: "readers (mutexes s QueueMutex) = []" using inv by (simp add: all_ordered_def)
  have can_queue: "acquire_unique t (mutexes s QueueMutex)
      = Some ((mutexes s QueueMutex)\<lparr>writer := Some t\<rparr>)" for t
    using queue qr by (simp add: acquire_unique_def)
  have peers: "writer (mutexes s PeersMutex) = None"
  proof (rule ccontr)
    assume "writer (mutexes s PeersMutex) \<noteq> None"
    then obtain t where t: "writer (mutexes s PeersMutex) = Some t" "t < length (todo s)"
      using inv by (auto simp: all_ordered_def)
    moreover have "readers (mutexes s PeersMutex) = []"
      using inv t(1) unfolding all_ordered_def excluding_def by (metis option.distinct(1))
    ultimately show False
      using ord [OF t(2)] no [OF t(2)] can_queue queue
      by (cases "todo s ! t" rule: list.exhaust; cases "hd (todo s ! t)")
        (auto simp: held_by_def run_thread_def set_mutex_def split: mutex_id.splits)
  qed
  have readers: "readers (mutexes s PeersMutex) = []"
  proof (rule ccontr)
    assume "readers (mutexes s PeersMutex) \<noteq> []"
    then obtain t where t: "t \<in> set (readers (mutexes s PeersMutex))" by (meson list.set_sel(1))
    then have l: "t < length (todo s)" and n: "count_list (readers (mutexes s PeersMutex)) t \<noteq> 0"
      using inv by (auto simp: all_ordered_def count_list_0_iff)
    show False
      using ord [OF l] no [OF l] n can_queue queue peers
      by (cases "todo s ! t" rule: list.exhaust; cases "hd (todo s ! t)")
        (auto simp: held_by_def run_thread_def set_mutex_def acquire_shared_def split: mutex_id.splits)
  qed
  obtain t where t: "t < length (todo s)" "todo s ! t \<noteq> []"
    using st by (auto simp: stuck_def list_ex_iff in_set_conv_nth)
  show False
    using ord [OF t(1)] no [OF t(1)] t(2) can_queue queue peers readers
    by (cases "todo s ! t" rule: list.exhaust; cases "hd (todo s ! t)")
      (auto simp: held_by_def run_thread_def set_mutex_def acquire_shared_def acquire_unique_def
        split: mutex_id.splits)
qed



section \<open>Properties\<close>

text \<open>A schedule names the thread of each step.\<close>

fun run_schedule :: "bool \<Rightarrow> thread list \<Rightarrow> system \<Rightarrow> system option" where
  "run_schedule writers_first [] s = Some s"
| "run_schedule writers_first (t # ts) s =
     (if t < length (todo s)
      then (case run_thread writers_first t s of
              None \<Rightarrow> None | Some s' \<Rightarrow> run_schedule writers_first ts s')
      else None)"

lemma reach_schedule: "run_schedule pf ts s = Some s' \<Longrightarrow> reach pf s0 s \<Longrightarrow> reach pf s0 s'"
  by (induction ts arbitrary: s) (auto split: if_splits option.splits intro: reach.there)

lemmas schedule_simps = boot_def free_mutex_def run_thread_def set_mutex_def acquire_unique_def
  acquire_shared_def release_unique_def release_shared_def routeData_locks_def queue_locks_def
  writer_waits_def

text \<open>C8: Threads that run any sequence of the program's operations never deadlock over the two
  monitors, as long as no operation has to join a listening thread while the list of peers is
  locked and waiting writers do not keep readers out.\<close>

theorem no_deadlock_without_joins:
  assumes "reach False (boot (map (\<lambda>ops. concat (map (locks_of []) ops)) threads)) s"
  shows "\<not> stuck False s"
proof -
  have "\<forall>c \<in> set (map (\<lambda>ops. concat (map (locks_of []) ops)) threads). ordered 0 False False c"
    using ordered_program by auto
  with assms show ?thesis by (intro ordered_progress reach_ordered)
qed

theorem no_deadlock_without_joins_witness:
  "\<exists>s. run_schedule False [0, 1, 1, 0]
        (boot (map (\<lambda>ops. concat (map (locks_of []) ops))
          [[Route Refused], [EnqueueLinkLost, LinkLost (Some Queued)]])) = Some s
     \<and> \<not> stuck False s"
proof -
  let ?b = "boot (map (\<lambda>ops. concat (map (locks_of []) ops))
          [[Route Refused], [EnqueueLinkLost, LinkLost (Some Queued)]])"
  obtain s where s: "run_schedule False [0, 1, 1, 0] ?b = Some s"
    by (simp add: schedule_simps)
  have "reach False ?b s" by (rule reach_schedule [OF s reach.here])
  from no_deadlock_without_joins [OF this] s show ?thesis by blast
qed

text \<open>C32: Losing a link can deadlock the process, whether or not writers have precedence: the thread that
  removes the peer locks the list of peers, and moving the other peers in the list joins their
  listening threads, one of which may be waiting for that lock to route what it received.\<close>

theorem erasing_a_peer_can_deadlock:
  "\<exists>s. reach pf (boot [locks_of [1] (LinkLost None), locks_of [] (Route Queued)]) s \<and> stuck pf s"
proof -
  let ?b = "boot [locks_of [1] (LinkLost None), locks_of [] (Route Queued)]"
  obtain s where s: "run_schedule pf [0] ?b = Some s" "stuck pf s"
    by (simp add: schedule_simps stuck_def upt_rec)
  then show ?thesis using reach_schedule [OF s(1) reach.here] by blast
qed

text \<open>C33: With writers first, a refused message can deadlock the process without any join: the resend
  request takes the read lock on the peers a second time, behind a writer that waits for the first
  one to be released.\<close>

theorem nested_routing_can_deadlock:
  "\<exists>s. reach True (boot [locks_of [] (Route Refused),
        locks_of [] (ProcessNext (Some (LinkLost None)) False)]) s \<and> stuck True s"
proof -
  let ?b = "boot [locks_of [] (Route Refused),
        locks_of [] (ProcessNext (Some (LinkLost None)) False)]"
  obtain s where s: "run_schedule True [0, 1, 1, 1, 1, 1, 1] ?b = Some s" "stuck True s"
    by (simp add: schedule_simps stuck_def upt_rec)
  then show ?thesis using reach_schedule [OF s(1) reach.here] by blast
qed

end
