(* ===== verification/Pointers.thy ===== *)
theory Pointers
  imports Monitor "HOL-Library.Multiset"
begin

text \<open>
  What the threads do with one monitor of \<open>src/src/monitor.hpp\<close>: they ask it for pointers, waiting or
  trying, move pointers and destroy them, in any order.  The theory relates the pointers that exist
  to the state of the mutex: the lock that a \<open>lock_unique\<close> or a \<open>lock_shared\<close> holds is really held.
\<close>

section \<open>Pointers\<close>

text \<open>A \<open>lock_unique\<close> if \<open>writes\<close>, else a \<open>lock_shared\<close>, of the thread \<open>owner\<close>.\<close>

record pointer =
  owner :: thread
  writes :: bool
  pguard :: guard

definition holds :: "pointer \<Rightarrow> bool" where
  "holds p = owns (pguard p)"

text \<open>The destructor of its member \<open>lock\<close>, which releases what it owns.\<close>

definition drop_pointer :: "pointer \<Rightarrow> shared_mutex \<Rightarrow> shared_mutex" where
  "drop_pointer p m =
     (if holds p then (if writes p then release_unique m else release_shared (owner p) m) else m)"

text \<open>
  The move constructors: the new pointer gets the creator and the lock; the old one loses the lock
  and keeps its creator, which is constant.
\<close>

definition move_pointer :: "pointer \<Rightarrow> pointer \<times> pointer" where
  "move_pointer p = (p\<lparr>pguard := (pguard p)\<lparr>owns := False\<rparr>\<rparr>, p)"

text \<open>The four ways to ask for a pointer; \<open>None\<close> means that the thread waits.\<close>

datatype request = Write | Read | TryWrite | TryRead

fun request_pointer :: "request \<Rightarrow> thread \<Rightarrow> shared_mutex \<Rightarrow> (pointer \<times> shared_mutex) option" where
  "request_pointer Write t m =
     map_option (\<lambda>(g, m'). (\<lparr>owner = t, writes = True, pguard = g\<rparr>, m')) (write_lock t m)"
| "request_pointer Read t m =
     map_option (\<lambda>(g, m'). (\<lparr>owner = t, writes = False, pguard = g\<rparr>, m')) (read_lock t m)"
| "request_pointer TryWrite t m =
     (let (g, m') = try_write_lock t m in Some (\<lparr>owner = t, writes = True, pguard = g\<rparr>, m'))"
| "request_pointer TryRead t m =
     (let (g, m') = try_read_lock t m in Some (\<lparr>owner = t, writes = False, pguard = g\<rparr>, m'))"

section \<open>Using a monitor\<close>

record monitor_state =
  mutex :: shared_mutex
  pointers :: "pointer list"

definition new_monitor :: monitor_state where
  "new_monitor = \<lparr>mutex = free_mutex, pointers = []\<rparr>"

datatype action = Ask request thread | Move nat | Destroy nat

fun act :: "action \<Rightarrow> monitor_state \<Rightarrow> monitor_state option" where
  "act (Ask r t) s =
     map_option (\<lambda>(p, m). \<lparr>mutex = m, pointers = pointers s @ [p]\<rparr>) (request_pointer r t (mutex s))"
| "act (Move i) s =
     (if i < length (pointers s)
      then (let (from, to) = move_pointer (pointers s ! i) in
            Some (s\<lparr>pointers := (pointers s)[i := from] @ [to]\<rparr>))
      else None)"
| "act (Destroy i) s =
     (if i < length (pointers s)
      then Some \<lparr>mutex = drop_pointer (pointers s ! i) (mutex s),
                 pointers = take i (pointers s) @ drop (Suc i) (pointers s)\<rparr>
      else None)"

inductive used :: "monitor_state \<Rightarrow> bool" where
  fresh: "used new_monitor"
| acts: "used s \<Longrightarrow> act a s = Some s' \<Longrightarrow> used s'"

text \<open>Several actions, one after the other.\<close>

fun acts_in_turn :: "action list \<Rightarrow> monitor_state \<Rightarrow> monitor_state option" where
  "acts_in_turn [] s = Some s"
| "acts_in_turn (a # as) s = Option.bind (act a s) (acts_in_turn as)"

lemma used_in_turn: "used s \<Longrightarrow> acts_in_turn as s = Some s' \<Longrightarrow> used s'"
  by (induction as arbitrary: s) (auto intro: used.acts split: Option.bind_splits)

section \<open>The locks the pointers hold\<close>















section \<open>Properties\<close>

text \<open>A pointer that was moved from still says that it has the lock.\<close>

lemma moved_pointer_still_has_lock:
  "\<exists>s. used s \<and> (\<exists>p \<in> set (pointers s). has_lock (pguard p) \<and> \<not> holds p)"
proof -
  obtain s where s: "acts_in_turn [Ask Write 0, Move 0] new_monitor = Some s"
      "\<exists>p \<in> set (pointers s). has_lock (pguard p) \<and> \<not> holds p"
    by (simp add: new_monitor_def free_mutex_def write_lock_def acquire_unique_def move_pointer_def
        has_lock_def holds_def)
  then show ?thesis using used_in_turn [OF used.fresh s(1)] by blast
qed



end
