(* ===== verification/ZTNode.thy ===== *)
theory ZTNode
  imports Messages
begin

text \<open>
  \<open>ZeroTierNode\<close> of \<open>src/src/ztnode.hpp\<close>: the event handlers that track the state of the connection
  to ZeroTier, and \<open>setup\<close>, which waits for them.  The ZeroTier service is the environment: it
  answers each call with success or an error, and between two looks at the state, which are 100 ms
  apart, it delivers a batch of events.
\<close>

section \<open>State and events\<close>

record zt_node =
  online :: bool
  networksJoinedCount :: "8 word"
  node_ip :: ip_address

definition new_node :: zt_node where
  "new_node = \<lparr>online = False, networksJoinedCount = 0, node_ip = ipv4Unspecified\<rparr>"

text \<open>The event codes the handlers tell apart.\<close>

datatype address_code = AddedIPv4 | AddedIPv6 | OtherAddress
datatype network_code = ReadyIPv4 | ReadyIPv6 | ReadyIPv4_IPv6 | Down | OtherNetwork
datatype node_code = Online | Offline | OtherNode

datatype zt_event =
    AddressEvent address_code "ip_address option"
  | NetworkEvent network_code
  | NodeEvent node_code
  | OtherEvent

definition onAddressEvent :: "address_code \<Rightarrow> ip_address option \<Rightarrow> zt_node \<Rightarrow> zt_node" where
  "onAddressEvent code details n =
     (case details of
        Some ip \<Rightarrow> if code = AddedIPv4 \<or> code = AddedIPv6 then n\<lparr>node_ip := ip\<rparr> else n
      | None \<Rightarrow> n)"

definition onNetworkEvent :: "network_code \<Rightarrow> zt_node \<Rightarrow> zt_node" where
  "onNetworkEvent code n =
     (if code = ReadyIPv4 \<or> code = ReadyIPv6 \<or> code = ReadyIPv4_IPv6
      then n\<lparr>networksJoinedCount := networksJoinedCount n + 1\<rparr>
      else if code = Down then n\<lparr>networksJoinedCount := networksJoinedCount n - 1\<rparr>
      else n)"

definition onNodeEvent :: "node_code \<Rightarrow> zt_node \<Rightarrow> zt_node" where
  "onNodeEvent code n =
     (if code = Online then n\<lparr>online := True\<rparr>
      else if code = Offline then n\<lparr>online := False\<rparr>
      else n)"

text \<open>The remaining handlers only print.\<close>

fun handle :: "zt_node \<Rightarrow> zt_event \<Rightarrow> zt_node" where
  "handle n (AddressEvent code details) = onAddressEvent code details n"
| "handle n (NetworkEvent code) = onNetworkEvent code n"
| "handle n (NodeEvent code) = onNodeEvent code n"
| "handle n OtherEvent = n"

section \<open>Setting up\<close>

datatype zt_call =
    SetIdentity | AllowNetworkCaching | AllowPeerCaching | AllowIdentityCaching | SetPort
  | StartService | JoinNetwork

record zt_service =
  the_node :: zt_node
  answer :: "zt_call \<Rightarrow> string option"
  batches :: "zt_event list list"

definition zt_call :: "zt_call \<Rightarrow> (zt_service, unit) prog" where
  "zt_call c =
     bnd (gets (\<lambda>z. answer z c)) (\<lambda>e. case e of None \<Rightarrow> ret () | Some msg \<Rightarrow> throw (NetworkError msg))"

text \<open>\<open>while (P) sleep_for(100ms)\<close>; when no more events come, it never ends.\<close>

fun wait_while :: "(zt_node \<Rightarrow> bool) \<Rightarrow> zt_node \<Rightarrow> zt_event list list \<Rightarrow> (zt_node \<times> zt_event list list) option" where
  "wait_while P n [] = (if P n then None else Some (n, []))"
| "wait_while P n (es # bs) = (if P n then wait_while P (foldl handle n es) bs else Some (n, es # bs))"

definition waiting :: "(zt_node \<Rightarrow> bool) \<Rightarrow> (zt_service, unit) prog" where
  "waiting P = (\<lambda>z. case wait_while P (the_node z) (batches z) of
     None \<Rightarrow> (Inl OutOfFuel, z)
   | Some (n, bs) \<Rightarrow> (Inr (), z\<lparr>the_node := n, batches := bs\<rparr>))"

definition setup_node :: "(zt_service, unit) prog" where
  "setup_node =
     bnd (zt_call SetIdentity) (\<lambda>_.
     bnd (zt_call AllowNetworkCaching) (\<lambda>_.
     bnd (zt_call AllowPeerCaching) (\<lambda>_.
     bnd (zt_call AllowIdentityCaching) (\<lambda>_.
     bnd (zt_call SetPort) (\<lambda>_.
     bnd (zt_call StartService) (\<lambda>_.
     bnd (waiting (\<lambda>n. \<not> online n)) (\<lambda>_.
     bnd (zt_call JoinNetwork) (\<lambda>_.
     waiting (\<lambda>n. networksJoinedCount n \<le> 0)))))))))"

section \<open>What the state says about the events\<close>

definition ready_event :: "zt_event \<Rightarrow> bool" where
  "ready_event e \<longleftrightarrow> e \<in> {NetworkEvent ReadyIPv4, NetworkEvent ReadyIPv6, NetworkEvent ReadyIPv4_IPv6}"

definition networks_joined :: "zt_event list \<Rightarrow> nat" where
  "networks_joined es = length (filter ready_event es)"

definition networks_left :: "zt_event list \<Rightarrow> nat" where
  "networks_left es = length (filter (\<lambda>e. e = NetworkEvent Down) es)"

lemma handle_count:
  "networksJoinedCount (foldl handle n es) = networksJoinedCount n + of_nat (networks_joined es) - of_nat (networks_left es)"
proof (induction es arbitrary: n)
  case Nil
  then show ?case by (simp add: networks_joined_def networks_left_def)
next
  case (Cons e es)
  have "networksJoinedCount (handle n e) = networksJoinedCount n
      + (if ready_event e then 1 else 0) - (if e = NetworkEvent Down then 1 else 0)"
    by (cases e) (auto simp: onAddressEvent_def onNetworkEvent_def onNodeEvent_def ready_event_def
        split: option.split)
  then show ?case
    using Cons by (auto simp: networks_joined_def networks_left_def ready_event_def)
qed

text \<open>What a wait that ended has used up.\<close>

lemma wait_while_Some:
  "wait_while P n bs = Some (n', bs') \<Longrightarrow>
    \<exists>us. bs = us @ bs' \<and> n' = foldl handle n (concat us) \<and> \<not> P n'"
proof (induction P n bs rule: wait_while.induct)
  case (1 P n)
  then show ?case by (auto split: if_splits)
next
  case (2 P n es bs)
  show ?case
  proof (cases "P n")
    case True
    then obtain us where "bs = us @ bs'" "n' = foldl handle (foldl handle n es) (concat us)" "\<not> P n'"
      using 2 by auto
    then show ?thesis by (intro exI [of _ "es # us"]) simp
  next
    case False
    then show ?thesis using 2 by (intro exI [of _ "[]"]) auto
  qed
qed



text \<open>C38: When \<open>setup\<close> returns, every call to the service succeeded, the node came online, and since the
  start the network was reported ready and down different numbers of times, counted modulo 256.\<close>

theorem setup_waits_for_the_network:
  assumes "setup_node z = (Inr (), z')" and "the_node z = new_node"
  shows "(\<forall>c. answer z c = None)
    \<and> (\<exists>us vs. batches z = us @ vs @ batches z' \<and> online (foldl handle new_node (concat us))
        \<and> the_node z' = foldl handle new_node (concat (us @ vs))
        \<and> (networks_joined (concat (us @ vs)) mod 256 \<noteq> networks_left (concat (us @ vs)) mod 256))"
proof -
  have a: "answer z c = None" for c
    using assms(1)
    by (cases c) (auto simp: setup_node_def zt_call_def waiting_def exec_simps split: option.splits prod.splits)
  obtain n bs where w1: "wait_while (\<lambda>n. \<not> online n) new_node (batches z) = Some (n, bs)"
    and w2: "wait_while (\<lambda>n. networksJoinedCount n \<le> 0) n bs = Some (the_node z', batches z')"
    using assms a
    by (auto simp: setup_node_def zt_call_def waiting_def exec_simps split: option.splits prod.splits)
  obtain us where us: "batches z = us @ bs" "n = foldl handle new_node (concat us)" "online n"
    using wait_while_Some [OF w1] by auto
  obtain vs where vs: "bs = vs @ batches z'" "the_node z' = foldl handle n (concat vs)"
    "\<not> networksJoinedCount (the_node z') \<le> 0"
    using wait_while_Some [OF w2] by auto
  let ?es = "concat (us @ vs)"
  have nd: "the_node z' = foldl handle new_node ?es" using us(2) vs(2) by simp
  have "(of_nat (networks_joined ?es) :: 8 word) \<noteq> of_nat (networks_left ?es)"
    using vs(3) handle_count [of new_node ?es] unfolding nd by (auto simp: new_node_def)
  then have "networks_joined ?es mod 256 \<noteq> networks_left ?es mod 256"
    by (simp add: word_of_nat_eq_iff take_bit_eq_mod)
  then show ?thesis using a us vs(1) nd by blast
qed

theorem setup_waits_for_the_network_witness:
  "\<exists>z'. setup_node \<lparr>the_node = new_node, answer = (\<lambda>_. None),
       batches = [[], [NodeEvent Online], [AddressEvent AddedIPv6 (Some (IPv6 7))], [NetworkEvent ReadyIPv6], []]\<rparr>
      = (Inr (), z') \<and> node_ip (the_node z') = IPv6 7
    \<and> (\<forall>c. answer z' c = None)"
proof -
  let ?z = "\<lparr>the_node = new_node, answer = (\<lambda>_. None),
       batches = [[], [NodeEvent Online], [AddressEvent AddedIPv6 (Some (IPv6 7))], [NetworkEvent ReadyIPv6], []]\<rparr>"
  let ?z' = "\<lparr>the_node = \<lparr>online = True, networksJoinedCount = 1, node_ip = IPv6 7\<rparr>, answer = (\<lambda>_. None),
       batches = [[]]\<rparr>"
  have r: "setup_node ?z = (Inr (), ?z')"
    by (simp add: setup_node_def zt_call_def waiting_def exec_simps new_node_def onAddressEvent_def
        onNetworkEvent_def onNodeEvent_def)
  have "\<forall>c. answer ?z c = None" using setup_waits_for_the_network [OF r] by simp
  with r show ?thesis by auto
qed

text \<open>A wait ends when its condition fails after one of the batches.\<close>

lemma wait_while_ends:
  "\<not> P (foldl handle n (concat (take k bs))) \<Longrightarrow> \<exists>r. wait_while P n bs = Some r"
proof (induction P n bs arbitrary: k rule: wait_while.induct)
  case (1 P n)
  then show ?case by simp
next
  case (2 P n es bs)
  show ?case
  proof (cases "P n")
    case True
    then obtain j where "k = Suc j" using 2(2) by (cases k) auto
    then show ?thesis using 2 True by simp
  qed simp
qed

lemma events_append:
  "networks_joined (xs @ ys) = networks_joined xs + networks_joined ys"
  "networks_left (xs @ ys) = networks_left xs + networks_left ys"
  by (simp_all add: networks_joined_def networks_left_def)

text \<open>C39: \<open>setup\<close> returns although the network was never ready: whenever the node comes online and the
  network is reported down, at least once and fewer than 256 times, but never ready, whatever the order
  and whatever else is reported, the waiting ends, since the counter of joined networks is unsigned and
  wraps around.\<close>

theorem network_down_counts_as_joined:
  assumes "answer z = (\<lambda>_. None)" and "the_node z = new_node"
    and "online (foldl handle new_node (concat (take k (batches z))))"
    and "networks_joined (concat (batches z)) = 0"
    and "0 < networks_left (concat (batches z))" and "networks_left (concat (batches z)) < 256"
  shows "\<exists>z' us. setup_node z = (Inr (), z') \<and> batches z = us @ batches z'
    \<and> networks_joined (concat us) = 0
    \<and> unat (networksJoinedCount (the_node z')) = 256 - networks_left (concat us)"
proof -
  obtain n bs where w1: "wait_while (\<lambda>n. \<not> online n) new_node (batches z) = Some (n, bs)"
    using wait_while_ends [of "\<lambda>n. \<not> online n" new_node k "batches z"] assms(3) by auto
  obtain us where us: "batches z = us @ bs" "n = foldl handle new_node (concat us)"
    using wait_while_Some [OF w1] by auto
  have count: "networksJoinedCount (foldl handle new_node es) = - of_nat (networks_left es)"
    if "networks_joined es = 0" for es
    using that by (simp add: handle_count new_node_def)
  have nz: "\<not> - (of_nat j :: 8 word) \<le> 0" "unat (- (of_nat j :: 8 word)) = 256 - j" if "0 < j" "j < 256" for j
  proof -
    have "of_nat (256 - j) = of_nat 256 - (of_nat j :: 8 word)" using that by (intro of_nat_diff) simp
    then have e: "- (of_nat j :: 8 word) = of_nat (256 - j)" by simp
    show u: "unat (- (of_nat j :: 8 word)) = 256 - j" unfolding e unat_of_nat using that by simp
    show "\<not> - (of_nat j :: 8 word) \<le> 0"
    proof
      assume "- (of_nat j :: 8 word) \<le> 0"
      then have "unat (- (of_nat j :: 8 word)) = 0" by (simp add: word_le_nat_alt)
      then show False using u that by simp
    qed
  qed
  have "foldl handle n (concat (take (length bs) bs)) = foldl handle new_node (concat (batches z))"
    using us by simp
  then have "\<not> networksJoinedCount (foldl handle n (concat (take (length bs) bs))) \<le> 0"
    using count [OF assms(4)] nz(1) [OF assms(5,6)] by simp
  then obtain n' bs' where w2: "wait_while (\<lambda>n. networksJoinedCount n \<le> 0) n bs = Some (n', bs')"
    using wait_while_ends [of "\<lambda>n. networksJoinedCount n \<le> 0" n "length bs" bs] by auto
  obtain vs where vs: "bs = vs @ bs'" "n' = foldl handle n (concat vs)" "\<not> networksJoinedCount n' \<le> 0"
    using wait_while_Some [OF w2] by auto
  let ?es = "concat (us @ vs)"
  have n': "n' = foldl handle new_node ?es" and bz: "batches z = (us @ vs) @ bs'"
    using us vs by simp_all
  have j: "networks_joined ?es = 0" "networks_left ?es < 256"
    using assms(4,6) bz by (simp_all add: events_append)
  have "0 < networks_left ?es"
  proof (rule ccontr)
    assume "\<not> 0 < networks_left ?es"
    then have "networksJoinedCount n' = 0" using count [OF j(1)] unfolding n' by simp
    then show False using vs(3) by simp
  qed
  then have "unat (networksJoinedCount n') = 256 - networks_left ?es"
    using nz(2) [OF _ j(2)] count [OF j(1)] unfolding n' by simp
  moreover have "setup_node z = (Inr (), z\<lparr>the_node := n', batches := bs'\<rparr>)"
    using assms(1,2) w1 w2 by (simp add: setup_node_def zt_call_def waiting_def exec_simps)
  ultimately show ?thesis
    using bz j(1) by (intro exI [of _ "z\<lparr>the_node := n', batches := bs'\<rparr>"] exI [of _ "us @ vs"]) simp
qed

text \<open>The network goes down before the node is online and after it has got an address.\<close>

theorem network_down_counts_as_joined_witness:
  "\<exists>z'. setup_node \<lparr>the_node = new_node, answer = (\<lambda>_. None),
       batches = [[NetworkEvent Down], [AddressEvent AddedIPv6 (Some (IPv6 7))], [NodeEvent Online], [NetworkEvent Down]]\<rparr>
      = (Inr (), z')"
proof -
  let ?z = "\<lparr>the_node = new_node, answer = (\<lambda>_. None),
       batches = [[NetworkEvent Down], [AddressEvent AddedIPv6 (Some (IPv6 7))], [NodeEvent Online], [NetworkEvent Down]]\<rparr>"
  have "online (foldl handle new_node (concat (take 3 (batches ?z))))"
    by (simp add: new_node_def onNetworkEvent_def onNodeEvent_def onAddressEvent_def numeral_3_eq_3)
  moreover have "networks_joined (concat (batches ?z)) = 0" "networks_left (concat (batches ?z)) = 2"
    by (simp_all add: networks_joined_def networks_left_def ready_event_def)
  ultimately show ?thesis
    using network_down_counts_as_joined [of ?z 3] by auto
qed

end
