(* ===== verification/Flooding.thy ===== *)
theory Flooding
  imports Network "HOL-Library.Multiset"
begin

text \<open>
  A message on its way through the network: every node that receives the data hands it to
  \<open>routeData\<close>, with the neighbour it came from as the source (the sender's address is not part of the
  data).  \<open>flood\<close> follows the data from node to node over the routing decisions of
  \<open>src/src/peer_manager.hpp\<close>.
\<close>

section \<open>From node to node\<close>

text \<open>What a node does with data from a neighbour is to route it, as \<open>Peer::processMessage\<close> does.\<close>

lemma save_any_header: "\<exists>r. save_any L m = save_Message L (header m) @ r"
proof -
  have eq: "save_Message L (Message.truncate x) = save_Message L x" for x :: "'a Message_scheme"
    by (simp add: save_Message_def Message.defs)
  show ?thesis
    by (cases m) (simp_all add: eq save_Payload_def save_Resend_def save_File_def save_Content_def
        save_Sync_def save_Connect_def)
qed

lemma processMessage_routes:
  assumes L: "lib_laws L" and m: "base_fits (header m)"
    and "length (save_Message L (header m)) \<le> sizeof_Message L" and i: "i < length (peers w)"
  shows "processMessage L overread i (save_any L m) w
    = routeData L (sendMessage L) (save_any L m) (receiverNode (header m)) (remoteIP (peers w ! i))
        (asked_at i w)"
proof -
  obtain r where r: "save_any L m = save_Message L (header m) @ r"
    using save_any_header by blast
  have "take (sizeof_Message L) (save_any L m @ overread)
      = save_Message L (header m) @ take (sizeof_Message L - length (save_Message L (header m))) (r @ overread)"
    using assms(3) by (simp add: r)
  then have "load_Message L (take (sizeof_Message L) (save_any L m @ overread))
      = Some ((header m)\<lparr>senderNode := ipv6Unspecified\<rparr>,
          take (sizeof_Message L - length (save_Message L (header m))) (r @ overread))"
    using lib_laws.load_save_Message [OF L m] by (simp add: Message.defs)
  then show ?thesis
    by (simp add: processMessage_def archive_load_def bnd_exec getRemoteIP_exec [OF i])
qed

text \<open>
  \<open>flood n nb d x s\<close>: the nodes that process data for \<open>d\<close>, in order, when the node \<open>x\<close> gets it from
  \<open>s\<close>; \<open>nb\<close> are the peers of each node and \<open>n\<close> bounds the number of hops.
\<close>

primrec flood ::
    "nat \<Rightarrow> (ip_address \<Rightarrow> ip_address list) \<Rightarrow> ip_address \<Rightarrow> ip_address \<Rightarrow> ip_address
      \<Rightarrow> ip_address list" where
  "flood 0 nb d x s = []"
| "flood (Suc n) nb d x s =
     (let h = route (\<lambda>y. y) (nb x) x d s in
      (if to_self h then [x] else []) @ concat (map (\<lambda>y. flood n nb d y x) (to_peers h)))"

section \<open>Networks without cycles\<close>

datatype net = Site (root: ip_address) (subnets: "net list")

fun sites :: "net \<Rightarrow> ip_address list" where
  "sites (Site x ts) = x # concat (map sites ts)"

fun depth :: "net \<Rightarrow> nat" where
  "depth (Site x ts) = Suc (Max (set (0 # map depth ts)))"

text \<open>Every node is connected to the nodes below it and to the one above it, in any order.\<close>

fun wired :: "(ip_address \<Rightarrow> ip_address list) \<Rightarrow> ip_address list \<Rightarrow> net \<Rightarrow> bool" where
  "wired nb up (Site x ts) \<longleftrightarrow> mset (nb x) = mset (up @ map root ts) \<and> list_all (wired nb [x]) ts"

lemma root_in_sites: "root t \<in> set (sites t)"
  by (cases t) simp

lemma mset_concat_map_cong: "mset xs = mset ys \<Longrightarrow> mset (concat (map f xs)) = mset (concat (map f ys))"
  by (simp add: mset_concat) (metis mset_map sum_mset_sum_list)

lemma filter_not_in: "s \<notin> set xs \<Longrightarrow> filter (\<lambda>y. y \<noteq> s) xs = xs"
  by (simp add: filter_id_conv) blast

lemma flood_tree:
  assumes d: "is_broadcast d"
  shows "depth t \<le> n \<Longrightarrow> wired nb up t \<Longrightarrow> up = [] \<or> up = [s] \<Longrightarrow> distinct (sites t) \<Longrightarrow>
    s \<notin> set (sites t) \<Longrightarrow> s \<noteq> ipv6Loopback \<Longrightarrow> s \<noteq> ipv4Loopback \<Longrightarrow>
    ipv6Loopback \<notin> set (sites t) \<Longrightarrow> ipv4Loopback \<notin> set (sites t) \<Longrightarrow>
    mset (flood n nb d (root t) s) = mset (sites t)"
proof (induction n arbitrary: t s up)
  case 0
  then show ?case by (cases t) simp
next
  case (Suc n)
  obtain x ts where t: "t = Site x ts" by (cases t)
  note p = Suc.prems [unfolded t]
  have roots: "set (map root ts) \<subseteq> set (concat (map sites ts))"
    using root_in_sites by fastforce
  then have s: "s \<notin> set (map root ts)" using p(5) by auto
  have "mset (filter (\<lambda>y. y \<noteq> s) (nb x)) = mset (filter (\<lambda>y. y \<noteq> s) (up @ map root ts))"
    using p(2) by (simp only: wired.simps mset_filter)
  also have "filter (\<lambda>y. y \<noteq> s) (up @ map root ts) = map root ts"
    using p(3) filter_not_in [OF s] by auto
  finally have nb: "mset (filter (\<lambda>y. y \<noteq> s) (nb x)) = mset (map root ts)" .
  have below: "mset (flood n nb d (root u) x) = mset (sites u)" if u: "u \<in> set ts" for u
  proof (rule Suc.IH [of u "[x]"])
    show "depth u \<le> n" using p(1) u by simp
    show "wired nb [x] u" using p(2) u by (simp add: list_all_iff)
    show "distinct (sites u)" using p(4) u by (simp add: distinct_concat_iff)
    show "x \<notin> set (sites u)" "ipv6Loopback \<notin> set (sites u)" "ipv4Loopback \<notin> set (sites u)"
      using p(4,8,9) u by auto
    show "x \<noteq> ipv6Loopback" "x \<noteq> ipv4Loopback" using p(8,9) by auto
  qed simp
  have h: "route (\<lambda>y. y) (nb x) x d s = \<lparr>to_peers = filter (\<lambda>y. y \<noteq> s) (nb x), to_self = True\<rparr>"
    using d p(5,6,7) by (auto simp: route_cases forward2all_def)
  have "mset (concat (map (\<lambda>y. flood n nb d y x) (filter (\<lambda>y. y \<noteq> s) (nb x))))
      = mset (concat (map (\<lambda>y. flood n nb d y x) (map root ts)))"
    by (rule mset_concat_map_cong [OF nb])
  also have "\<dots> = mset (concat (map sites ts))"
    using below by (induction ts) (simp_all add: comp_def)
  finally show ?case by (simp add: t h Let_def)
qed


definition ordinary :: "ip_address \<Rightarrow> bool" where
  "ordinary x \<longleftrightarrow> x \<notin> {ipv6Unspecified, ipv4Unspecified, ipv6Loopback, ipv4Loopback}"

text \<open>In a network without cycles a broadcast reaches every node, and every node processes it exactly
  once: the nodes that process what the origin sends to everyone are all the nodes of the network.\<close>

lemma broadcast_reaches_everyone_once:
  assumes "wired nb [] t" and "distinct (sites t)" and "list_all ordinary (sites t)"
    and "depth t \<le> n"
  shows "mset (flood n nb ipv6Unspecified (root t) ipv6Unspecified) = mset (sites t)"
proof -
  have o: "x \<notin> set (sites t)"
    if "x \<in> {ipv6Unspecified, ipv6Loopback, ipv4Loopback}" for x
    using assms(3) that by (auto simp: list_all_iff ordinary_def)
  have b: "is_broadcast ipv6Unspecified" by (simp add: is_broadcast_def)
  show ?thesis
    by (rule flood_tree [OF b assms(4,1) _ assms(2)]) (use o in simp_all)
qed


section \<open>Networks with a cycle\<close>

definition triangle ::
    "ip_address \<Rightarrow> ip_address \<Rightarrow> ip_address \<Rightarrow> ip_address \<Rightarrow> ip_address list" where
  "triangle a b c x = (if x = a then [b, c] else if x = b then [a, c] else [a, b])"

lemma triangle_step:
  assumes "distinct [a, b, c]" and "distinct [u, v, w]" and "set [u, v, w] \<subseteq> set [a, b, c]"
  shows "filter (\<lambda>i. i \<noteq> v) (triangle a b c u) = [w]"
proof -
  have "u = a \<or> u = b \<or> u = c" "v = a \<or> v = b \<or> v = c" "w = a \<or> w = b \<or> w = c"
    using assms(3) by simp_all
  moreover have "a \<noteq> b" "a \<noteq> c" "b \<noteq> c" "b \<noteq> a" "c \<noteq> a" "c \<noteq> b" "u \<noteq> v" "u \<noteq> w" "v \<noteq> w"
    using assms(1,2) by auto
  ultimately show ?thesis by (elim disjE; hypsubst_thin; simp add: triangle_def)
qed

lemma triangle_rotates:
  assumes abc: "distinct [a, b, c]" and o: "list_all ordinary [a, b, c]"
  shows "distinct [u, v, w] \<Longrightarrow> set [u, v, w] \<subseteq> set [a, b, c] \<Longrightarrow>
    length (flood n (triangle a b c) ipv6Unspecified u v) = n"
proof (induction n arbitrary: u v w)
  case 0
  then show ?case by simp
next
  case (Suc n)
  note f = triangle_step [OF abc Suc.prems]
  have "\<forall>x \<in> set [u, v, w]. ordinary x"
    using o Suc.prems(2) unfolding list_all_iff by blast
  then have r: "route (\<lambda>y. y) (triangle a b c u) u ipv6Unspecified v = \<lparr>to_peers = [w], to_self = True\<rparr>"
    using f Suc.prems(1) by (simp add: route_cases forward2all_def is_broadcast_def ordinary_def eq_commute)
  have "length (flood n (triangle a b c) ipv6Unspecified w u) = n"
    by (rule Suc.IH [of w u v]) (use Suc.prems in auto)
  then show ?case by (simp add: r Let_def)
qed

text \<open>In a network with a cycle a broadcast never comes to rest: in a triangle of three nodes every
  further hop lets it be processed twice more.\<close>

lemma broadcast_circulates_in_a_cycle:
  assumes "distinct [a, b, c]" and "list_all ordinary [a, b, c]"
  shows "length (flood (Suc n) (triangle a b c) ipv6Unspecified a ipv6Unspecified) = 1 + 2 * n"
proof -
  let ?nb = "triangle a b c"
  have l: "length (flood n ?nb ipv6Unspecified b a) = n" "length (flood n ?nb ipv6Unspecified c a) = n"
    using triangle_rotates [OF assms, of b a c n] triangle_rotates [OF assms, of c a b n] assms(1)
    by auto
  have "route (\<lambda>y. y) (?nb a) a ipv6Unspecified ipv6Unspecified = \<lparr>to_peers = [b, c], to_self = True\<rparr>"
    using assms by (auto simp: route_cases forward2all_def is_broadcast_def ordinary_def triangle_def)
  then show ?thesis by (simp add: l Let_def)
qed


end
