(* ===== verification/Cluster.thy ===== *)
theory Cluster
  imports Flooding Sending
begin

text \<open>
  Many processes: the world of every node, and data that travels from node to node.  What a node
  posts to its peers while it handles incoming data is handed to them, one after the other, as
  \<open>Peer::send\<close> and \<open>Peer::processMessage\<close> do over the connections.
\<close>

section \<open>Delivery\<close>

type_synonym cluster = "ip_address \<Rightarrow> world"

text \<open>
  \<open>spread n x y data\<close> hands \<open>data\<close> from node \<open>x\<close> to node \<open>y\<close>, and what \<open>y\<close> posts to its peers,
  over at most \<open>n\<close> hops; \<open>None\<close> when a node fails, has no connection to the node the data comes
  from, or the hops do not suffice.
\<close>

definition receive_at :: "lib \<Rightarrow> ip_address \<Rightarrow> byte list \<Rightarrow> world \<Rightarrow> ((ip_address \<times> byte list) list \<times> world) option" where
  "receive_at L x data w =
     (case first_index (\<lambda>p. remoteIP p = x) (peers w) of
        None \<Rightarrow> None
      | Some i \<Rightarrow>
          (case processMessage L [] i data (w\<lparr>outbox := []\<rparr>) of
             (Inl e, v) \<Rightarrow> None
           | (Inr _, v) \<Rightarrow> Some (outbox v, v\<lparr>outbox := outbox w\<rparr>)))"

fun all_of :: "('a \<Rightarrow> 's \<Rightarrow> 's option) \<Rightarrow> 'a list \<Rightarrow> 's \<Rightarrow> 's option" where
  "all_of f [] s = Some s"
| "all_of f (x # xs) s = (case f x s of None \<Rightarrow> None | Some s' \<Rightarrow> all_of f xs s')"

primrec spread ::
    "lib \<Rightarrow> nat \<Rightarrow> ip_address \<Rightarrow> ip_address \<Rightarrow> byte list \<Rightarrow> cluster \<Rightarrow> cluster option" where
  "spread L 0 x y data c = None"
| "spread L (Suc n) x y data c =
     (case receive_at L x data (c y) of
        None \<Rightarrow> None
      | Some (posts, w) \<Rightarrow> all_of (\<lambda>(z, data'). spread L n y z data') posts (c(y := w)))"

text \<open>What a node does of itself, and what comes of it at the other nodes.\<close>

definition publish :: "lib \<Rightarrow> nat \<Rightarrow> ip_address \<Rightarrow> (world, unit) prog \<Rightarrow> cluster \<Rightarrow> cluster option" where
  "publish L n s m c =
     (case m ((c s)\<lparr>outbox := []\<rparr>) of
        (Inl e, v) \<Rightarrow> None
      | (Inr _, v) \<Rightarrow>
          all_of (\<lambda>(z, data). spread L n s z data) (outbox v) (c(s := v\<lparr>outbox := outbox (c s)\<rparr>)))"

section \<open>A message that is intact\<close>

text \<open>A message to everyone.\<close>

definition broadcastable :: "lib \<Rightarrow> any_message \<Rightarrow> size_t \<Rightarrow> bool" where
  "broadcastable L m p \<longleftrightarrow> fits m \<and> well_typed m \<and> paths_normal m
     \<and> receiverNode (header m) = ipv6Unspecified
     \<and> length (save_Message L (header m)) \<le> sizeof_Message L
     \<and> (case msg_kind m of None \<Rightarrow> False | Some t \<Rightarrow> wire_priority t = Some p)"

definition queued_at :: "any_message \<Rightarrow> size_t \<Rightarrow> world \<Rightarrow> world" where
  "queued_at m p w =
     w\<lparr>peers := map ask_ip (peers w), ticks := ticks w + readings m,
       messageQueue := pq_emplace p (received m) (messageQueue w)\<rparr>"

text \<open>No peer has taken over the address of another one.\<close>

definition peers_fresh :: "world \<Rightarrow> bool" where
  "peers_fresh w \<longleftrightarrow> list_all (\<lambda>p. remoteIP p = socketIP p) (peers w)"

lemma base_fits_header: "fits m \<Longrightarrow> base_fits (header m)"
  by (cases m) (simp_all add: base_fits_def Message.defs)

text \<open>Data from a peer is routed as coming from the address of the peer.\<close>

lemma receive_at_routes:
  assumes L: "lib_laws L" and m: "base_fits (header m)"
    and "length (save_Message L (header m)) \<le> sizeof_Message L" and x: "x \<in> remoteIP ` set (peers w)"
  obtains i where "receive_at L x (save_any L m) w =
      (case routeData L (sendMessage L) (save_any L m) (receiverNode (header m)) x
          (asked_at i (w\<lparr>outbox := []\<rparr>)) of
        (Inl e, v) \<Rightarrow> None
      | (Inr _, v) \<Rightarrow> Some (outbox v, v\<lparr>outbox := outbox w\<rparr>))"
proof -
  obtain i where i: "first_index (\<lambda>p. remoteIP p = x) (peers w) = Some i"
    using first_index_ex [of "peers w" "\<lambda>p. remoteIP p = x"] x by auto
  then have "i < length (peers w) \<and> remoteIP (peers w ! i) = x" by (rule first_index_nth)
  then show thesis
    using i processMessage_routes [OF L m assms(3), of i "w\<lparr>outbox := []\<rparr>"]
    by (intro that [of i]) (simp add: receive_at_def)
qed

lemma receive_broadcast:
  assumes L: "lib_laws L" and m: "broadcastable L m p" and from_peer: "x \<in> remoteIP ` set (peers w)"
    and x: "x \<noteq> ipv6Loopback" "x \<noteq> ipv4Loopback" "x \<noteq> self_ip w" and fr: "peers_fresh w"
    and acc: "accepted L m w"
  shows "receive_at L x (save_any L m) w
    = Some (map (\<lambda>z. (z, save_any L m)) (filter (\<lambda>z. z \<noteq> x) (map remoteIP (peers w))),
        queued_at m p w)"
proof -
  obtain t where t: "msg_kind m = Some t" "wire_priority t = Some p"
    using m by (auto simp: broadcastable_def split: option.splits)
  note mm = m [unfolded broadcastable_def]
  obtain i where r: "receive_at L x (save_any L m) w =
      (case routeData L (sendMessage L) (save_any L m) ipv6Unspecified x (asked_at i (w\<lparr>outbox := []\<rparr>)) of
        (Inl e, v) \<Rightarrow> None
      | (Inr _, v) \<Rightarrow> Some (outbox v, v\<lparr>outbox := outbox w\<rparr>))"
    using receive_at_routes [OF L base_fits_header _ from_peer, of m] mm by metis
  let ?w = "asked_at i (w\<lparr>outbox := []\<rparr>)"
  let ?zs = "filter (\<lambda>p. remoteIP p \<noteq> x) (peers ?w)" and ?a = "asked_for ipv6Unspecified"
  have zs: "map socketIP ?zs = filter (\<lambda>z. z \<noteq> x) (map remoteIP (peers w))"
  proof -
    have "list_all (\<lambda>p. remoteIP p = socketIP p) ps \<Longrightarrow>
        map socketIP (filter (\<lambda>p. remoteIP p \<noteq> x) ps) = filter (\<lambda>z. z \<noteq> x) (map remoteIP ps)" for ps
      by (induction ps) auto
    then show ?thesis
      using fr sockets_at [of id "\<lambda>y. y \<noteq> x" "peers w" i] by (simp add: peers_fresh_def asked_at_def)
  qed
  have route: "hops_of ?w ipv6Unspecified x = \<lparr>to_peers = ?zs, to_self = True\<rparr>"
    using x by (simp add: hops_of_def route_cases forward2all_def is_broadcast_def)
  have "routeData L (sendMessage L) (save_any L m) ipv6Unspecified x ?w
      = deserializeMessage L (sendMessage L) (save_any L m) (posted (save_any L m) ?zs (?a ?w))"
    by (simp add: routeData_exec route)
  also have "\<dots> = (Inr (), (posted (save_any L m) ?zs (?a ?w))
      \<lparr>ticks := ticks w + readings m, messageQueue := pq_emplace p (received m) (messageQueue w)\<rparr>)"
  proof -
    have "accepted L m (posted (save_any L m) ?zs (?a ?w))"
      using acc by (simp add: accepted_def arrival_time_def split: option.splits)
    then show ?thesis using queued_if_accepted [OF L _ _ _ t] mm by simp
  qed
  finally show ?thesis
    by (simp add: r posted_def queued_at_def asked_at_broadcast)
      (simp add: asked_for_def zs [symmetric] comp_def)
qed

section \<open>A broadcast in a network without cycles\<close>

definition peers_of :: "cluster \<Rightarrow> ip_address \<Rightarrow> ip_address list" where
  "peers_of c y = map remoteIP (peers (c y))"

text \<open>Nodes know their own address and those of their peers, and accept the message.\<close>

definition addressed :: "cluster \<Rightarrow> net \<Rightarrow> bool" where
  "addressed c t \<longleftrightarrow> list_all (\<lambda>y. self_ip (c y) = y \<and> peers_fresh (c y)) (sites t)"

definition accepting :: "lib \<Rightarrow> any_message \<Rightarrow> cluster \<Rightarrow> net \<Rightarrow> bool" where
  "accepting L m c t \<longleftrightarrow> list_all (\<lambda>y. accepted L m (c y)) (sites t)"

definition all_queued :: "any_message \<Rightarrow> size_t \<Rightarrow> ip_address list \<Rightarrow> cluster \<Rightarrow> cluster" where
  "all_queued m p ys c = (\<lambda>y. if y \<in> set ys then queued_at m p (c y) else c y)"

lemma mset_map_order: "mset (map f xs) = mset ys \<Longrightarrow> \<exists>us. mset us = mset xs \<and> map f us = ys"
proof (induction ys arbitrary: xs)
  case Nil
  then show ?case by simp
next
  case (Cons y ys)
  have "y \<in> set (map f xs)" using Cons.prems by (metis list.set_intros(1) mset_eq_setD)
  then obtain x where x: "x \<in> set xs" "f x = y" by auto
  have "mset (map f (remove1 x xs)) = mset ys"
  proof -
    have "mset xs = add_mset x (mset (remove1 x xs))" using x(1) by simp
    then have "mset (map f xs) = add_mset y (mset (map f (remove1 x xs)))"
      using x(2) by (metis image_mset_add_mset mset_map)
    then show ?thesis using Cons.prems by simp
  qed
  then obtain us where "mset us = mset (remove1 x xs)" "map f us = ys"
    using Cons.IH by blast
  then show ?case using x by (intro exI [of _ "x # us"]) simp
qed

text \<open>The children are served in the order of the peers; each changes its own nodes only.\<close>

lemma spread_children:
  assumes "\<And>u c'. u \<in> set us \<Longrightarrow> \<forall>y \<in> set (sites u). c' y = c y \<Longrightarrow>
      f (root u) c' = Some (all_queued m p (sites u) c')"
  shows "distinct (concat (map sites us)) \<Longrightarrow> \<forall>y \<in> set (concat (map sites us)). c' y = c y \<Longrightarrow>
    all_of f (map root us) c' = Some (all_queued m p (concat (map sites us)) c')"
  using assms
proof (induction us arbitrary: c')
  case Nil
  then show ?case by (simp add: all_queued_def)
next
  case (Cons u us)
  let ?c1 = "all_queued m p (sites u) c'"
  have first: "f (root u) c' = Some ?c1"
    by (rule Cons.prems(3)) (use Cons.prems(2) in auto)
  have disj: "set (sites u) \<inter> set (concat (map sites us)) = {}"
    using Cons.prems(1) by simp
  have "all_of f (map root us) ?c1 = Some (all_queued m p (concat (map sites us)) ?c1)"
  proof (rule Cons.IH)
    show "distinct (concat (map sites us))" using Cons.prems(1) by simp
    show "\<forall>y \<in> set (concat (map sites us)). ?c1 y = c y"
      using Cons.prems(2) disj by (auto simp: all_queued_def)
    show "f (root u') c'' = Some (all_queued m p (sites u') c'')"
      if "u' \<in> set us" "\<forall>y \<in> set (sites u'). c'' y = c y" for u' c''
      by (rule Cons.prems(3)) (use that in auto)
  qed
  moreover have "all_queued m p (concat (map sites us)) ?c1 = all_queued m p (sites u @ concat (map sites us)) c'"
    using disj by (auto simp: all_queued_def fun_eq_iff)
  ultimately show ?case using first by simp
qed

lemma all_of_map: "all_of f (map g xs) s = all_of (\<lambda>x. f (g x)) xs s"
  by (induction xs arbitrary: s) (simp_all split: option.split)

lemma spread_tree:
  assumes L: "lib_laws L" and m: "broadcastable L m p"
  shows "depth t \<le> n \<Longrightarrow> wired (peers_of c) [s] t \<Longrightarrow> addressed c t \<Longrightarrow> distinct (sites t) \<Longrightarrow>
    s \<notin> set (sites t) \<Longrightarrow> ordinary s \<Longrightarrow> list_all ordinary (sites t) \<Longrightarrow>
    \<forall>y \<in> set (sites t). c' y = c y \<Longrightarrow> accepting L m c t \<Longrightarrow>
    spread L n s (root t) (save_any L m) c' = Some (all_queued m p (sites t) c')"
proof (induction n arbitrary: t s c')
  case 0
  then show ?case by (cases t) simp
next
  case (Suc n)
  obtain x ts where t: "t = Site x ts" by (cases t)
  note q = Suc.prems [unfolded t]
  have cx: "c' x = c x" using q(8) by simp
  have ordy: "ordinary x" using q(7) by simp
  let ?f = "\<lambda>z. spread L n x z (save_any L m)"
  let ?c1 = "c'(x := queued_at m p (c x))"
  have "s \<in> set (peers_of c x)" using q(2) by (metis set_mset_mset wired.simps list.set_intros(1) append_Cons)
  then have s: "s \<in> remoteIP ` set (peers (c x))" by (simp add: peers_of_def)
  have rec: "receive_at L s (save_any L m) (c' x)
      = Some (map (\<lambda>z. (z, save_any L m)) (filter (\<lambda>z. z \<noteq> s) (peers_of c x)), queued_at m p (c x))"
    using receive_broadcast [OF L m s] q(3,5,6,9)
    by (auto simp: cx peers_of_def ordinary_def addressed_def accepting_def)
  have "s \<notin> set (map root ts)" using q(5) root_in_sites by fastforce
  then have "filter (\<lambda>z. z \<noteq> s) ([s] @ map root ts) = map root ts"
    by (simp add: filter_not_in)
  moreover have "mset (filter (\<lambda>z. z \<noteq> s) (peers_of c x)) = mset (filter (\<lambda>z. z \<noteq> s) ([s] @ map root ts))"
    using q(2) by (simp only: wired.simps mset_filter)
  ultimately have "mset (map root ts) = mset (filter (\<lambda>z. z \<noteq> s) (peers_of c x))"
    by simp
  then obtain us where us: "mset us = mset ts" "map root us = filter (\<lambda>z. z \<noteq> s) (peers_of c x)"
    using mset_map_order by blast
  have set_us: "set us = set ts" using us(1) by (rule mset_eq_setD)
  have sites_us: "mset (concat (map sites us)) = mset (concat (map sites ts))"
    by (rule mset_concat_map_cong [OF us(1)])
  have dist: "distinct (x # concat (map sites us))"
    using q(4) sites_us by (metis distinct.simps(2) mset_eq_imp_distinct_iff mset_eq_setD sites.simps)
  have below: "?f (root u) c'' = Some (all_queued m p (sites u) c'')"
    if u: "u \<in> set us" and same: "\<forall>y \<in> set (sites u). c'' y = c y" for u c''
  proof (rule Suc.IH [OF _ _ _ _ _ ordy _ same])
    show "depth u \<le> n" using q(1) u set_us by simp
    show "wired (peers_of c) [x] u" using q(2) u set_us by (simp add: list_all_iff)
    show "addressed c u" "list_all ordinary (sites u)" "x \<notin> set (sites u)" "accepting L m c u"
      using q(3,4,7,9) u set_us by (auto simp: addressed_def accepting_def list_all_iff)
    show "distinct (sites u)" using q(4) u set_us by (simp add: distinct_concat_iff)
  qed
  have "all_of ?f (map root us) ?c1 = Some (all_queued m p (concat (map sites us)) ?c1)"
    by (rule spread_children [OF below])
      (use dist q(8) set_us in \<open>auto simp: t\<close>)
  moreover have "all_queued m p (concat (map sites us)) ?c1 = all_queued m p (sites t) c'"
    using dist set_us cx by (auto simp: all_queued_def fun_eq_iff t)
  ultimately show ?case
    by (simp add: t rec us(2) all_of_map)
qed

text \<open>What the origin of a message hands to its peers.\<close>

lemma publish_tree:
  assumes L: "lib_laws L" and m: "broadcastable L m p"
    and w: "wired (peers_of c) [] (Site s ts)" and a: "addressed c (Site s ts)"
    and d: "distinct (sites (Site s ts))" and o: "list_all ordinary (sites (Site s ts))"
    and n: "depth (Site s ts) \<le> Suc n" and acc: "\<forall>u \<in> set ts. accepting L m c u"
    and run: "prog ((c s)\<lparr>outbox := []\<rparr>) = (Inr (), v)"
    and out: "outbox v = map (\<lambda>q. (socketIP q, save_any L m)) (peers (c s))"
  shows "publish L n s prog c
    = Some (\<lambda>y. if y = s then v\<lparr>outbox := outbox (c s)\<rparr>
        else if y \<in> set (sites (Site s ts)) then queued_at m p (c y) else c y)"
proof -
  let ?f = "\<lambda>z. spread L n s z (save_any L m)" and ?c1 = "c(s := v\<lparr>outbox := outbox (c s)\<rparr>)"
  have "mset (map root ts) = mset (peers_of c s)" using w by simp
  then obtain us where us: "mset us = mset ts" "map root us = peers_of c s"
    using mset_map_order by blast
  have set_us: "set us = set ts" using us(1) by (rule mset_eq_setD)
  have sites_us: "mset (concat (map sites us)) = mset (concat (map sites ts))"
    by (rule mset_concat_map_cong [OF us(1)])
  have dist: "distinct (s # concat (map sites us))"
    using d sites_us by (metis distinct.simps(2) mset_eq_imp_distinct_iff mset_eq_setD sites.simps)
  have "all_of ?f (map root us) ?c1 = Some (all_queued m p (concat (map sites us)) ?c1)"
  proof (rule spread_children)
    show "distinct (concat (map sites us))" using dist by simp
    show "\<forall>y \<in> set (concat (map sites us)). ?c1 y = c y" using dist by auto
    fix u c'
    assume u: "u \<in> set us" "\<forall>y \<in> set (sites u). c' y = c y"
    show "?f (root u) c' = Some (all_queued m p (sites u) c')"
      by (rule spread_tree [OF L m _ _ _ _ _ _ _ u(2)])
        (use u(1) set_us w a d o n acc in \<open>auto simp: list_all_iff addressed_def distinct_concat_iff\<close>)
  qed
  moreover have "map (\<lambda>q. (socketIP q, save_any L m)) (peers (c s)) = map (\<lambda>z. (z, save_any L m)) (peers_of c s)"
    using a by (simp add: addressed_def peers_fresh_def peers_of_def list_all_iff)
  moreover have "all_queued m p (concat (map sites us)) ?c1 = (\<lambda>y. if y = s then v\<lparr>outbox := outbox (c s)\<rparr>
        else if y \<in> set (sites (Site s ts)) then queued_at m p (c y) else c y)"
    using dist mset_eq_setD [OF sites_us] by (auto simp: all_queued_def fun_eq_iff)
  ultimately show ?thesis
    using us(2) by (simp add: publish_def run out all_of_map)
qed

text \<open>C6: In a network without cycles a message to everyone that a node gets from a neighbour, and that
  passes the hash check of the nodes, is queued exactly once, as it was sent and with the priority of its
  type, at that node and at every node behind it, and at no other node; nothing else changes but
  that those nodes read their clock and now remember the addresses of their peers.\<close>

theorem broadcast_is_queued_everywhere:
  assumes "lib_laws L" and "broadcastable L m p"
    and "wired (peers_of c) [s] t" and "addressed c t"
    and "distinct (s # sites t)" and "list_all ordinary (s # sites t)" and "depth t \<le> n"
    and "accepting L m c t"
  shows "spread L n s (root t) (save_any L m) c
    = Some (\<lambda>y. if y \<in> set (sites t)
        then (c y)\<lparr>peers := map ask_ip (peers (c y)), ticks := ticks (c y) + readings m,
          messageQueue := pq_emplace p (received m) (messageQueue (c y))\<rparr> else c y)"
proof -
  have "spread L n s (root t) (save_any L m) c = Some (all_queued m p (sites t) c)"
    by (rule spread_tree [OF assms(1,2,7,3,4)]) (use assms(5,6,8) in simp_all)
  then show ?thesis by (auto simp: all_queued_def queued_at_def fun_eq_iff)
qed

text \<open>The node 7 hands a lock message to 8, which has the peers 7, 6 and 5; the clocks run backwards
  by a nanosecond between the readings of the check.\<close>

definition backward_clock :: "nat \<Rightarrow> int" where
  "backward_clock i = (if even i then 1 else 0)"

lemma sample_lock_accepted:
  assumes "clock w = backward_clock" and "even (ticks w)"
  shows "accepted raw_lib sample_lock w"
proof -
  have t: "arrival_time sample_lock w = 4"
    using assms by (simp add: arrival_time_def sample_lock_facts backward_clock_def to_time_t_def
        whole_seconds_def sys_from_time_t_def sys_to_time_t_def tdiv_def convertTimepoint_def)
  have h: "hash_str (ctime raw_lib 5) = hash_str (ctime raw_lib 4) + 1"
    by (simp add: raw_lib_def) code_simp
  show ?thesis
    using t h by (simp add: accepted_iff_time [OF sample_lock_facts(5,6)])
qed

theorem broadcast_is_queued_everywhere_witness:
  "let nb = (\<lambda>y. if y = IPv6 8 then [IPv6 6, IPv6 7, IPv6 5] else [IPv6 8]);
       c = (\<lambda>y. sample_world\<lparr>self_ip := y, peers := map (\<lambda>ip. new_peer ip 1) (nb y), clock := backward_clock\<rparr>)
   in \<exists>c'. spread raw_lib 2 (IPv6 7) (IPv6 8) (save_any raw_lib sample_lock) c = Some c'
      \<and> messageQueue (c' (IPv6 5)) = [(lockPriority, received sample_lock)]
      \<and> messageQueue (c' (IPv6 4)) = []"
proof -
  let ?nb = "\<lambda>y. if y = IPv6 8 then [IPv6 6, IPv6 7, IPv6 5] else [IPv6 8]"
  let ?c = "\<lambda>y. sample_world\<lparr>self_ip := y, peers := map (\<lambda>ip. new_peer ip 1) (?nb y), clock := backward_clock\<rparr>"
  let ?t = "Site (IPv6 8) [Site (IPv6 5) [], Site (IPv6 6) []]"
  have p: "peers_of ?c = ?nb" by (auto simp: peers_of_def fun_eq_iff)
  have m: "broadcastable raw_lib sample_lock lockPriority"
  proof -
    note d = sample_lock_def set_hash_def on_base_def Let_def Message.defs FileMessage.defs
    have "length (save_Message raw_lib (header sample_lock)) \<le> sizeof_Message raw_lib"
      "receiverNode (header sample_lock) = ipv6Unspecified"
      by (simp_all add: d save_Message_def save_ip_def raw_lib_def)
    then show ?thesis by (simp add: broadcastable_def sample_lock_facts)
  qed
  have "spread raw_lib 2 (IPv6 7) (root ?t) (save_any raw_lib sample_lock) ?c
    = Some (\<lambda>y. if y \<in> set (sites ?t) then (?c y)\<lparr>peers := map ask_ip (peers (?c y)),
        ticks := ticks (?c y) + readings sample_lock, messageQueue := pq_emplace lockPriority
        (received sample_lock) (messageQueue (?c y))\<rparr> else ?c y)"
    by (rule broadcast_is_queued_everywhere [OF raw.lib_laws_axioms m])
      (simp_all add: p addressed_def ordinary_def peers_fresh_def accepting_def sample_lock_accepted)
  then show ?thesis by (simp add: Let_def pq_emplace_def)
qed

end
