(* ===== verification/Links.thy ===== *)
theory Links
  imports Processing
begin

text \<open>
  How a process keeps its links: connecting with a bounded number of attempts, replacing a lost
  gateway, forgetting the backups of a disconnected peer, joining a network, and serving resend
  requests from the message cache.
\<close>

section \<open>Connecting\<close>

definition max_attempts :: "size_t \<Rightarrow> nat" where
  "max_attempts retryAttempts = (if retryAttempts = 0 then 2 ^ 64 - 1 else unat retryAttempts)"

definition answers :: "world \<Rightarrow> ip_address \<Rightarrow> 16 word \<Rightarrow> nat \<Rightarrow> bool" where
  "answers w ip port i = dials w ip port (ticks w + i)"

lemma dial_exec:
  "dial ip port n w =
     (if \<exists>i < n. answers w ip port i
      then (Inr True, w\<lparr>ticks := ticks w + Suc (LEAST i. answers w ip port i)\<rparr>)
      else (Inr False, w\<lparr>ticks := ticks w + n\<rparr>))"
proof (induction n arbitrary: w)
  case 0
  then show ?case by (simp add: exec_simps)
next
  case (Suc n)
  let ?v = "w\<lparr>ticks := Suc (ticks w)\<rparr>"
  have v: "answers ?v ip port = (\<lambda>i. answers w ip port (Suc i))"
    by (rule ext) (simp add: answers_def)
  show ?case
  proof (cases "answers w ip port 0")
    case True
    then have "(LEAST i. answers w ip port i) = 0" by (rule Least_eq_0)
    moreover have "\<exists>i < Suc n. answers w ip port i" using True by blast
    moreover have "dial ip port (Suc n) w = (Inr True, ?v)"
      using True by (simp add: bnd_exec attempt_def ret_exec answers_def)
    ultimately show ?thesis by simp
  next
    case False
    then have a: "attempt ip port w = (Inr False, ?v)" by (simp add: attempt_def answers_def)
    have ex: "(\<exists>i < Suc n. answers w ip port i) \<longleftrightarrow> (\<exists>i < n. answers w ip port (Suc i))"
      using False by (metis Suc_less_eq2 less_Suc_eq_0_disj not_less_eq)
    have least: "(LEAST i. answers w ip port i) = Suc (LEAST i. answers w ip port (Suc i))"
      if "answers w ip port (Suc i)" for i
      by (rule Least_Suc [OF that False])
    have step: "dial ip port (Suc n) w = dial ip port n ?v"
      using a by (simp add: bnd_exec)
    have later: "?v\<lparr>ticks := ticks ?v + k\<rparr> = w\<lparr>ticks := ticks w + Suc k\<rparr>" for k
      by simp
    show ?thesis
    proof (cases "\<exists>i < n. answers w ip port (Suc i)")
      case True
      then obtain i where "answers w ip port (Suc i)" by blast
      note l = least [OF this]
      show ?thesis
        unfolding step Suc.IH [of ?v] v ex l later if_P [OF True] ..
    next
      case False
      show ?thesis
        unfolding step Suc.IH [of ?v] v ex later if_not_P [OF False] ..
    qed
  qed
qed

lemma connect_peer_exec:
  "connect_peer ip port retryAttempts w =
     (if \<exists>i < max_attempts retryAttempts. answers w ip port i
      then (Inr (new_peer ip port),
            w\<lparr>ticks := ticks w + Suc (LEAST i. answers w ip port i)\<rparr>)
      else (Inl (RuntimeError ''Failed to connect''),
            w\<lparr>ticks := ticks w + max_attempts retryAttempts\<rparr>))"
proof -
  have "unat (if retryAttempts = 0 then retryAttempts - 1 else retryAttempts)
      = max_attempts retryAttempts"
    by (simp add: max_attempts_def unsigned_minus_1_eq_mask mask_eq_exp_minus_1)
  then show ?thesis
    by (simp only: connect_peer_def Let_def bnd_exec dial_exec) (simp add: throw_exec ret_exec)
qed

text \<open>Connecting to a peer stops at the first attempt that succeeds; it makes at most
  \<open>retryAttempts\<close> attempts, with 0 standing for the largest number a \<open>size_t\<close> holds, and throws when
  none of them succeeds.\<close>

lemma connecting_is_bounded:
  "connect_peer ip port retryAttempts w =
     (if \<exists>i < max_attempts retryAttempts. answers w ip port i
      then (Inr (new_peer ip port),
            w\<lparr>ticks := ticks w + Suc (LEAST i. answers w ip port i)\<rparr>)
      else (Inl (RuntimeError ''Failed to connect''),
            w\<lparr>ticks := ticks w + max_attempts retryAttempts\<rparr>))"
  by (rule connect_peer_exec)

section \<open>Losing the gateway\<close>

text \<open>A backup that never answers, and one that always does.\<close>

definition down :: "world \<Rightarrow> ip_address \<times> 16 word \<Rightarrow> bool" where
  "down w b \<longleftrightarrow> \<not> isValid (fst b) \<or> (\<forall>i. \<not> dials w (fst b) (snd b) i)"

definition up :: "world \<Rightarrow> ip_address \<times> 16 word \<Rightarrow> bool" where
  "up w b \<longleftrightarrow> isValid (fst b) \<and> (\<forall>i. dials w (fst b) (snd b) i)"

lemma down_ticks [simp]: "down (w\<lparr>ticks := t\<rparr>) = down w" "up (w\<lparr>ticks := t\<rparr>) = up w"
  by (simp_all add: down_def up_def fun_eq_iff)

lemma connect_up: "up w b \<Longrightarrow> connect_peer (fst b) (snd b) 3 w
    = (Inr (new_peer (fst b) (snd b)), w\<lparr>ticks := Suc (ticks w)\<rparr>)"
proof -
  assume u: "up w b"
  then have "answers w (fst b) (snd b) 0" by (simp add: up_def answers_def)
  moreover from this have "(LEAST i. answers w (fst b) (snd b) i) = 0" by (rule Least_eq_0)
  moreover have "(0 :: nat) < max_attempts 3" by (simp add: max_attempts_def)
  ultimately show ?thesis by (auto simp: connect_peer_exec)
qed

lemma connect_down: "down w b \<Longrightarrow> isValid (fst b) \<Longrightarrow> connect_peer (fst b) (snd b) 3 w
    = (Inl (RuntimeError ''Failed to connect''), w\<lparr>ticks := ticks w + 3\<rparr>)"
  by (auto simp: connect_peer_exec answers_def down_def max_attempts_def)

lemma try_backups_up:
  "\<forall>x \<in> set bs. down w x \<Longrightarrow> up w b \<Longrightarrow>
    \<exists>t. try_backups pre (bs @ b # rest) w = (Inr (), w\<lparr>ticks := t,
      peers := insert_front (new_peer (fst b) (snd b)) (peers w),
      gatewayIP := fst b, backup_peers := pre @ bs @ rest\<rparr>)"
proof (induction bs arbitrary: pre w)
  case Nil
  have "isValid (fst b)" using Nil by (simp add: up_def)
  then show ?case
    using connect_up [OF Nil.prems(2)] by (auto simp: catch_exec bnd_exec updates_exec)
next
  case (Cons x bs)
  show ?case
  proof (cases "isValid (fst x)")
    case False
    then show ?thesis using Cons.IH [of w "pre @ [x]"] Cons.prems by simp
  next
    case True
    have "\<exists>t. try_backups (pre @ [x]) (bs @ b # rest) (w\<lparr>ticks := ticks w + 3\<rparr>)
      = (Inr (), w\<lparr>ticks := t, peers := insert_front (new_peer (fst b) (snd b)) (peers w),
      gatewayIP := fst b, backup_peers := pre @ (x # bs) @ rest\<rparr>)"
      using Cons.IH [of "w\<lparr>ticks := ticks w + 3\<rparr>" "pre @ [x]"] Cons.prems by simp
    then show ?thesis
      using True connect_down [of w x] Cons.prems(1) by (simp add: catch_exec bnd_exec)
  qed
qed

lemma try_backups_down:
  "\<forall>x \<in> set bs. down w x \<Longrightarrow> \<exists>t. try_backups pre bs w = (Inr (), w\<lparr>ticks := t\<rparr>)"
proof (induction bs arbitrary: pre w)
  case Nil
  then show ?case by (auto simp: ret_exec intro: exI [of _ "ticks w"])
next
  case (Cons x bs)
  then show ?case
    using Cons.IH [of w "pre @ [x]"] Cons.IH [of "w\<lparr>ticks := ticks w + 3\<rparr>" "pre @ [x]"]
      connect_down [of w x]
    by (auto simp: catch_exec bnd_exec)
qed

text \<open>The other ends of the sockets follow the vector; what the peers remember stays where it is.\<close>

lemma map2_move_into:
  "map socketIP (map2 move_into ts ss) = map socketIP (take (length ts) ss)"
  "length ss \<le> length ts \<Longrightarrow> map cachedIP (map2 move_into ts ss) = map cachedIP (take (length ss) ts)"
  by (induction ts ss rule: list_induct2') (auto simp: move_into_def)

lemma socketIP_insert_front: "map socketIP (insert_front p ps) = socketIP p # map socketIP ps"
proof (cases "ps = []")
  case False
  have "map socketIP (map2 move_into ps (p # butlast ps)) = map socketIP (p # butlast ps)"
    using False by (simp add: map2_move_into del: map_map)
  moreover have "map socketIP (butlast ps) @ [socketIP (last ps)] = map socketIP ps"
    using False by (metis append_butlast_last_id list.simps(8,9) map_append)
  ultimately show ?thesis using False by (simp add: insert_front_def move_new_def del: map_map)
qed (simp add: insert_front_def move_new_def)

lemma socketIP_erase:
  "map socketIP (erase_peer i ps) = take i (map socketIP ps) @ drop (Suc i) (map socketIP ps)"
  by (simp add: erase_peer_def map2_move_into take_map drop_map del: map_map)

lemma cachedIP_erase:
  "i < length ps \<Longrightarrow> map cachedIP (erase_peer i ps) = butlast (map cachedIP ps)"
proof -
  assume i: "i < length ps"
  have "map cachedIP (erase_peer i ps) = map cachedIP (take i ps @ take (length ps - Suc i) (drop i ps))"
    by (simp add: erase_peer_def map2_move_into del: map_map)
  also have "take i ps @ take (length ps - Suc i) (drop i ps) = take (length ps - 1) ps"
    using i take_add [of i "length ps - Suc i" ps] by simp
  finally show ?thesis by (simp add: butlast_conv_take take_map)
qed

text \<open>The peers whose sockets are left when the one at \<open>i\<close> is removed.\<close>

definition others :: "nat \<Rightarrow> 'a list \<Rightarrow> 'a list" where
  "others i xs = take i xs @ drop (Suc i) xs"

text \<open>C29: When the link to the gateway is lost, its socket is removed and the first backup that answers
  takes its place: its socket is put in front of the others, it becomes the gateway and is no longer
  a backup; the backups before it stay backups.\<close>

theorem lost_gateway_is_replaced:
  assumes "first_index (\<lambda>p. remoteIP p = lost) (peers w) = Some i"
    and "remoteIP (peers w ! i) = gatewayIP w" and "i < length (peers w)"
    and "backup_peers w = before @ b # after" and "\<forall>x \<in> set before. down w x" and "up w b"
  shows "\<exists>t ps. remove_peer lost w = (Inr (gatewayIP w),
      w\<lparr>ticks := t, peers := ps, gatewayIP := fst b, backup_peers := before @ after\<rparr>)
    \<and> map socketIP ps = fst b # others i (map socketIP (peers w))"
proof -
  let ?ps = "erase_peer i (ask_until lost (peers w))"
  let ?w = "w\<lparr>peers := ?ps, gatewayIP := ipv6Unspecified\<rparr>"
  have ask: "remoteIP (ask_until lost (peers w) ! i) = remoteIP (peers w ! i)"
    using assms(3) ask_until_simps(1) [of lost "peers w"] by (metis length_map nth_map)
  have "\<forall>x \<in> set before. down ?w x" "up ?w b"
    using assms(5,6) by (simp_all add: down_def up_def)
  from try_backups_up [OF this, of "[]" "after"] obtain t where
    "try_backups [] (before @ b # after) ?w = (Inr (), ?w\<lparr>ticks := t,
      peers := insert_front (new_peer (fst b) (snd b)) (peers ?w),
      gatewayIP := fst b, backup_peers := [] @ before @ after\<rparr>)" by blast
  then have "remove_peer lost w = (Inr (gatewayIP w),
      w\<lparr>ticks := t, peers := insert_front (new_peer (fst b) (snd b)) ?ps, gatewayIP := fst b,
        backup_peers := before @ after\<rparr>)"
    using assms(1,2,4) ask by (simp add: remove_peer_def bnd_exec gets_exec updates_exec ret_exec)
  moreover have "map socketIP (insert_front (new_peer (fst b) (snd b)) ?ps)
      = fst b # others i (map socketIP (peers w))"
    by (simp add: socketIP_insert_front socketIP_erase others_def)
  ultimately show ?thesis
    by (intro exI [of _ t] exI [of _ "insert_front (new_peer (fst b) (snd b)) ?ps"] conjI)
qed

theorem lost_gateway_is_replaced_witness:
  "let w = sample_world\<lparr>peers := [new_peer (IPv6 5) 1, new_peer (IPv6 6) 1],
        gatewayIP := IPv6 6, backup_peers := [(NoAddress, 0), (IPv6 7, 1), (IPv6 8, 2)],
        dials := (\<lambda>ip _ _. ip = IPv6 8)\<rparr>
   in \<exists>w'. remove_peer (IPv6 6) w = (Inr (IPv6 6), w') \<and> gatewayIP w' = IPv6 8
      \<and> map socketIP (peers w') = [IPv6 8, IPv6 5] \<and> backup_peers w' = [(NoAddress, 0), (IPv6 7, 1)]"
proof -
  let ?w = "sample_world\<lparr>peers := [new_peer (IPv6 5) 1, new_peer (IPv6 6) 1],
        gatewayIP := IPv6 6, backup_peers := [(NoAddress, 0), (IPv6 7, 1), (IPv6 8, 2)],
        dials := (\<lambda>ip _ _. ip = IPv6 8)\<rparr>"
  have "first_index (\<lambda>p. remoteIP p = IPv6 6) (peers ?w) = Some 1"
    "remoteIP (peers ?w ! 1) = gatewayIP ?w" "1 < length (peers ?w)"
    "backup_peers ?w = [(NoAddress, 0), (IPv6 7, 1)] @ (IPv6 8, 2) # []"
    "\<forall>x \<in> set [(NoAddress, 0), (IPv6 7, 1)]. down ?w x" "up ?w (IPv6 8, 2)"
    by (simp_all add: down_def up_def isValid_def)
  from lost_gateway_is_replaced [OF this] show ?thesis
    by (auto simp: Let_def others_def)
qed

section \<open>The address of a lost peer lives on\<close>


lemma ask_until_cached:
  "first_index (\<lambda>p. remoteIP p = lost) ps = Some i \<Longrightarrow> cachedIP (ask_until lost ps ! i) = lost"
  by (induction ps arbitrary: i) (auto simp: ask_ip_def split: if_splits)

lemma first_index_least: "first_index P xs = Some i \<Longrightarrow> k < i \<Longrightarrow> \<not> P (xs ! k)"
  by (induction P xs arbitrary: i k rule: first_index.induct) (auto simp: nth_Cons' split: if_splits)

text \<open>C30: When a peer that is neither the last one of the list nor the gateway is lost, and its address is one
  of another node (neither unspecified nor one of the process itself), the next peer's socket moves into
  its place but not the next peer's address: the process goes on taking the lost address for the one of a
  peer, and data for it is from then on sent over the socket of that next peer, and to no one else.\<close>

theorem lost_address_lives_on:
  assumes "first_index (\<lambda>p. remoteIP p = lost) (peers w) = Some i" and "Suc i < length (peers w)"
    and "isValid lost" and "lost \<noteq> gatewayIP w" and "\<not> is_broadcast lost" and "\<not> is_self (self_ip w) lost"
  shows "\<exists>ps. remove_peer lost w = (Inr lost, w\<lparr>peers := ps\<rparr>)
    \<and> remoteIP (ps ! i) = lost \<and> socketIP (ps ! i) = socketIP (peers w ! Suc i)
    \<and> (\<forall>L sendf data source. \<exists>v. routeData L sendf data lost source (w\<lparr>peers := ps\<rparr>) = (Inr (), v)
        \<and> outbox v = outbox w @ [(socketIP (peers w ! Suc i), data)])"
proof -
  let ?qs = "ask_until lost (peers w)"
  let ?ps = "erase_peer i ?qs"
  have len: "length ?qs = length (peers w)" by (metis ask_until_simps(1) length_map)
  have lps: "length ?ps = length (peers w) - 1"
    using assms(2) len by (simp add: erase_peer_def)
  have q: "remoteIP (?qs ! i) = lost"
    using first_index_nth [OF assms(1)] ask_until_simps(1) [of lost "peers w"] len
    by (metis length_map nth_map)
  have "remove_peer lost w = (Inr lost, w\<lparr>peers := ?ps\<rparr>)"
    using assms(1,4) q by (simp add: remove_peer_def bnd_exec gets_exec updates_exec ret_exec)
  moreover have cached: "cachedIP (?ps ! i) = lost"
  proof -
    have "map cachedIP ?ps ! i = butlast (map cachedIP ?qs) ! i"
      using cachedIP_erase [of i ?qs] assms(2) len by simp
    then show ?thesis
      using assms(2) len lps ask_until_cached [OF assms(1)] by (simp add: nth_butlast)
  qed
  moreover have sock: "socketIP (?ps ! i) = socketIP (peers w ! Suc i)"
  proof -
    have "map socketIP ?ps ! i = drop (Suc i) (map socketIP (peers w)) ! 0"
      using assms(2) by (simp add: socketIP_erase nth_append)
    then show ?thesis using assms(2) lps by simp
  qed
  moreover have "\<exists>v. routeData L sendf data lost source (w\<lparr>peers := ?ps\<rparr>) = (Inr (), v)
      \<and> outbox v = outbox w @ [(socketIP (peers w ! Suc i), data)]" for L sendf data source
  proof -
    have r: "remoteIP (?ps ! i) = lost" using cached assms(3) by (simp add: remoteIP_def)
    have "remoteIP (?ps ! k) \<noteq> lost" if "k < i" for k
    proof -
      have "?ps ! k = ?qs ! k" using that assms(2) len by (simp add: erase_peer_def nth_append)
      moreover have "remoteIP (?qs ! k) = remoteIP (peers w ! k)"
        using ask_until_simps(1) [of lost "peers w"] len that assms(2)
        by (metis Suc_lessD nth_map order.strict_trans)
      ultimately show ?thesis using first_index_least [OF assms(1) that] by simp
    qed
    moreover have "i < length ?ps" using assms(2) lps by simp
    ultimately have "find (\<lambda>p. remoteIP p = lost) ?ps = Some (?ps ! i)"
      using r by (auto simp: find_Some_iff)
    then have "hops_of (w\<lparr>peers := ?ps\<rparr>) lost source = \<lparr>to_peers = [?ps ! i], to_self = False\<rparr>"
      using assms(5,6) by (simp add: hops_of_def route_cases)
    then show ?thesis using sock by (simp add: routeData_exec posted_def)
  qed
  ultimately show ?thesis using assms(3) by (intro exI [of _ ?ps] conjI) (auto simp: remoteIP_def)
qed

theorem lost_address_lives_on_witness:
  "let w = sample_world\<lparr>peers := [new_peer (IPv6 5) 1, new_peer (IPv6 6) 1]\<rparr>
   in \<exists>ps v. remove_peer (IPv6 5) w = (Inr (IPv6 5), w\<lparr>peers := ps\<rparr>)
      \<and> remoteIP (ps ! 0) = IPv6 5 \<and> socketIP (ps ! 0) = IPv6 6
      \<and> routeData raw_lib (sendMessage raw_lib) [42] (IPv6 5) (IPv6 9) (w\<lparr>peers := ps\<rparr>) = (Inr (), v)
      \<and> outbox v = [(IPv6 6, [42])]"
proof -
  let ?w = "sample_world\<lparr>peers := [new_peer (IPv6 5) 1, new_peer (IPv6 6) 1]\<rparr>"
  have "first_index (\<lambda>p. remoteIP p = IPv6 5) (peers ?w) = Some 0" "Suc 0 < length (peers ?w)"
    "isValid (IPv6 5)" "IPv6 5 \<noteq> gatewayIP ?w" "\<not> is_broadcast (IPv6 5)" "\<not> is_self (self_ip ?w) (IPv6 5)"
    by (simp_all add: isValid_def is_broadcast_def is_self_def)
  from lost_address_lives_on [OF this] show ?thesis
    unfolding Let_def by (elim exE conjE allE [of _ raw_lib] allE [of _ "sendMessage raw_lib"] allE [of _ "[42]"]
      allE [of _ "IPv6 9"]) (intro exI conjI, assumption, simp_all)
qed

section \<open>Forgetting a disconnected peer\<close>

lemma erase_backups_in: "fst c = ip \<Longrightarrow> c # xs \<noteq> filter (\<lambda>b. fst b \<noteq> ip) ys"
  by (metis (mono_tags, lifting) list.set_intros(1) mem_Collect_eq set_filter)

text \<open>C31: Handling a disconnect removes every backup entry of the disconnected peer exactly when no two
  of them are neighbours in the list: after erasing an entry the loop skips the one that moves into
  its place.\<close>

theorem disconnect_forgets_iff:
  "erase_backups ip bs = filter (\<lambda>b. fst b \<noteq> ip) bs
    \<longleftrightarrow> successively (\<lambda>b c. \<not> (fst b = ip \<and> fst c = ip)) bs"
proof (induction ip bs rule: erase_backups.induct)
  case (3 ip b c bs)
  show ?case
  proof (cases "fst b = ip")
    case False
    then show ?thesis using 3 by simp
  next
    case b: True
    show ?thesis
    proof (cases "fst c = ip")
      case True
      then show ?thesis using b erase_backups_in [OF True, of "erase_backups ip bs" bs] by simp
    next
      case False
      then have "successively (\<lambda>b c. \<not> (fst b = ip \<and> fst c = ip)) (c # bs)
          = successively (\<lambda>b c. \<not> (fst b = ip \<and> fst c = ip)) bs"
        by (cases bs) simp_all
      then show ?thesis using 3 b False by simp
    qed
  qed
qed simp_all


section \<open>Serving resend requests\<close>

text \<open>The first cached message with the requested hash.\<close>

definition first_match :: "size_t \<Rightarrow> any_message option list \<Rightarrow> any_message option" where
  "first_match h xs =
     (case find (\<lambda>x. case x of Some m \<Rightarrow> messageHash (header m) = h | None \<Rightarrow> False) xs of
        Some x \<Rightarrow> x | None \<Rightarrow> None)"

lemma resend_loop_match:
  "\<forall>x \<in> set xs. x \<noteq> None \<Longrightarrow>
    resend_loop L r xs = (case first_match (requestedHash r) xs of
      None \<Rightarrow> ret True
    | Some m \<Rightarrow> bnd (resend L m (originalDestination r)) (\<lambda>_. ret True))"
proof (induction xs)
  case Nil
  then show ?case by (simp add: first_match_def)
next
  case (Cons x xs)
  then obtain m where x: "x = Some m" by auto
  have "resend_loop L r (x # xs) = (if messageHash (header m) = requestedHash r
      then bnd (resend L m (originalDestination r)) (\<lambda>_. ret True) else resend_loop L r xs)"
    by (simp add: x need_def)
  then show ?case using Cons by (simp add: x first_match_def)
qed

lemma first_match_in: "first_match h xs = Some m \<Longrightarrow> Some m \<in> set xs"
  by (induction xs) (auto simp: first_match_def split: option.splits if_splits)

text \<open>The elements of the cache are pointers to messages, and there are some.\<close>

definition cache_filled :: "world \<Rightarrow> bool" where
  "cache_filled w \<longleftrightarrow> cb_inv (oldMessages w) \<and> bsize (oldMessages w) \<noteq> 0
     \<and> None \<notin> set (contents (oldMessages w))"

lemma processResend_filled:
  assumes "cache_filled w" and "originatorNode r \<noteq> self_ip w"
  shows "processResendRequestMessage L r w =
    (case first_match (requestedHash r) (contents (oldMessages w)) of
       None \<Rightarrow> (Inr True, w)
     | Some m \<Rightarrow> bnd (resend L m (originalDestination r)) (\<lambda>_. ret True) w)"
proof -
  have "range_for (oldMessages w) = Some (contents (oldMessages w))"
    using assms(1) by (intro range_for_filled) (simp_all add: cache_filled_def)
  moreover have "\<forall>x \<in> set (contents (oldMessages w)). x \<noteq> None"
    using assms(1) unfolding cache_filled_def by metis
  ultimately show ?thesis
    using assms(2)
    by (simp add: processResendRequestMessage_def bnd_exec gets_exec resend_loop_match ret_exec
        split: option.split)
qed

text \<open>A resend request is answered from the message cache: the oldest cached message with the
  requested hash is sent again to its original destination, as an object of its own class and with
  all its fields; when there is none the request is dropped without effect.\<close>

lemma resend_serves_the_cache:
  assumes "cache_filled w" and "originatorNode r \<noteq> self_ip w" and "typed Q w"
    and "first_match (requestedHash r) (contents (oldMessages w)) = found"
    and "\<forall>m. found = Some m \<longrightarrow> msg_kind m \<noteq> Some resendRequest"
  shows "processResendRequestMessage L r w =
    (case found of
       None \<Rightarrow> (Inr True, w)
     | Some m \<Rightarrow> bnd (sendMessage L m (originalDestination r)) (\<lambda>_. ret True) w)"
proof (cases found)
  case None
  then show ?thesis using processResend_filled [OF assms(1,2)] assms(4) by simp
next
  case (Some m)
  have "Some m \<in> set (contents (oldMessages w))"
    using assms(4) Some by (auto dest: first_match_in)
  then have "Some m \<in> set (cells (oldMessages w))"
    using range_for_cells [of "oldMessages w"] range_for_filled [of "oldMessages w"] assms(1)
    by (auto simp: cache_filled_def)
  then have "well_typed m" using assms(3) by (fastforce simp: typed_def cells_typed_def)
  then show ?thesis
    using processResend_filled [OF assms(1,2)] assms(4,5) Some by (simp add: resend_typed)
qed

text \<open>A request to resend a message that was itself a resend request throws: no case of the switch
  handles one, though every resend request sent or processed is cached.\<close>

lemma resending_a_resend_request_throws:
  assumes "cache_filled w" and "originatorNode r \<noteq> self_ip w"
    and "first_match (requestedHash r) (contents (oldMessages w)) = Some (MResend q)"
    and "msg_kind (MResend q) = Some resendRequest"
  shows "processResendRequestMessage L r w
    = (Inl (RuntimeError ''Unrecognized message type''), w)"
  using processResend_filled [OF assms(1,2)] assms(3,4)
  by (simp add: resend_def bnd_exec throw_exec)

text \<open>A resend request that is processed before anything was cached dereferences a null pointer:
  the loop over the empty ring visits its slots.\<close>

lemma resend_request_on_an_empty_cache:
  assumes "cb_inv (oldMessages w)" and "bsize (oldMessages w) = 0"
    and "slot (oldMessages w) 0 = None" and "originatorNode r \<noteq> self_ip w"
  shows "processResendRequestMessage L r w = (Inl (Undefined ''null unique_ptr''), w)"
proof -
  have "0 < capacity (oldMessages w)" using assms(1) by (simp add: cb_inv_def)
  then obtain xs where "range_for (oldMessages w) = Some (None # xs)"
    using range_for_empty [OF assms(1,2)] assms(3) by (simp add: upt_conv_Cons)
  then show ?thesis
    using assms(4) by (simp add: processResendRequestMessage_def bnd_exec gets_exec need_def throw_exec)
qed

text \<open>Sample states: a cache with one message, and the cache of a new process.\<close>

definition sample_request :: "ip_address \<Rightarrow> size_t \<Rightarrow> ResendRequestMessage" where
  "sample_request owner h = Message.extend ((new_Message resendRequest)\<lparr>originatorNode := owner\<rparr>)
     (ResendRequestMessage.fields h ipv6Unspecified)"

definition caching :: "any_message \<Rightarrow> world" where
  "caching m = sample_world\<lparr>oldMessages := emplace_back (Some m) (oldMessages sample_world)\<rparr>"

lemma sample_request_simps [simp]:
  "requestedHash (sample_request owner h) = h" "originatorNode (sample_request owner h) = owner"
  "originalDestination (sample_request owner h) = ipv6Unspecified"
  by (simp_all add: sample_request_def Message.defs ResendRequestMessage.defs)

lemma empty_cache: "cb_inv (oldMessages sample_world)" "bsize (oldMessages sample_world) = 0"
  "slot (oldMessages sample_world) 0 = None"
  "cells (oldMessages sample_world) = replicate 100 None"
  by (simp_all add: sample_world_def setup_MessageManager_def setFinalizer_def new_finalizeable_def
      cb_inv_def capacity_def slot_def)

lemma caching_simps:
  "cb_inv (oldMessages (caching m))" "contents (oldMessages (caching m)) = [Some m]"
  "cache_filled (caching m)" "self_ip (caching m) = IPv6 9"
  "well_typed m \<Longrightarrow> typed (\<lambda>_. True) (caching m)"
proof -
  have e: "contents (oldMessages sample_world) = []" using empty_cache by (simp add: contents_def)
  show i: "cb_inv (oldMessages (caching m))" and c: "contents (oldMessages (caching m)) = [Some m]"
    using empty_cache e by (simp_all add: caching_def emplace_back_contents capacity_def)
  have "bsize (oldMessages (caching m)) = 1" using c length_contents by (metis One_nat_def length_Cons list.size(3))
  then show "cache_filled (caching m)" using i c by (simp add: cache_filled_def)
  show "self_ip (caching m) = IPv6 9" by (simp add: caching_def)
  assume "well_typed m"
  moreover have "set (cells (oldMessages (caching m))) \<subseteq> {Some m, None}"
    using set_update_subset_insert [of "replicate 100 None" "cb_end (oldMessages sample_world)" "Some m"]
    by (auto simp: caching_def emplace_back_def Let_def empty_cache)
  moreover have "cache_ok (caching m)"
    using cache_ok_remember [OF cache_ok_sample] by (simp add: caching_def)
  ultimately show "typed (\<lambda>_. True) (caching m)"
    by (auto simp: typed_def queue_typed_def cells_typed_def caching_def)
qed


section \<open>Joining an empty network\<close>

text \<open>A node that joins a network without files never finishes connecting: handling the connect
  message leaves it waiting for one file, and the node it joined answers the synchronisation
  request by sending nothing.\<close>

lemma joining_an_empty_network:
  assumes "processConnectMessage c v = (Inr True, v')"
    and "isFinishedConnecting w" and "enumerateAllFiles (folders w) (files w) = (Inr [], files w)"
  shows "\<not> isFinishedConnecting v' \<and> receivedInitialFiles v' = 0
    \<and> processInitialFileSyncRequestMessage L m w = (Inr True, w)"
proof -
  have "receivedInitialFiles v' = 0 \<and> totalInitialFiles v' = 1"
    using assms(1)
    by (auto simp: processConnectMessage_def updates_exec ret_exec elim!: bnd_okE)
  then show ?thesis
    using assms(2,3)
    by (simp add: isFinishedConnecting_def processInitialFileSyncRequestMessage_def bnd_exec
        finishedConnecting_exec gets_exec on_files_exec ret_exec)
qed


end
