(* ===== verification/Program.thy ===== *)
theory Program
  imports MainLoop Links "HOL-Library.Multiset"
begin

text \<open>
  Properties of the callbacks of \<open>src/src/main.cpp\<close> and of the start of the process: what the saved
  hash of a file suppresses, and what happens when the first connection fails.
\<close>

section \<open>Numbers as text, read back\<close>

lemma digits_value_snoc [simp]:
  "digits_value (ds @ [c]) = 10 * digits_value ds + (of_char c - 48)"
  by (simp add: digits_value_def)

lemma digit_char: "k < 10 \<Longrightarrow> of_char (char_of (48 + k) :: char) = (48 + k :: nat)"
  by (simp add: of_char_of)

lemma is_digit_char: "(k :: nat) < 10 \<Longrightarrow> is_digit (char_of (48 + k))"
  by (simp add: is_digit_def digit_char)

lemma to_string_digits:
  "to_string n \<noteq> [] \<and> list_all is_digit (to_string n) \<and> digits_value (to_string n) = n"
proof (induction n rule: to_string.induct)
  case (1 n)
  show ?case
  proof (cases "n < 10")
    case True
    then show ?thesis
      by (subst (1 2 3) to_string.simps) (simp add: is_digit_char digits_value_def digit_char)
  next
    case False
    have "n mod 10 < 10" by simp
    then show ?thesis
      using False 1
      by (subst (1 2 3) to_string.simps) (simp add: is_digit_char digit_char)
  qed
qed

lemma digit_not_space: "is_digit c \<Longrightarrow> \<not> is_space c"
  by (auto simp: is_digit_def is_space_def)

lemma digit_not_sign: "is_digit c \<Longrightarrow> c \<noteq> CHR ''-'' \<and> c \<noteq> CHR ''+''"
  by (auto simp: is_digit_def)

text \<open>The hash as it is written is the hash as it is read.\<close>

lemma read_size_t_to_string [simp]: "read_size_t (to_string (unat h)) = Some h"
proof -
  obtain c cs where s: "to_string (unat h) = c # cs" and c: "is_digit c" "list_all is_digit cs"
    and v: "digits_value (c # cs) = unat h"
    using to_string_digits [of "unat h"] by (cases "to_string (unat h)") auto
  have tw: "takeWhile is_digit (c # cs) = c # cs"
    using c by (simp add: list_all_iff takeWhile_eq_all_conv)
  have "unat h < 2 ^ LENGTH(64)" by (rule unsigned_less)
  then have "unat h < 2 ^ 64" by simp
  then show ?thesis
    using c(1) digit_not_space [OF c(1)] digit_not_sign [OF c(1)] v
    by (simp add: read_size_t_def s tw Let_def del: takeWhile.simps)
qed

section \<open>The hash of a text ignores the order of its characters\<close>

lemma hash_str_sum: "hash_str s = sum_list (map (\<lambda>c. scast (byte_of_char c)) s)"
proof -
  have "foldl (\<lambda>h c. h + scast (byte_of_char c)) h s = h + sum_list (map (\<lambda>c. scast (byte_of_char c)) s)"
    for h :: size_t
    by (induction s arbitrary: h) (simp_all add: algebra_simps)
  then show ?thesis by (simp add: hash_str_def)
qed

lemma hash_str_mset: "mset s = mset s' \<Longrightarrow> hash_str s = hash_str s'"
  by (metis hash_str_sum mset_map sum_mset_sum_list)


section \<open>Sending does not touch the files\<close>

abbreviation (input) files_are :: "filesystem \<Rightarrow> world \<Rightarrow> bool" where
  "files_are fs w \<equiv> files w = fs"

lemma keeps_deserialize:
  assumes "\<And>m d. safely (files_are fs) {} (sendf (resend_request m) d)"
  shows "safely (files_are fs) {} (deserializeMessage L sendf data)"
proof -
  have "safely (files_are fs) {} now" "safely (files_are fs) {} (enqueue p m)" for p m
    by (auto simp: safely_def exec_simps)
  then have v: "safely (files_are fs) {} (validate_and_enqueue L sendf m off p)" for m off p
    unfolding validate_and_enqueue_def validateMessageHash_def draw_time_def
    by (intro safely_intro assms)
  have a: "safely (files_are fs) {} (bnd (archive_load load data) f)"
    if "\<And>x. safely (files_are fs) {} (f x)" for load :: "'x get" and f :: "'x \<Rightarrow> (world, unit) prog"
    using that by (auto intro: safely_archive_load)
  show ?thesis
    by (auto simp: deserializeMessage_def intro!: safely_throw a v
        split: list.split option.split msg_type.split)
qed

lemma keeps_send: "safely (files_are fs) {} (send L n m d b)"
proof (induction n arbitrary: m d b)
  case 0
  then show ?case by (simp add: safely_throw)
next
  case (Suc n)
  have p: "safely (files_are fs) {} (peer_send data q)" "safely (files_are fs) {} now"
    "safely (files_are fs) {} (remember m)" "safely (files_are fs) {} (updates (asked_for d))"
    for data q m d
    by (auto simp: safely_def exec_simps peer_send_def remember_def on_cache_def
        split: prod.split sum.split)
  have "safely (files_are fs) {} (routeData L (\<lambda>m d. send L n m d True) data d s)" for data s
    unfolding routeData_def by (intro safely_intro keeps_deserialize Suc.IH p)
  then show ?case
    by (auto simp: Let_def draw_time_def intro!: safely_intro p)
qed

lemma files_broadcast: "files (snd (broadcast L m w)) = files w"
  using keeps_send [of "files w" L 2 m ipv6Unspecified True]
  by (auto simp: broadcast_def sendMessage_def safely_def)

section \<open>The saved hash\<close>

text \<open>The file \<open>p\<close> holds the text \<open>s\<close>; the hash that is saved for \<open>p\<close> reads \<open>h\<close>.\<close>

definition readable :: "world \<Rightarrow> path \<Rightarrow> string \<Rightarrow> bool" where
  "readable w p s \<longleftrightarrow> (case lookup (files w) p of
     Some (Regular pm s' _) \<Rightarrow> s' = s \<and> pm AND owner_read \<noteq> 0 | _ \<Rightarrow> False)"

definition saved_hash :: "world \<Rightarrow> path \<Rightarrow> size_t \<Rightarrow> bool" where
  "saved_hash w p h \<longleftrightarrow>
     (case wntsPath p of None \<Rightarrow> False | Some wnts \<Rightarrow>
        (case lookup (files w) wnts of
           Some (Regular pm s _) \<Rightarrow> pm AND owner_read \<noteq> 0 \<and> read_size_t s = Some h | _ \<Rightarrow> False))"

lemma write_timestamp_exec:
  "readable w p s \<Longrightarrow> \<exists>ts. write_timestamp p w = (Inr ts, w\<lparr>ticks := ticks w + 2\<rparr>)"
  by (auto simp: readable_def write_timestamp_def last_write_time_def exec_simps
      split: option.splits node.splits)

lemma read_file_on: "readable w p s \<Longrightarrow> on_files (read_file p) w = (Inr (Some s), w)"
  by (auto simp: readable_def exec_simps fs_simps split: option.splits node.splits)

text \<open>The callback on a readable file, with what the question for the hash returned.\<close>

lemma callback_exec:
  assumes "readable w p s" and "wntsPath p = Some wnts"
  obtains ts v where "files v = files w" and "v = w\<lparr>ticks := ticks w + 2\<rparr>"
    and "write_timestamp p w = (Inr ts, v)"
    and "onFileCreatedOrModified_cb L p w =
      (case lookup (files w) wnts of
         Some (Regular pm text _) \<Rightarrow>
           if pm AND owner_read = 0 \<or> read_size_t text = None then (Inl (Undefined ''oldHash''), v)
           else if read_size_t text = Some (hash_str s) then (Inr (), v)
           else bnd (broadcast L (content_message p ts s)) (\<lambda>_.
                write_out wnts (to_string (unat (hash_str s)))) v
       | Some (Directory _) \<Rightarrow> (Inl (Undefined ''oldHash''), v)
       | None \<Rightarrow> bnd (broadcast L (content_message p ts s)) (\<lambda>_.
                write_out wnts (to_string (unat (hash_str s)))) v)"
proof -
  define v where "v = w\<lparr>ticks := ticks w + 2\<rparr>"
  obtain ts where ts: "write_timestamp p w = (Inr ts, v)"
    using write_timestamp_exec [OF assms(1)] by (auto simp: v_def)
  have v: "files v = files w" by (simp add: v_def)
  have r: "readable v p s" using assms(1) by (simp add: readable_def v)
  have id: "v\<lparr>files := files w\<rparr> = v" by (simp add: v [symmetric])
  have "should_send wnts (hash_str s) v =
     (case lookup (files w) wnts of
        Some (Regular pm text _) \<Rightarrow>
          if pm AND owner_read = 0 \<or> read_size_t text = None then (Inl (Undefined ''oldHash''), v)
          else (Inr (read_size_t text \<noteq> Some (hash_str s)), v)
      | Some (Directory _) \<Rightarrow> (Inl (Undefined ''oldHash''), v)
      | None \<Rightarrow> (Inr True, v))"
    by (auto simp: should_send_def exec_simps fs_simps v id split: option.split node.split)
  then have "onFileCreatedOrModified_cb L p w =
      (case lookup (files w) wnts of
         Some (Regular pm text _) \<Rightarrow>
           if pm AND owner_read = 0 \<or> read_size_t text = None then (Inl (Undefined ''oldHash''), v)
           else if read_size_t text = Some (hash_str s) then (Inr (), v)
           else bnd (broadcast L (content_message p ts s)) (\<lambda>_.
                write_out wnts (to_string (unat (hash_str s)))) v
       | Some (Directory _) \<Rightarrow> (Inl (Undefined ''oldHash''), v)
       | None \<Rightarrow> bnd (broadcast L (content_message p ts s)) (\<lambda>_.
                write_out wnts (to_string (unat (hash_str s)))) v)"
    by (simp add: onFileCreatedOrModified_cb_def bnd_exec [of "write_timestamp p"]
        bnd_exec [of "on_files (read_file p)"] bnd_exec [of "should_send wnts (hash_str s)"]
        ts read_file_on [OF r] the_wntsPath_def need_def
        assms(2) ret_exec split: option.split node.split)
  with v v_def ts show thesis by (rule that)
qed

lemma silent_if_saved:
  assumes "readable w p s" and "saved_hash w p (hash_str s)"
  shows "onFileCreatedOrModified_cb L p w = (Inr (), w\<lparr>ticks := ticks w + 2\<rparr>)"
proof -
  obtain wnts pm str t where wp: "wntsPath p = Some wnts"
    and h: "lookup (files w) wnts = Some (Regular pm str t)" "pm AND owner_read \<noteq> 0"
      "read_size_t str = Some (hash_str s)"
    using assms(2) by (auto simp: saved_hash_def split: option.splits node.splits)
  from assms(1) wp show ?thesis
    by (rule callback_exec [of w p s wnts L]) (simp add: h)
qed

lemma wnts_of_managed:
  assumes "managed p"
  obtains wp where "wntsPath p = Some wp" "resolve wp = wp" "wp \<noteq> []" "wp \<noteq> p"
proof -
  from assms have fp: "file_path p" and r: "resolve p = p" and g: "''.wnts'' \<notin> set p"
    by (simp_all add: managed_def is_good_iff)
  from fp obtain e es where p: "p = e # es" by (cases p) (auto simp: file_path_def)
  have "\<forall>x \<in> set p. x \<noteq> '''' \<and> x \<noteq> ''.''"
    using r by (simp add: resolve_def filter_id_conv)
  then have "resolve (e # ''.wnts'' # es) = e # ''.wnts'' # es"
    using p by (simp add: resolve_def filter_id_conv)
  moreover have "wntsPath p = Some (e # ''.wnts'' # es)"
    using wntsPath_eq wf_path_file_path [OF fp] p by simp
  ultimately show thesis using g p by (intro that [of "e # ''.wnts'' # es"]) auto
qed

lemma saved_after_callback:
  assumes p: "managed p" and r: "readable w p s" and wp: "wntsPath p = Some wp"
    and cw: "can_write (files w) wp" and run: "onFileCreatedOrModified_cb L p w = (Inr (), v)"
  shows "readable v p s \<and> saved_hash v p (hash_str s)"
proof (rule callback_exec [OF r wp, of L])
  fix ts u
  assume u: "files u = files w" "u = w\<lparr>ticks := ticks w + 2\<rparr>"
    "write_timestamp p w = (Inr ts, u)" "onFileCreatedOrModified_cb L p w =
      (case lookup (files w) wp of
         Some (Regular pm text _) \<Rightarrow>
           if pm AND owner_read = 0 \<or> read_size_t text = None then (Inl (Undefined ''oldHash''), u)
           else if read_size_t text = Some (hash_str s) then (Inr (), u)
           else bnd (broadcast L (content_message p ts s)) (\<lambda>_.
                write_out wp (to_string (unat (hash_str s)))) u
       | Some (Directory _) \<Rightarrow> (Inl (Undefined ''oldHash''), u)
       | None \<Rightarrow> bnd (broadcast L (content_message p ts s)) (\<lambda>_.
                write_out wp (to_string (unat (hash_str s)))) u)"
  have w: "resolve wp = wp" "wp \<noteq> []" "wp \<noteq> p"
    using wnts_of_managed [OF p] wp by (metis option.inject)+
  have rp: "resolve p = p" using p by (simp add: managed_simps)
  have sent: ?thesis
    if b: "bnd (broadcast L (content_message p ts s)) (\<lambda>_.
        write_out wp (to_string (unat (hash_str s)))) u = (Inr (), v)"
      and pm: "write_perms (files w) wp AND owner_read \<noteq> 0"
  proof -
    obtain x where x: "broadcast L (content_message p ts s) u = (Inr (), x)"
      and v: "write_out wp (to_string (unat (hash_str s))) x = (Inr (), v)"
      using b by (auto elim: bnd_okE)
    have "files x = files w" using files_broadcast [of L _ u] x u(1) by (metis snd_conv)
    then obtain t where "files v = AList.update (resolve wp)
        (Regular (write_perms (files w) wp) (to_string (unat (hash_str s))) t) (files w)"
      using v cw by (auto simp: write_out_exec)
    then have lu: "lookup (files v) q = (if resolve q = wp then Some
        (Regular (write_perms (files w) wp) (to_string (unat (hash_str s))) t)
        else lookup (files w) q)" for q
      using lookup_update [of wp] w by simp
    show ?thesis
      using r wp pm w rp by (simp add: readable_def saved_hash_def lu)
  qed
  show ?thesis
  proof (cases "lookup (files w) wp")
    case None
    then show ?thesis using run u sent by (simp add: write_perms_def)
  next
    case (Some n)
    then obtain pm str t where n: "lookup (files w) wp = Some (Regular pm str t)"
      using run u by (cases n) auto
    show ?thesis
    proof (cases "read_size_t str = Some (hash_str s)")
      case True
      then show ?thesis
        using run u r wp n by (auto simp: readable_def saved_hash_def split: if_splits)
    next
      case False
      then show ?thesis
        using run u(4) n sent by (simp add: write_perms_def split: if_splits)
    qed
  qed
qed


text \<open>The message the callback sends for the file \<open>p\<close> with content \<open>s\<close>, last written at \<open>tp\<close>.\<close>

definition announcement :: "lib \<Rightarrow> world \<Rightarrow> path \<Rightarrow> string \<Rightarrow> int \<Rightarrow> any_message" where
  "announcement L w p s tp =
     (let ts = convertTimepoint tp (clock w (ticks w)) (clock w (ticks w + 1));
          m = add_routing (self_ip w) ipv6Unspecified (content_message p ts s);
          t = to_time_t ts (clock w (ticks w + 2)) (clock w (ticks w + 3))
      in set_hash (msg_hash L t m) m)"

lemmas content_defs = content_message_def new_File_def new_Message_def Message.defs FileMessage.defs
  FileContentMessage.defs

lemma announcement_outgoing:
  fixes w p tp s
  defines "u \<equiv> w\<lparr>ticks := ticks w + 2\<rparr>"
    and "m \<equiv> content_message p (convertTimepoint tp (clock w (ticks w)) (clock w (Suc (ticks w)))) s"
  shows "outgoing L (drawn_time m u) u m ipv6Unspecified = announcement L w p s tp"
  by (simp add: announcement_def outgoing_def drawn_time_def m_def u_def Let_def numeral_3_eq_3)
    (simp add: content_defs)

text \<open>Every peer gets a message to everyone, and so does the process itself.\<close>

lemma everyone_hops:
  assumes "self_ip w \<noteq> ipv6Unspecified" and "\<forall>q \<in> set (peers w). remoteIP q \<noteq> ipv6Unspecified"
  shows "hops_of w ipv6Unspecified ipv6Unspecified = \<lparr>to_peers = peers w, to_self = True\<rparr>"
  using assms by (simp add: hops_of_def route_cases forward2all_def is_broadcast_def filter_id_conv)

text \<open>C13: A file whose change was never sent is sent once, with its current content, over the connection to
  every peer (and nothing else goes out, but for one resend request for every peer when the process
  refuses its own message), the message is the newest entry of the message cache, and once the hash
  of the file can be saved the next report of the same file sends nothing more.\<close>

theorem change_is_sent_once:
  fixes L w p s tp
  defines "out \<equiv> announcement L w p s tp"
  assumes "lib_laws L" and "cache_ok w" and "isValid (self_ip w)" and "self_ip w \<noteq> ipv6Unspecified"
    and "\<forall>q \<in> set (peers w). remoteIP q \<noteq> ipv6Unspecified"
    and "managed p" and "path_fits p" and "length s < 2 ^ 64"
    and "lookup (files w) p = Some (Regular pm s tp)" and "pm AND owner_read \<noteq> 0"
    and "time_fits (convertTimepoint tp (clock w (ticks w)) (clock w (Suc (ticks w))))"
    and "wntsPath p = Some wp" and "lookup (files w) wp = None" and "can_write (files w) wp"
  shows "\<exists>v m. onFileCreatedOrModified_cb L p w = (Inr (), v)
    \<and> outbox v = outbox w @ map (\<lambda>q. (socketIP q, save_any L out)) (peers w)
        @ (if passes_check L out (w\<lparr>ticks := ticks w + 4\<rparr>) then []
           else map (\<lambda>q. (socketIP q, save_any L (stamped_resend L (self_ip w) ipv6Unspecified out))) (peers w))
    \<and> out = MContent m \<and> targetFile m = p \<and> fileContent m = s \<and> originatorNode m = self_ip w
    \<and> last (contents (oldMessages v)) = Some out
    \<and> onFileCreatedOrModified_cb L p v = (Inr (), v\<lparr>ticks := ticks v + 2\<rparr>)"
proof -
  let ?ts = "convertTimepoint tp (clock w (ticks w)) (clock w (Suc (ticks w)))"
  have r: "readable w p s" using assms(10,11) by (simp add: readable_def)
  obtain ts u where u: "u = w\<lparr>ticks := ticks w + 2\<rparr>" "write_timestamp p w = (Inr ts, u)"
    and cb: "onFileCreatedOrModified_cb L p w = bnd (broadcast L (content_message p ts s)) (\<lambda>_.
                write_out wp (to_string (unat (hash_str s)))) u"
    by (rule callback_exec [OF r assms(13), of L]) (simp add: assms(14))
  have ts: "ts = ?ts"
    using u(2) assms(10) by (simp add: write_timestamp_def last_write_time_def exec_simps)
  let ?m = "content_message p ts s"
  have s: "cache_ok u" "isValid (self_ip u)"
    using assms(3,4) u(1) by (simp_all add: cache_ok_def)
  have k: "msg_kind ?m = Some contentChange" by (simp add: msg_kind_Some content_defs)
  have f: "fits (add_routing (self_ip u) ipv6Unspecified ?m)"
    using assms(8,9,12) s(2) ts
    by (simp add: content_defs add_routing_def on_base_def Let_def base_fits_def isValid_def)
  have t: "well_typed ?m" using k by (simp add: well_typed_def content_defs)
  have rd: "readings ?m = 2" by (simp add: readings_def content_defs)
  let ?x = "sent_by L ?m ipv6Unspecified filePriority u"
  have x: "broadcast L ?m u = (Inr (), ?x)"
    using sendMessage_exec [OF assms(2) s f t k] by (simp add: broadcast_def wire_priority_def)
  have o: "outgoing L (drawn_time ?m u) u ?m ipv6Unspecified = out"
    using announcement_outgoing [where L = L and w = w and p = p and tp = tp and s = s] ts u(1) by (simp add: out_def)
  have h: "hops_of u ipv6Unspecified ipv6Unspecified = \<lparr>to_peers = peers w, to_self = True\<rparr>"
    using everyone_hops [of u] assms(5,6) u(1) by simp
  have pc: "passes_check L out (u\<lparr>ticks := ticks u + 2\<rparr>) = passes_check L out (w\<lparr>ticks := ticks w + 4\<rparr>)"
    by (rule passes_check_cong) (simp_all add: u(1))
  have xs: "outbox ?x = outbox w @ map (\<lambda>q. (socketIP q, save_any L out)) (peers w)
        @ (if passes_check L out (w\<lparr>ticks := ticks w + 4\<rparr>) then []
           else map (\<lambda>q. (socketIP q, save_any L (stamped_resend L (self_ip w) ipv6Unspecified out))) (peers w))"
    unfolding sent_by_simps(3) [OF s(1), of L ?m ipv6Unspecified filePriority] o h rd pc
    by (simp add: u(1))
  obtain m where m: "out = MContent m" "targetFile m = p" "fileContent m = s" "originatorNode m = self_ip w"
    by (simp add: out_def announcement_def Let_def content_defs set_hash_def add_routing_def on_base_def)
  obtain v where v: "write_out wp (to_string (unat (hash_str s))) ?x = (Inr (), v)"
    "oldMessages v = oldMessages ?x" "outbox v = outbox ?x"
    by (simp add: write_out_exec)
  have run: "onFileCreatedOrModified_cb L p w = (Inr (), v)"
    by (simp add: cb bnd_exec x v(1))
  have "readable v p s \<and> saved_hash v p (hash_str s)"
    by (rule saved_after_callback [OF assms(7) r assms(13,15) run])
  then have "onFileCreatedOrModified_cb L p v = (Inr (), v\<lparr>ticks := ticks v + 2\<rparr>)"
    using silent_if_saved [of v p s L] by blast
  then show ?thesis
    using run v(2,3) xs sent_by_simps(2) [OF s(1), of L ?m ipv6Unspecified filePriority] m by (simp add: o)
qed

text \<open>The process 9 has the file \<open>d/f\<close> and the peer 7; its clock stands still, so it refuses its own message.\<close>

theorem change_is_sent_once_witness:
  "let w = kept_world\<lparr>peers := [new_peer (IPv6 7) 1]\<rparr>; out = announcement raw_lib w [''d'', ''f''] ''old'' 0
   in \<exists>v. onFileCreatedOrModified_cb raw_lib [''d'', ''f''] w = (Inr (), v)
    \<and> take 1 (outbox v) = [(IPv6 7, save_any raw_lib out)]
    \<and> last (contents (oldMessages v)) = Some out
    \<and> onFileCreatedOrModified_cb raw_lib [''d'', ''f''] v = (Inr (), v\<lparr>ticks := ticks v + 2\<rparr>)"
proof -
  let ?w = "kept_world\<lparr>peers := [new_peer (IPv6 7) 1]\<rparr>"
  have c: "cache_ok ?w"
    using cache_ok_sample by (simp add: kept_world_def cache_ok_def)
  have n: "lexically_normal [''d'', ''f''] = [''d'', ''f'']" by (simp add: lexically_normal_def)
  have wp: "wntsPath [''d'', ''f''] = Some [''d'', ''.wnts'', ''f'']" by code_simp
  have ps: "\<forall>q \<in> set (peers ?w). remoteIP q \<noteq> ipv6Unspecified" by simp
  have "outbox ?w = []" "peers ?w = [new_peer (IPv6 7) 1]" by (simp_all add: kept_world_def)
  moreover obtain v m where "onFileCreatedOrModified_cb raw_lib [''d'', ''f''] ?w = (Inr (), v)
    \<and> outbox v = outbox ?w @ map (\<lambda>q. (socketIP q, save_any raw_lib (announcement raw_lib ?w [''d'', ''f''] ''old'' 0))) (peers ?w)
        @ (if passes_check raw_lib (announcement raw_lib ?w [''d'', ''f''] ''old'' 0) (?w\<lparr>ticks := ticks ?w + 4\<rparr>) then []
           else map (\<lambda>q. (socketIP q, save_any raw_lib (stamped_resend raw_lib (self_ip ?w) ipv6Unspecified
             (announcement raw_lib ?w [''d'', ''f''] ''old'' 0)))) (peers ?w))
    \<and> announcement raw_lib ?w [''d'', ''f''] ''old'' 0 = MContent m \<and> targetFile m = [''d'', ''f'']
    \<and> fileContent m = ''old'' \<and> originatorNode m = self_ip ?w
    \<and> last (contents (oldMessages v)) = Some (announcement raw_lib ?w [''d'', ''f''] ''old'' 0)
    \<and> onFileCreatedOrModified_cb raw_lib [''d'', ''f''] v = (Inr (), v\<lparr>ticks := ticks v + 2\<rparr>)"
    using change_is_sent_once [OF raw.lib_laws_axioms c _ _ ps managed_d_f(1) _ _ _ _ _ wp,
          where pm = "0x1A4" and tp = "0" and s = "''old''"]
    by (simp_all add: kept_world_def isValid_def path_fits_def n name_ok_def lookup_def entry_def
        resolve_def time_fits_def sys_to_time_t_def convertTimepoint_def tdiv_def can_write_def
        has_filename_def parent_writable_def writable_dir_def) blast
  ultimately show ?thesis by (auto simp: Let_def)
qed

text \<open>A change that leaves the sum of the bytes as it was, such as exchanging two characters, has
  the saved hash and is never sent.\<close>

lemma reordered_content_is_not_sent:
  assumes "saved_hash w p (hash_str s)" and "readable w p s'" and "mset s' = mset s"
  shows "onFileCreatedOrModified_cb L p w = (Inr (), w\<lparr>ticks := ticks w + 2\<rparr>)"
  using silent_if_saved [OF assms(2)] assms(1) hash_str_mset [OF assms(3)] by simp


section \<open>Joining through a node that does not answer\<close>

text \<open>When the node named on the command line does not answer, the error of the last attempt leaves
  the start of the process unhandled: the handler there catches \<open>ZTError\<close>, not the
  \<open>std::runtime_error\<close> that is thrown, so the usage is not shown, whatever showing it would do.\<close>

lemma failed_first_connection_escapes:
  assumes "isValid remote" and "\<forall>i. \<not> dials w remote port i"
  shows "join_network usage grow remote port w
    = (Inl (RuntimeError ''Failed to connect''), w\<lparr>ticks := ticks w + 3\<rparr>)"
  using assms connect_down [of w "(remote, port)"]
  by (simp add: join_network_def catch_exec bnd_exec down_def throw_exec)


end
