(* ===== verification/Changes.thy ===== *)
theory Changes
  imports Handlers
begin

text \<open>
  What the handlers of \<open>Handlers\<close> do to the files: content changes and deletions with and without
  locks, and the initial synchronisation.
\<close>

section \<open>Executing the file handlers\<close>

lemma check_lock_exec:
  assumes "managed p"
  shows "check_lock L p ip w =
    (if map_of (files w) (the_lock_path p) = None then (Inr (Some perms_none), w)
     else case held_lock L p (files w) of
       None \<Rightarrow> (Inl CerealException, w)
     | Some (lk, pm) \<Rightarrow>
         (Inr (if originatorNode lk \<noteq> self_ip w then None
               else if originatorNode lk \<noteq> ip then Some perms_none else Some pm), w))"
  using assms
  by (auto simp: check_lock_def the_lockFilePath_def the_lock_path(1) exec_simps fs_simps
      lookup_lock loadLockFile_exec split: option.split)

text \<open>The permissions to add, where the check allows the change.\<close>

definition allowed :: "lib \<Rightarrow> path \<Rightarrow> ip_address \<Rightarrow> world \<Rightarrow> perms option" where
  "allowed L p ip w =
     (if map_of (files w) (the_lock_path p) = None then Some perms_none
      else case held_lock L p (files w) of
        None \<Rightarrow> None
      | Some (lk, pm) \<Rightarrow>
          if originatorNode lk \<noteq> self_ip w then None
          else if originatorNode lk \<noteq> ip then Some perms_none else Some pm)"

lemma check_lock_allowed:
  "managed p \<Longrightarrow> allowed L p ip w = Some pm \<Longrightarrow> check_lock L p ip w = (Inr (Some pm), w)"
  by (auto simp: check_lock_exec allowed_def split: if_splits option.splits)

section \<open>Changes under a foreign lock\<close>

lemma foreign_lock_blocks:
  assumes "isFinishedConnecting w" and "managed p" and "holder L p w = Some lk"
    and "originatorNode lk \<noteq> self_ip w"
  shows "targetFile c = p \<Longrightarrow> processContentFileMessage L c w = (Inr True, w)"
    and "targetFile d = p \<Longrightarrow> processDeleteFileMessage L d w = (Inr True, w)"
proof -
  obtain pm where h: "held_lock L p (files w) = Some (lk, pm)"
    using assms(3) by (auto simp: holder_def)
  then have "map_of (files w) (the_lock_path p) \<noteq> None"
    by (auto simp: held_lock_def split: option.splits)
  then have "check_lock L p ip w = (Inr None, w)" for ip
    using assms(2,4) h by (simp add: check_lock_exec)
  then show "targetFile c = p \<Longrightarrow> processContentFileMessage L c w = (Inr True, w)"
    "targetFile d = p \<Longrightarrow> processDeleteFileMessage L d w = (Inr True, w)"
    using assms(1)
    by (simp_all add: processContentFileMessage_def processDeleteFileMessage_def bnd_exec
        finishedConnecting_exec ret_exec)
qed

text \<open>C24: While another node holds the lock of a file, no content change and no deletion of that file
  has any effect, whoever it comes from: the message is consumed and the process state is the same
  as before.  This includes the changes of the lock's holder itself.\<close>

theorem foreign_lock_blocks_every_change:
  assumes "isFinishedConnecting w" and "managed (targetFile c)"
    and "holder L (targetFile c) w = Some lk" and "originatorNode lk \<noteq> self_ip w"
    and "targetFile d = targetFile c"
  shows "processContentFileMessage L c w = (Inr True, w)
    \<and> processDeleteFileMessage L d w = (Inr True, w)"
  using foreign_lock_blocks [OF assms(1-4)] assms(5) by simp

definition content_msg :: "ip_address \<Rightarrow> string \<Rightarrow> FileContentMessage" where
  "content_msg owner s =
     FileMessage.extend (file_msg contentChange owner 0) (FileContentMessage.fields s)"

lemma content_msg_simps [simp]:
  "targetFile (content_msg owner s) = [''d'', ''f'']" "fileContent (content_msg owner s) = s"
  "originatorNode (content_msg owner s) = owner"
  by (simp_all add: content_msg_def FileMessage.defs FileContentMessage.defs file_msg_def)

text \<open>The node 7 locks \<open>d/f\<close> and then changes it: the change is dropped.\<close>

theorem foreign_lock_blocks_every_change_witness:
  "\<exists>w. process_locks raw_lib [file_msg lock (IPv6 7) 5000000000] kept_world = (Inr (), w)
    \<and> processContentFileMessage raw_lib (content_msg (IPv6 7) ''new'') w = (Inr True, w)
    \<and> processDeleteFileMessage raw_lib (file_msg deleteFile (IPv6 7) 0) w = (Inr True, w)"
proof -
  have "\<exists>w. process_locks raw_lib [file_msg lock (IPv6 7) 5000000000] kept_world = (Inr (), w)
      \<and> lockable raw_lib [''d'', ''f''] w \<and> self_ip w = IPv6 9
      \<and> holder raw_lib [''d'', ''f''] w = Some (file_msg lock (IPv6 7) 5000000000)"
  proof -
    obtain t where t: "processLockMessage raw_lib (file_msg lock (IPv6 7) 5000000000) kept_world
      = (Inr True, kept_world\<lparr>ticks := ticks kept_world + 2, files := saved_lock raw_lib t [''d'', ''f'']
        (file_msg lock (IPv6 7) 5000000000,
          perms_of (locked_file (IPv6 9) (IPv6 7) [''d'', ''f''] (files kept_world)) [''d'', ''f'']
            AND writePerms)
        (locked_file (IPv6 9) (IPv6 7) [''d'', ''f''] (files kept_world))\<rparr>)"
      using processLock_free [of raw_lib "file_msg lock (IPv6 7) 5000000000" kept_world]
        lockable_kept kept_free
      by (auto simp: kept_world_def managed_d_f)
    obtain w where w: "process_locks raw_lib [file_msg lock (IPv6 7) 5000000000] kept_world = (Inr (), w)"
      "lockable raw_lib [''d'', ''f''] w"
      "holder raw_lib [''d'', ''f''] w = Some (file_msg lock (IPv6 7) 5000000000)"
      using kept_locked by blast
    have "self_ip w = IPv6 9"
      using w(1) t kept_free by (auto simp: process_locks_def exec_simps)
    with w show ?thesis by blast
  qed
  then obtain w where w: "process_locks raw_lib [file_msg lock (IPv6 7) 5000000000] kept_world = (Inr (), w)"
    "lockable raw_lib [''d'', ''f''] w" "self_ip w = IPv6 9"
    "holder raw_lib [''d'', ''f''] w = Some (file_msg lock (IPv6 7) 5000000000)"
    by blast
  have "isFinishedConnecting w" "managed [''d'', ''f'']"
    using w(2) by (simp_all add: lockable_def)
  then show ?thesis
    using foreign_lock_blocks_every_change [of w "content_msg (IPv6 7) ''new''" raw_lib
        "file_msg lock (IPv6 7) 5000000000" "file_msg deleteFile (IPv6 7) 0"] w
    by auto
qed

section \<open>Changes to files that are not there\<close>

text \<open>A content change or a deletion of a file that does not exist at the receiver throws: adding
  permissions to a missing file is an error.  A new file of one node is never created at another,
  and the process that deleted a file fails on its own deletion message.\<close>

lemma change_of_a_missing_file_throws:
  assumes "isFinishedConnecting w" and "managed p"
    and "map_of (files w) p = None" and "map_of (files w) (the_lock_path p) = None"
  shows "targetFile c = p \<Longrightarrow> processContentFileMessage L c w = (Inl (FilesystemError ENOENT p), w)"
    and "targetFile d = p \<Longrightarrow> processDeleteFileMessage L d w = (Inl (FilesystemError ENOENT p), w)"
  using assms
  by (simp_all add: processContentFileMessage_def processDeleteFileMessage_def bnd_exec
      finishedConnecting_exec check_lock_exec on_files_exec fs_simps managed_simps)

section \<open>Applying a content change\<close>

lemma managed_folder:
  assumes "managed p"
  shows "has_filename p" "remove_filename p \<noteq> []" "resolve (remove_filename p) = butlast p"
proof -
  have fp: "file_path p" and r: "resolve p = p" using assms by (simp_all add: managed_def)
  from fp obtain e es f where p: "p = e # es @ [f]" and f: "name_ok f"
    and es: "\<forall>x \<in> set es. name_ok x"
    by (rule file_path_split)
  show hf: "has_filename p" using p f by (auto simp: has_filename_def)
  have "resolve (butlast p) = butlast p" by (metis r resolve_butlast)
  moreover have "butlast p \<noteq> []" using p by (simp add: butlast_append)
  ultimately show "remove_filename p \<noteq> []" "resolve (remove_filename p) = butlast p"
    using hf by (auto simp: remove_filename_def Let_def resolve_def)
qed

text \<open>What a content change makes of the file.\<close>

definition changed_file :: "perms \<Rightarrow> node \<Rightarrow> string \<Rightarrow> int \<Rightarrow> node" where
  "changed_file pm n s t =
     Regular (new_perms pm Remove (new_perms pm Add (node_perms n))) s t"

lemma processContent_exec:
  assumes "isFinishedConnecting w" and p: "managed (targetFile c)"
    and al: "allowed L (targetFile c) (originatorNode c) w = Some pm"
    and n: "map_of (files w) (targetFile c) = Some n" "\<not> is_Directory n"
    and dir: "folder_there (files w) (butlast (targetFile c))"
    and wr: "new_perms pm Add (node_perms n) AND owner_write \<noteq> 0"
  shows "\<exists>fs. processContentFileMessage L c w = (Inr True, w\<lparr>ticks := Suc (ticks w), files := fs\<rparr>)
    \<and> (\<forall>q. map_of fs q = (if q = targetFile c
          then Some (changed_file pm n (fileContent c) (clock w (ticks w))) else map_of (files w) q))
    \<and> (locks_usable (files w) \<longrightarrow> locks_usable fs)"
proof -
  let ?p = "targetFile c"
  obtain x s u where nr: "n = Regular x s u" using n(2) by (cases n) auto
  let ?fs1 = "AList.update ?p (Regular (new_perms pm Add x) s u) (files w)"
  let ?fs2 = "AList.update ?p (Regular (new_perms pm Add x) (fileContent c) (clock w (ticks w))) ?fs1"
  let ?fs3 = "AList.update ?p (changed_file pm n (fileContent c) (clock w (ticks w))) ?fs2"
  note mp = managed_simps [OF p]
  have nd: "no_dir (files w) ?p" using n nr mp(1) by (simp add: no_dir_def)
  have cd: "create_directories (remove_filename ?p) ?fs1 = (Inr (), ?fs1)"
    by (rule create_directories_there)
      (use managed_folder [OF p] dir nd in \<open>simp_all add: folder_there_update\<close>)
  have "can_write ?fs1 ?p" "write_perms ?fs1 ?p = new_perms pm Add x"
    using wr nr managed_folder(1) [OF p] mp
    by (simp_all add: can_write_def write_perms_def update_conv')
  then have wo: "write_out ?p (fileContent c) (w\<lparr>files := ?fs1\<rparr>)
      = (Inr (), w\<lparr>ticks := Suc (ticks w), files := ?fs2\<rparr>)"
    using mp by (simp add: exec_simps)
  have "processContentFileMessage L c w = (Inr True, w\<lparr>ticks := Suc (ticks w), files := ?fs3\<rparr>)"
    using assms(1) n nr mp cd wo
    by (simp add: processContentFileMessage_def bnd_exec finishedConnecting_exec
        check_lock_allowed [OF p al] on_files_exec permissions_exec ret_exec update_conv'
        changed_file_def)
  moreover have "locks_usable (files w) \<longrightarrow> locks_usable ?fs3"
    using p by (auto simp: managed_def intro!: locks_usable_update)
  ultimately show ?thesis
    by (intro exI [of _ ?fs3] conjI allI) (auto simp: update_conv')
qed

text \<open>C22: On an unlocked file that is there and writable, a content change sets the file's content to
  the message's, keeps its permissions, and leaves every other file as it was.\<close>

theorem content_change_is_applied:
  assumes "isFinishedConnecting w" and "managed (targetFile c)"
    and "map_of (files w) (the_lock_path (targetFile c)) = None"
    and "map_of (files w) (targetFile c) = Some (Regular pm old u)" and "pm AND owner_write \<noteq> 0"
    and "folder_there (files w) (butlast (targetFile c))"
  shows "\<exists>w' t. processContentFileMessage L c w = (Inr True, w')
    \<and> (\<forall>q. map_of (files w') q = (if q = targetFile c then Some (Regular pm (fileContent c) t)
          else map_of (files w) q))"
proof -
  have "allowed L (targetFile c) (originatorNode c) w = Some perms_none"
    using assms(3) by (simp add: allowed_def)
  from processContent_exec [OF assms(1,2) this assms(4) _ assms(6)] assms(5)
  show ?thesis by (auto simp: changed_file_def)
qed

theorem content_change_is_applied_witness:
  "\<exists>w' t. processContentFileMessage raw_lib (content_msg (IPv6 7) ''new'') kept_world = (Inr True, w')
    \<and> map_of (files w') [''d'', ''f''] = Some (Regular 0x1A4 ''new'' t)
    \<and> map_of (files w') [''d''] = Some (Directory 0x1ED)"
proof -
  have "isFinishedConnecting kept_world" "managed [''d'', ''f'']"
    "map_of (files kept_world) (the_lock_path [''d'', ''f'']) = None"
    "map_of (files kept_world) [''d'', ''f''] = Some (Regular 0x1A4 ''old'' 0)"
    "folder_there (files kept_world) (butlast [''d'', ''f''])"
    by (simp_all add: managed_d_f kept_world_def isFinishedConnecting_def folder_there_def entry_def)
  then obtain w' t where w': "processContentFileMessage raw_lib (content_msg (IPv6 7) ''new'') kept_world
      = (Inr True, w')"
    "\<forall>q. map_of (files w') q = (if q = [''d'', ''f''] then Some (Regular 0x1A4 ''new'' t)
          else map_of (files kept_world) q)"
    using content_change_is_applied [of kept_world "content_msg (IPv6 7) ''new''" "0x1A4" "''old''" 0
        raw_lib]
    by auto
  moreover have "map_of (files kept_world) [''d''] = Some (Directory 0x1ED)"
    by (simp add: kept_world_def)
  ultimately show ?thesis by (intro exI [of _ w'] exI [of _ t]) simp
qed

section \<open>A change by the holder of the lock\<close>

lemma lock_perms_cycle:
  fixes old :: perms
  defines "pm \<equiv> old AND writePerms"
  shows "new_perms pm Add old = old" "new_perms pm Remove old AND writePerms = 0"
    "new_perms pm Add (new_perms pm Remove old) = old"
proof -
  have "pm AND perms_mask = pm" by (simp add: pm_def writePerms_def and.assoc)
  then have np: "new_perms pm Add x = pm OR x" "new_perms pm Remove x = x AND NOT pm" for x
    by (simp_all add: new_perms_def)
  show "new_perms pm Add old = old" "new_perms pm Remove old AND writePerms = 0"
    "new_perms pm Add (new_perms pm Remove old) = old"
    unfolding np by (rule bit_word_eqI; auto simp: pm_def bit_simps)+
qed

text \<open>C23: When a process takes the lock of its own file, announces a change of it and then unlocks it,
  all three messages are processed, the file ends up with the new content, its old permissions and
  no lock; but in between, from its own change message on, the file is read-only for the process
  that holds the lock.\<close>

theorem own_lock_cycle:
  assumes L: "lib_laws L" and w: "lockable L p w" and h: "holder L p w = None"
    and m: "lock_request p m" and c: "targetFile c = p" and u: "targetFile u = p"
    and o: "originatorNode m = self_ip w" "originatorNode c = self_ip w"
      "originatorNode u = self_ip w"
    and n: "map_of (files w) p = Some (Regular old s tm)" and wr: "old AND owner_write \<noteq> 0"
    and dir: "folder_there (files w) (butlast p)"
  shows "\<exists>w1 w2 w3 t. processLockMessage L m w = (Inr True, w1)
    \<and> processContentFileMessage L c w1 = (Inr True, w2)
    \<and> perms_of (files w2) p AND writePerms = 0
    \<and> processUnlockMessage L u w2 = (Inr True, w3)
    \<and> map_of (files w3) p = Some (Regular old (fileContent c) t)
    \<and> map_of (files w3) (the_lock_path p) = None"
proof -
  have p: "managed p" and pl: "lock_place (files w) p" "is_file (files w) p" and tm: "targetFile m = p"
    and fin: "isFinishedConnecting w"
    using w m by (simp_all add: lockable_def lock_request_def)
  have free: "map_of (files w) (the_lock_path p) = None"
    using w h by (auto simp: lockable_def holder_def)
  have ne: "p \<noteq> the_lock_path p" using lock_path_not_managed [OF p p] by auto
  have same: "locked_file (self_ip w) (originatorNode m) p (files w) = files w"
    using o n by (simp add: locked_file_def)
  let ?pm = "old AND writePerms"
  obtain t1 where t1: "processLockMessage L m w = (Inr True, w\<lparr>ticks := ticks w + 2,
      files := saved_lock L t1 p (m, ?pm) (files w)\<rparr>)"
    using processLock_free [of L m w] w free tm same n by (auto simp: perms_of_def)
  define w1 where "w1 = w\<lparr>ticks := ticks w + 2, files := saved_lock L t1 p (m, ?pm) (files w)\<rparr>"
  have l1: "lockable L p w1" and h1: "held_lock L p (files w1) = Some (m, ?pm)"
    unfolding w1_def using lockable_saved [OF L m w pl] by simp_all
  have f1: "map_of (files w1) p = Some (Regular old s tm)"
    "isFinishedConnecting w1" "self_ip w1 = self_ip w"
    using n ne p fin by (simp_all add: w1_def map_of_saved_other isFinishedConnecting_def)
  obtain k where k: "map_of (files w1) (the_lock_path p) = Some k"
    using h1 by (auto simp: held_lock_def split: option.splits)
  have al: "allowed L p (self_ip w) w1 = Some ?pm"
    using h1 k o f1 by (simp add: allowed_def)
  have "folder_there (files w1) (butlast p)"
    using dir p pl by (auto simp: w1_def saved_lock_def lock_place_def
        intro!: folder_there_update no_dir_lock)
  then obtain fs where fs: "processContentFileMessage L c w1
      = (Inr True, w1\<lparr>ticks := Suc (ticks w1), files := fs\<rparr>)"
    "\<forall>q. map_of fs q = (if q = p then Some (changed_file ?pm (Regular old s tm) (fileContent c)
        (clock w1 (ticks w1))) else map_of (files w1) q)"
    "locks_usable (files w1) \<longrightarrow> locks_usable fs"
    using processContent_exec [OF f1(2), of c L ?pm "Regular old s tm"] p al c o f1 wr
    by (auto simp: lock_perms_cycle)
  define w2 where "w2 = w1\<lparr>ticks := Suc (ticks w1), files := fs\<rparr>"
  have c2: "map_of (files w2) p = Some (Regular (new_perms ?pm Remove old) (fileContent c) (clock w1 (ticks w1)))"
    using fs(2) by (simp add: w2_def changed_file_def lock_perms_cycle)
  have ro: "perms_of (files w2) p AND writePerms = 0"
    using c2 by (simp add: perms_of_def lock_perms_cycle)
  have other: "q \<noteq> p \<Longrightarrow> map_of (files w2) q = map_of (files w1) q" for q
    using fs(2) by (simp add: w2_def)
  have en: "entry (files w1) q = Some (Directory d) \<Longrightarrow> entry (files w2) q = Some (Directory d)" for q d
    using other f1(1) by (cases "q = p") (auto simp: entry_def)
  have l2: "lockable L p w2"
  proof -
    have "folder_there (files w2) (butlast (the_lock_path p))"
      using l1 en unfolding lockable_def lock_place_def folder_there_iff by blast
    moreover have "writable_dir (files w2) (butlast (the_lock_path p))"
      using l1 en by (auto simp: lockable_def lock_place_def writable_dir_def
          split: option.splits node.splits)
    ultimately show ?thesis
      using l1 fs(3) c2 ne other [of "the_lock_path p"] h1
      by (simp add: lockable_def lock_place_def is_file_iff w2_def held_lock_def
          isFinishedConnecting_def)
  qed
  have h2: "held_lock L p (files w2) = Some (m, ?pm)"
    using h1 other [of "the_lock_path p"] ne by (simp add: held_lock_def)
  define w3 where "w3 = w2\<lparr>files := dropped_lock p (unlocked_file p ?pm (files w2))\<rparr>"
  have "processUnlockMessage L u w2 = (Inr True, w3)"
    using processUnlock_held [of L u w2 m ?pm] l2 h2 u o ro by (simp add: w3_def)
  moreover have "map_of (files w3) p = Some (Regular old (fileContent c) (clock w1 (ticks w1)))"
    "map_of (files w3) (the_lock_path p) = None"
    using c2 ne by (simp_all add: w3_def dropped_lock_def delete_conv' unlocked_file_def update_conv'
        lock_perms_cycle)
  ultimately show ?thesis
    using t1 fs(1) ro unfolding w1_def [symmetric] w2_def [symmetric] by blast
qed


theorem own_lock_cycle_witness:
  "\<exists>w1 w2 w3 t. processLockMessage raw_lib (file_msg lock (IPv6 9) 5000000000) kept_world = (Inr True, w1)
    \<and> processContentFileMessage raw_lib (content_msg (IPv6 9) ''new'') w1 = (Inr True, w2)
    \<and> perms_of (files w2) [''d'', ''f''] AND writePerms = 0
    \<and> processUnlockMessage raw_lib (file_msg unlock (IPv6 9) 0) w2 = (Inr True, w3)
    \<and> map_of (files w3) [''d'', ''f''] = Some (Regular 0x1A4 ''new'' t)
    \<and> map_of (files w3) [''d'', ''.wnts'', ''.lock.f''] = None"
proof -
  have n: "map_of (files kept_world) [''d'', ''f''] = Some (Regular 0x1A4 ''old'' 0)"
    and dir: "folder_there (files kept_world) (butlast [''d'', ''f''])"
    by (simp_all add: kept_world_def folder_there_def entry_def)
  show ?thesis
    using own_lock_cycle [OF raw.lib_laws_axioms lockable_kept kept_free(1) sample_requests(2)
        _ _ _ _ _ n _ dir, of "content_msg (IPv6 9) ''new''" "file_msg unlock (IPv6 9) 0" lock]
    by (simp add: kept_free managed_d_f)
qed

section \<open>The initial synchronisation\<close>

text \<open>A sequence of synchronisation messages, as a joining process handles them.\<close>

definition process_syncs :: "FileInitialSyncMessage list \<Rightarrow> (world, unit) prog" where
  "process_syncs = for_each (\<lambda>m. bnd (processInitialFileSyncMessage m) (\<lambda>_. ret ()))"

text \<open>A file that can be written where it belongs.\<close>

definition receivable :: "filesystem \<Rightarrow> path \<Rightarrow> bool" where
  "receivable fs p \<longleftrightarrow> managed p \<and> no_dir fs p \<and> can_write fs p \<and> folder_there fs (butlast p)"

lemma processSync_exec:
  assumes "receivable (files w) (targetFile m)"
  shows "processInitialFileSyncMessage m w = (Inr True, w\<lparr>totalInitialFiles := total m,
     receivedInitialFiles := receivedInitialFiles w + 1, ticks := Suc (ticks w),
     files := AList.update (targetFile m) (Regular (write_perms (files w) (targetFile m))
       (fileContent m) (clock w (ticks w))) (files w)\<rparr>)"
proof -
  have p: "managed (targetFile m)" using assms by (simp add: receivable_def)
  have "create_directories (remove_filename (targetFile m)) (files w) = (Inr (), files w)"
    by (rule create_directories_there)
      (use assms managed_folder [OF p] in \<open>simp_all add: receivable_def\<close>)
  then show ?thesis
    using assms managed_simps [OF p]
    by (simp add: processInitialFileSyncMessage_def exec_simps receivable_def)
qed

lemma can_write_other:
  assumes "managed p" and "managed q" and "no_dir fs q" and "p \<noteq> q" and "can_write fs p"
  shows "can_write (AList.update q n fs) p"
proof -
  have "writable_dir fs (butlast p) \<Longrightarrow> writable_dir (AList.update q n fs) (butlast p)"
    using assms(3) by (rule writable_dir_update [rotated])
  then show ?thesis
    using assms managed_simps [OF assms(1)]
    by (auto simp: can_write_def update_conv' parent_writable_def split: option.splits node.splits)
qed

lemma receivable_other:
  assumes "receivable fs p" and "receivable fs q"
  shows "receivable (AList.update q (Regular pm s t) fs) p \<or> p = q"
proof (cases "p = q")
  case False
  have nq: "no_dir fs q" and mp: "managed p" "managed q" using assms by (simp_all add: receivable_def)
  have "no_dir (AList.update q (Regular pm s t) fs) p"
    using assms False by (simp add: receivable_def no_dir_def update_conv')
  then show ?thesis
    using assms False nq mp can_write_other [OF mp nq False]
    by (simp add: receivable_def folder_there_update)
qed simp


lemma process_syncs_exec:
  "\<forall>m \<in> set ms. receivable (files w) (targetFile m) \<Longrightarrow> distinct (map targetFile ms) \<Longrightarrow>
    \<exists>w'. process_syncs ms w = (Inr (), w')
      \<and> receivedInitialFiles w' = receivedInitialFiles w + of_nat (length ms)
      \<and> totalInitialFiles w' = (if ms = [] then totalInitialFiles w else total (last ms))
      \<and> (\<forall>m \<in> set ms. \<exists>pm t. map_of (files w') (targetFile m) = Some (Regular pm (fileContent m) t))
      \<and> (\<forall>q. q \<notin> targetFile ` set ms \<longrightarrow> map_of (files w') q = map_of (files w) q)"
proof (induction ms arbitrary: w)
  case Nil
  then show ?case by (simp add: process_syncs_def exec_simps)
next
  case (Cons m ms)
  define w1 where "w1 = w\<lparr>totalInitialFiles := total m,
     receivedInitialFiles := receivedInitialFiles w + 1, ticks := Suc (ticks w),
     files := AList.update (targetFile m) (Regular (write_perms (files w) (targetFile m))
       (fileContent m) (clock w (ticks w))) (files w)\<rparr>"
  have m: "receivable (files w) (targetFile m)" using Cons.prems(1) by simp
  have step: "processInitialFileSyncMessage m w = (Inr True, w1)"
    unfolding w1_def using m by (rule processSync_exec)
  have "receivable (files w1) (targetFile x)" if x: "x \<in> set ms" for x
  proof -
    have rx: "receivable (files w) (targetFile x)" using Cons.prems(1) x by simp
    have "targetFile x \<noteq> targetFile m" using Cons.prems(2) x by (auto simp: image_iff)
    then show ?thesis using receivable_other [OF rx m] by (simp add: w1_def)
  qed
  then obtain w' where w': "process_syncs ms w1 = (Inr (), w')"
    "receivedInitialFiles w' = receivedInitialFiles w1 + of_nat (length ms)"
    "totalInitialFiles w' = (if ms = [] then totalInitialFiles w1 else total (last ms))"
    "\<forall>m \<in> set ms. \<exists>pm t. map_of (files w') (targetFile m) = Some (Regular pm (fileContent m) t)"
    "\<forall>q. q \<notin> targetFile ` set ms \<longrightarrow> map_of (files w') q = map_of (files w1) q"
    using Cons.IH [of w1] Cons.prems(2) by auto
  have "process_syncs (m # ms) w = (Inr (), w')"
    using step w'(1) by (simp add: process_syncs_def exec_simps)
  moreover have "map_of (files w1) (targetFile m)
      = Some (Regular (write_perms (files w) (targetFile m)) (fileContent m) (clock w (ticks w)))"
    by (simp add: w1_def update_conv')
  then have "\<exists>pm t. map_of (files w') (targetFile m) = Some (Regular pm (fileContent m) t)"
    using w'(5) Cons.prems(2) by auto
  moreover have "map_of (files w') q = map_of (files w) q" if "q \<notin> targetFile ` set (m # ms)" for q
    using w'(5) that by (simp add: w1_def update_conv')
  ultimately show ?case
    using w' by (intro exI [of _ w']) (simp add: w1_def)
qed

lemma process_syncs_finish:
  assumes "receivedInitialFiles w = 0" and "ms \<noteq> []" and "distinct (map targetFile ms)"
    and "\<forall>m \<in> set ms. total m = of_nat (length ms) \<and> receivable (files w) (targetFile m)"
  shows "\<exists>w'. process_syncs ms w = (Inr (), w') \<and> isFinishedConnecting w'
    \<and> (\<forall>m \<in> set ms. \<exists>pm t. map_of (files w') (targetFile m) = Some (Regular pm (fileContent m) t))"
proof -
  obtain w' where w': "process_syncs ms w = (Inr (), w')"
    "receivedInitialFiles w' = of_nat (length ms)" "totalInitialFiles w' = total (last ms)"
    "\<forall>m \<in> set ms. \<exists>pm t. map_of (files w') (targetFile m) = Some (Regular pm (fileContent m) t)"
    using process_syncs_exec [of ms w] assms by auto
  have "total (last ms) = of_nat (length ms)" using assms(2,4) by simp
  then show ?thesis using w' by (auto simp: isFinishedConnecting_def)
qed

text \<open>A joining process that handles one synchronisation message for each of the files of the
  network, in any order, has finished connecting after the last of them and not before, and then
  holds every file with the content that was sent.\<close>

lemma initial_sync_completes:
  assumes "receivedInitialFiles w = 0" and "totalInitialFiles w = 1" and "ms \<noteq> []"
    and "length ms < 2 ^ 64" and "distinct (map targetFile ms)"
    and "\<forall>m \<in> set ms. total m = of_nat (length ms) \<and> receivable (files w) (targetFile m)"
  shows "\<exists>w'. process_syncs ms w = (Inr (), w') \<and> isFinishedConnecting w'
    \<and> (\<forall>m \<in> set ms. \<exists>pm t. map_of (files w') (targetFile m) = Some (Regular pm (fileContent m) t))
    \<and> (\<forall>k. k < length ms \<longrightarrow>
          (\<exists>v. process_syncs (take k ms) w = (Inr (), v) \<and> \<not> isFinishedConnecting v))"
proof -
  obtain w' where w': "process_syncs ms w = (Inr (), w')" "isFinishedConnecting w'"
    "\<forall>m \<in> set ms. \<exists>pm t. map_of (files w') (targetFile m) = Some (Regular pm (fileContent m) t)"
    using process_syncs_finish [OF assms(1,3,5,6)] by blast
  have "\<exists>v. process_syncs (take k ms) w = (Inr (), v) \<and> \<not> isFinishedConnecting v"
    if k: "k < length ms" for k
  proof -
    have sub: "\<forall>m \<in> set (take k ms). receivable (files w) (targetFile m)"
      using assms(6) set_take_subset [of k ms] by blast
    have "distinct (map targetFile (take k ms))"
      using assms(5) by (simp add: take_map [symmetric])
    then obtain v where v: "process_syncs (take k ms) w = (Inr (), v)"
      "receivedInitialFiles v = of_nat k"
      "totalInitialFiles v = (if take k ms = [] then 1 else total (last (take k ms)))"
      using process_syncs_exec [OF sub] assms(1,2) k by auto
    have "\<not> isFinishedConnecting v"
    proof (cases "take k ms = []")
      case True
      then have "k = 0" using k assms(3) by simp
      then show ?thesis using v True by (simp add: isFinishedConnecting_def)
    next
      case False
      then have "last (take k ms) \<in> set ms"
        using set_take_subset [of k ms] last_in_set [OF False] by blast
      then have "totalInitialFiles v = of_nat (length ms)" using v False assms(6) by simp
      moreover have "(of_nat k :: size_t) \<noteq> of_nat (length ms)"
      proof
        assume "(of_nat k :: size_t) = of_nat (length ms)"
        then have "unat (of_nat k :: size_t) = unat (of_nat (length ms) :: size_t)" by simp
        then show False using k assms(4) by (simp add: unat_of_nat)
      qed
      ultimately show ?thesis using v by (simp add: isFinishedConnecting_def)
    qed
    with v show ?thesis by blast
  qed
  with w' show ?thesis by blast
qed


end
