(* ===== verification/Replication.thy ===== *)
theory Replication
  imports Cluster Program Changes
begin

text \<open>
  The purpose of the program, end to end: a file that changes at one node gets the new content at
  every other node.  The change is found by the sweeper's callback (\<open>src/src/main.cpp\<close>), broadcast
  (\<open>src/src/peer_manager.hpp\<close>), carried from node to node (\<open>src/src/peer.cpp\<close>), queued, and applied
  (\<open>src/src/message_manager.cpp\<close>).
\<close>

section \<open>The announcement of a change\<close>

text \<open>The content was never sent: no hash, or another one, is saved for the file.\<close>

definition unsent :: "world \<Rightarrow> path \<Rightarrow> string \<Rightarrow> bool" where
  "unsent w p s \<longleftrightarrow>
     (case wntsPath p of None \<Rightarrow> False | Some wnts \<Rightarrow>
        (case lookup (files w) wnts of
           None \<Rightarrow> True
         | Some (Regular pm text _) \<Rightarrow> pm AND owner_read \<noteq> 0 \<and> read_size_t text \<notin> {None, Some (hash_str s)}
         | Some (Directory _) \<Rightarrow> False))"

definition spelled :: "path \<Rightarrow> bool" where
  "spelled p \<longleftrightarrow> path_fits p \<and> lexically_normal p = p"

lemma content_message_simps [simp]:
  "hash_timestamp (content_message p ts s) = Some ts" "readings (content_message p ts s) = 2"
  "msg_kind (content_message p ts s) = Some contentChange" "well_typed (content_message p ts s)"
  "spelled p \<Longrightarrow> paths_normal (content_message p ts s)"
proof -
  show k: "msg_kind (content_message p ts s) = Some contentChange"
    by (simp add: msg_kind_Some content_defs)
  then show "well_typed (content_message p ts s)" by (simp add: well_typed_def content_defs)
qed (simp_all add: readings_def spelled_def content_defs)

lemma content_message_fits [simp]:
  "spelled p \<Longrightarrow> length s < 2 ^ 64 \<Longrightarrow> isValid self \<Longrightarrow> time_fits ts \<Longrightarrow>
    fits (add_routing self ipv6Unspecified (content_message p ts s))"
  by (simp add: content_defs add_routing_def on_base_def Let_def base_fits_def isValid_def spelled_def)

text \<open>The announcement as the receivers see it.\<close>

definition announced_as :: "any_message \<Rightarrow> path \<Rightarrow> string \<Rightarrow> bool" where
  "announced_as m p s \<longleftrightarrow> (\<exists>x. received m = MContent x \<and> targetFile x = p \<and> fileContent x = s
     \<and> mtype x = type_code contentChange)"

lemma announcement_facts:
  assumes "spelled p" and "length s < 2 ^ 64" and "isValid (self_ip w)"
    and "time_fits (convertTimepoint tp (clock w (ticks w)) (clock w (ticks w + 1)))"
  shows "fits (announcement L w p s tp)" "well_typed (announcement L w p s tp)"
    "paths_normal (announcement L w p s tp)"
    "msg_kind (announcement L w p s tp) = Some contentChange"
    "receiverNode (header (announcement L w p s tp)) = ipv6Unspecified"
    "announced_as (announcement L w p s tp) p s"
    "readings (announcement L w p s tp) = 2"
    "originatorNode (header (announcement L w p s tp)) = self_ip w"
proof -
  let ?m = "announcement L w p s tp"
  note d = announcement_def Let_def add_routing_def set_hash_def on_base_def content_defs
  show "fits ?m" "well_typed ?m" "paths_normal ?m" "msg_kind ?m = Some contentChange"
    "receiverNode (header ?m) = ipv6Unspecified" "readings ?m = 2"
    using assms by (simp_all add: announcement_def Let_def readings_def)
  show "announced_as ?m p s" using assms(1) by (simp add: announced_as_def d spelled_def)
  show "originatorNode (header ?m) = self_ip w" by (simp add: d)
qed

text \<open>What the callback leaves in the outbox.\<close>

lemma callback_announces:
  fixes L w p s tp
  defines "m \<equiv> announcement L w p s tp"
  assumes L: "lib_laws L" and c: "cache_ok w" and self: "isValid (self_ip w)" "self_ip w \<noteq> ipv6Unspecified"
    and p: "spelled p" "length s < 2 ^ 64"
    and ts: "time_fits (convertTimepoint tp (clock w (ticks w)) (clock w (ticks w + 1)))"
    and f: "lookup (files w) p = Some (Regular pm s tp)" "pm AND owner_read \<noteq> 0" and u: "unsent w p s"
    and ps: "\<forall>q \<in> set (peers w). remoteIP q \<noteq> ipv6Unspecified"
    and acc: "accepted L m (w\<lparr>ticks := ticks w + 4\<rparr>)"
  shows "\<exists>v. onFileCreatedOrModified_cb L p w = (Inr (), v)
    \<and> outbox v = outbox w @ map (\<lambda>q. (socketIP q, save_any L m)) (peers w)"
proof -
  let ?ts = "convertTimepoint tp (clock w (ticks w)) (clock w (ticks w + 1))"
  let ?u = "w\<lparr>ticks := ticks w + 2\<rparr>" and ?c = "content_message p ?ts s"
  obtain wnts where wp: "wntsPath p = Some wnts" using u by (auto simp: unsent_def split: option.splits)
  have r: "readable w p s" using f by (simp add: readable_def)
  have cb: "onFileCreatedOrModified_cb L p w = bnd (broadcast L ?c) (\<lambda>_.
      write_out wnts (to_string (unat (hash_str s)))) ?u"
  proof (rule callback_exec [OF r wp, of L])
    fix t v
    assume v: "v = w\<lparr>ticks := ticks w + 2\<rparr>" "write_timestamp p w = (Inr t, v)"
      and run: "onFileCreatedOrModified_cb L p w =
      (case lookup (files w) wnts of
         Some (Regular pm text _) \<Rightarrow>
           if pm AND owner_read = 0 \<or> read_size_t text = None then (Inl (Undefined ''oldHash''), v)
           else if read_size_t text = Some (hash_str s) then (Inr (), v)
           else bnd (broadcast L (content_message p t s)) (\<lambda>_.
                write_out wnts (to_string (unat (hash_str s)))) v
       | Some (Directory _) \<Rightarrow> (Inl (Undefined ''oldHash''), v)
       | None \<Rightarrow> bnd (broadcast L (content_message p t s)) (\<lambda>_.
                write_out wnts (to_string (unat (hash_str s)))) v)"
    have "t = ?ts"
      using v(2) f by (simp add: write_timestamp_def last_write_time_def exec_simps)
    then show ?thesis
      using run u wp v(1) by (auto simp: unsent_def split: option.splits node.splits)
  qed
  have m': "m = set_hash (msg_hash L (case hash_timestamp ?c of None \<Rightarrow> 0
       | Some ts \<Rightarrow> to_time_t ts (clock ?u (ticks ?u)) (clock ?u (Suc (ticks ?u))))
       (add_routing (self_ip ?u) ipv6Unspecified ?c)) (add_routing (self_ip ?u) ipv6Unspecified ?c)"
    by (simp add: m_def announcement_def Let_def numeral_3_eq_3)
  have acc': "accepted L (set_hash (msg_hash L (case hash_timestamp ?c of None \<Rightarrow> 0
       | Some ts \<Rightarrow> to_time_t ts (clock ?u (ticks ?u)) (clock ?u (Suc (ticks ?u))))
       (add_routing (self_ip ?u) ipv6Unspecified ?c)) (add_routing (self_ip ?u) ipv6Unspecified ?c))
       (?u\<lparr>ticks := ticks ?u + readings ?c\<rparr>)"
    unfolding m' [symmetric] using acc by (simp add: eval_nat_numeral)
  have "broadcast L ?c ?u = (Inr (), sent_to_all L m filePriority (?u\<lparr>ticks := ticks ?u + readings ?c\<rparr>))"
    unfolding m'
    by (rule broadcast_accepted [OF L, where k = contentChange])
      (use c self p ts ps acc' in \<open>simp_all add: wire_priority_def cache_ok_def\<close>)
  then show ?thesis
    by (simp add: cb bnd_exec write_out_exec sent_to_all_def)
qed


section \<open>The change arrives\<close>

text \<open>A process that can apply a change of \<open>p\<close>: in sync with the network, idle, without a lock on the
  file, which it has with permissions \<open>pm\<close> that let it write.\<close>

definition ready_for :: "path \<Rightarrow> perms \<Rightarrow> world \<Rightarrow> bool" where
  "ready_for p pm w \<longleftrightarrow> isFinishedConnecting w \<and> cache_ok w \<and> messageQueue w = []
     \<and> map_of (files w) (the_lock_path p) = None
     \<and> (case map_of (files w) p of Some (Regular pm' _ _) \<Rightarrow> pm' = pm | _ \<Rightarrow> False)
     \<and> pm AND owner_write \<noteq> 0 \<and> folder_there (files w) (butlast p)"

text \<open>One file has changed.\<close>

definition file_changed :: "path \<Rightarrow> perms \<Rightarrow> string \<Rightarrow> world \<Rightarrow> world \<Rightarrow> bool" where
  "file_changed p pm s w w' \<longleftrightarrow> (\<exists>u. \<forall>q. map_of (files w') q =
     (if q = p then Some (Regular pm s u) else map_of (files w) q))"

lemma processNext_done:
  assumes "pq_top (messageQueue w) = Some (k, m)"
    and "dispatch L m (w\<lparr>messageQueue := pq_pop (messageQueue w)\<rparr>) = (Inr None, v)" and "cache_ok v"
  shows "processNextMessage L w = (Inr (), v\<lparr>oldMessages := emplace_back (Some m) (oldMessages v)\<rparr>)"
  using assms(2) by (simp add: processNextMessage_exec [OF assms(1)] bnd_exec remember_exec [OF assms(3)])

lemma queue_of_one: "pq_top [x] = Some x" "pq_pop [x] = []"
  by (simp_all add: pq_top_def pq_pop_def)

lemma dispatch_content:
  "mtype x = type_code contentChange \<Longrightarrow> processContentFileMessage L x w = (Inr True, v) \<Longrightarrow>
    dispatch L (MContent x) w = (Inr None, v)"
  using msg_kind_Some [of "MContent x" contentChange]
  by (simp add: dispatch_def as_content_def cast_def exec_simps requeue_def Message.defs)

lemma dispatch_lock:
  "mtype x = type_code lock \<Longrightarrow> processLockMessage L x w = (Inr True, v) \<Longrightarrow>
    dispatch L (MFile x) w = (Inr None, v)"
  using msg_kind_Some [of "MFile x" lock]
  by (simp add: dispatch_def as_file_def cast_def exec_simps requeue_def Message.defs)

lemma announced_change_is_applied:
  assumes m: "announced_as m p s" and p: "managed p" and r: "ready_for p pm v"
  shows "\<exists>w'. processNextMessage L (queued_at m filePriority v) = (Inr (), w') \<and> file_changed p pm s v w'"
proof -
  obtain x where x: "received m = MContent x" "targetFile x = p" "fileContent x = s"
    "mtype x = type_code contentChange"
    using m by (auto simp: announced_as_def)
  obtain old u where n: "map_of (files v) p = Some (Regular pm old u)"
    using r by (auto simp: ready_for_def split: option.splits node.splits)
  let ?w = "queued_at m filePriority v"
  let ?v = "?w\<lparr>messageQueue := []\<rparr>"
  have v: "isFinishedConnecting ?v" "files ?v = files v" "oldMessages ?v = oldMessages v"
    using r by (simp_all add: queued_at_def ready_for_def isFinishedConnecting_def)
  have al: "allowed L (targetFile x) (originatorNode x) ?v = Some perms_none"
    using r x(2) v(2) by (simp add: allowed_def ready_for_def)
  obtain fs where fs: "processContentFileMessage L x ?v = (Inr True, ?v\<lparr>ticks := Suc (ticks ?v), files := fs\<rparr>)"
    "\<forall>q. map_of fs q = (if q = p then Some (changed_file perms_none (Regular pm old u) s (clock ?v (ticks ?v)))
        else map_of (files v) q)"
    using processContent_exec [OF v(1) _ al, of "Regular pm old u"] p n r x(2,3) v(2)
    by (auto simp: ready_for_def)
  let ?d = "?v\<lparr>ticks := Suc (ticks ?v), files := fs\<rparr>"
  have q: "messageQueue ?w = [(filePriority, received m)]"
    using r by (simp add: queued_at_def ready_for_def pq_emplace_def)
  have d: "dispatch L (received m) (?w\<lparr>messageQueue := pq_pop (messageQueue ?w)\<rparr>) = (Inr None, ?d)"
    using dispatch_content [OF x(4) fs(1)] by (simp add: x(1) q queue_of_one)
  have c: "cache_ok ?d" using r v(3) by (simp add: ready_for_def cache_ok_def)
  show ?thesis
    using processNext_done [OF _ d c] fs(2) by (auto simp: q queue_of_one file_changed_def changed_file_def)
qed


section \<open>From one node to all\<close>

text \<open>A network without cycles whose nodes know their addresses and those of their peers.\<close>

definition tree_network :: "cluster \<Rightarrow> net \<Rightarrow> bool" where
  "tree_network c t \<longleftrightarrow> wired (peers_of c) [] t \<and> addressed c t \<and> distinct (sites t)
     \<and> list_all ordinary (sites t) \<and> list_all isValid (sites t)"

text \<open>The callback for a file with unsent content announces it; the announcement is queued at every
  other node that accepts it.\<close>

lemma change_is_queued_everywhere:
  fixes L c s
  defines "w \<equiv> c s"
  assumes "lib_laws L" and "tree_network c (Site s ts)" and "depth (Site s ts) \<le> Suc n"
    and "cache_ok w" and "spelled p" and "length content < 2 ^ 64"
    and "lookup (files w) p = Some (Regular pm content tp)" and "pm AND owner_read \<noteq> 0"
    and "unsent w p content"
    and "time_fits (convertTimepoint tp (clock w (ticks w)) (clock w (ticks w + 1)))"
    and "m = announcement L w p content tp" and "accepted L m (w\<lparr>ticks := ticks w + 4\<rparr>)"
    and "length (save_Message L (header m)) \<le> sizeof_Message L"
    and "\<forall>y \<in> set (sites (Site s ts)) - {s}. accepted L m (c y)"
  shows "\<exists>v. publish L n s (onFileCreatedOrModified_cb L p) c = Some (\<lambda>y. if y = s then v
      else if y \<in> set (sites (Site s ts)) then queued_at m filePriority (c y) else c y)"
    and "announced_as m p content" and "originatorNode (header m) = s"
proof -
  let ?t = "Site s ts" and ?w = "(c s)\<lparr>outbox := []\<rparr>"
  note net = assms(3) [unfolded tree_network_def]
  have self: "self_ip w = s" "isValid s" "ordinary s" using net by (simp_all add: w_def addressed_def)
  have ps: "\<forall>q \<in> set (peers ?w). remoteIP q \<noteq> ipv6Unspecified"
  proof -
    have "mset (peers_of c s) = mset (map root ts)" using net by simp
    then have "set (peers_of c s) = root ` set ts" by (metis mset_eq_setD list.set_map)
    moreover have "\<forall>u \<in> set ts. ordinary (root u)"
      using net root_in_sites by (fastforce simp: list_all_iff)
    ultimately have "\<forall>x \<in> set (peers_of c s). ordinary x" by simp
    then show ?thesis by (simp add: peers_of_def ordinary_def)
  qed
  have ww: "announcement L ?w p content tp = m" "unsent ?w p content"
    using assms(10,12) by (simp_all add: announcement_def unsent_def w_def cong: option.case_cong)
  have "accepted L m (?w\<lparr>ticks := ticks ?w + 4\<rparr>)"
    using assms(13) by (simp add: w_def accepted_def arrival_time_def cong: option.case_cong)
  then obtain v where v: "onFileCreatedOrModified_cb L p ?w = (Inr (), v)"
    "outbox v = map (\<lambda>q. (socketIP q, save_any L m)) (peers (c s))"
    using callback_announces [OF assms(2), of ?w p content tp pm] assms(5-12) ww ps self
    by (auto simp: w_def cache_ok_def ordinary_def)
  note facts = announcement_facts [OF assms(6,7) _ assms(11), of L, folded assms(12)]
  have b: "broadcastable L m filePriority"
    using facts self assms(14) by (simp add: broadcastable_def wire_priority_def)
  have "\<forall>u \<in> set ts. accepting L m c u"
    using assms(15) net by (auto simp: accepting_def list_all_iff)
  then have pub: "publish L n s (onFileCreatedOrModified_cb L p) c
      = Some (\<lambda>y. if y = s then v\<lparr>outbox := outbox (c s)\<rparr>
          else if y \<in> set (sites ?t) then queued_at m filePriority (c y) else c y)"
    using net v by (intro publish_tree [OF assms(2) b _ _ _ _ assms(4)]) simp_all
  show "\<exists>v. publish L n s (onFileCreatedOrModified_cb L p) c = Some (\<lambda>y. if y = s then v
      else if y \<in> set (sites ?t) then queued_at m filePriority (c y) else c y)"
    using pub by blast
  show "announced_as m p content" "originatorNode (header m) = s" using facts self by simp_all
qed

text \<open>C1: In a network without cycles whose nodes all accept the announcement, the origin included, a
  change of a file reaches every node: when the callback for a file with unsent content runs at one node,
  the announcement is queued once at every other node, and each of them that is idle and has the file,
  writable and unlocked, has the new content as soon as it has processed its next message, with the
  permissions of its own copy and all other files as they were.\<close>

theorem change_reaches_every_node:
  fixes L c s
  defines "w \<equiv> c s"
  assumes "lib_laws L" and "tree_network c (Site s ts)" and "depth (Site s ts) \<le> Suc n"
    and "cache_ok w" and "managed p" and "spelled p" and "length content < 2 ^ 64"
    and "lookup (files w) p = Some (Regular pm content tp)" and "pm AND owner_read \<noteq> 0"
    and "unsent w p content"
    and "time_fits (convertTimepoint tp (clock w (ticks w)) (clock w (ticks w + 1)))"
    and "m = announcement L w p content tp" and "accepted L m (w\<lparr>ticks := ticks w + 4\<rparr>)"
    and "length (save_Message L (header m)) \<le> sizeof_Message L"
    and "\<forall>y \<in> set (sites (Site s ts)) - {s}. accepted L m (c y)"
  shows "\<exists>c'. publish L n s (onFileCreatedOrModified_cb L p) c = Some c'
    \<and> (\<forall>y \<in> set (sites (Site s ts)) - {s}. c' y = queued_at m filePriority (c y)
        \<and> (\<forall>mode. ready_for p mode (c y) \<longrightarrow> (\<exists>w'. processNextMessage L (c' y) = (Inr (), w')
            \<and> file_changed p mode content (c y) w')))
    \<and> (\<forall>y. y \<notin> set (sites (Site s ts)) \<longrightarrow> c' y = c y)"
proof -
  let ?t = "Site s ts"
  note q = change_is_queued_everywhere [OF assms(2-4) _ assms(7,8) _ assms(10) _ _ _ _ assms(15,16),
      folded w_def, OF assms(5,9,11-14)]
  have a: "\<exists>w'. processNextMessage L (queued_at m filePriority (c y)) = (Inr (), w')
      \<and> file_changed p mode content (c y) w'" if "ready_for p mode (c y)" for y mode
    using announced_change_is_applied [OF q(2) assms(6) that] by blast
  obtain v where v: "publish L n s (onFileCreatedOrModified_cb L p) c = Some (\<lambda>y. if y = s then v
      else if y \<in> set (sites ?t) then queued_at m filePriority (c y) else c y)" (is "_ = Some ?c")
    using q(1) by blast
  have "s \<in> set (sites ?t)" by simp
  then have "?c y = c y" if "y \<notin> set (sites ?t)" for y using that by auto
  moreover have "?c y = queued_at m filePriority (c y)" if "y \<in> set (sites ?t) - {s}" for y
    using that by simp
  ultimately show ?thesis using v a by (intro exI [of _ ?c]) auto
qed


text \<open>The node 7 finds a new content of \<open>d/f\<close>; its peer 8 has the peer 6.\<close>

definition sample_cluster :: cluster where
  "sample_cluster y = kept_world\<lparr>self_ip := y, clock := backward_clock,
     peers := map (\<lambda>ip. new_peer ip 1) (if y = IPv6 8 then [IPv6 6, IPv6 7] else [IPv6 8]),
     files := (if y = IPv6 7
       then AList.update [''d'', ''f''] (Regular 0x1A4 ''new'' 5500000001) (files kept_world)
       else files kept_world)\<rparr>"

definition sample_announcement :: any_message where
  "sample_announcement = announcement raw_lib (sample_cluster (IPv6 7)) [''d'', ''f''] ''new'' 5500000001"

lemma sample_cluster_simps [simp]:
  "self_ip (sample_cluster y) = y" "clock (sample_cluster y) = backward_clock"
  "ticks (sample_cluster y) = 0" "messageQueue (sample_cluster y) = []"
  "oldMessages (sample_cluster y) = oldMessages sample_world"
  "isFinishedConnecting (sample_cluster y)" "cache_ok (sample_cluster y)"
  using cache_ok_sample
  by (simp_all add: sample_cluster_def kept_world_def isFinishedConnecting_def cache_ok_def)

lemma sample_announcement_accepted:
  assumes "clock w = backward_clock" and "even (ticks w)"
  shows "accepted raw_lib sample_announcement w"
proof -
  note d = sample_announcement_def announcement_def Let_def backward_clock_def convertTimepoint_def
    to_time_t_def sys_to_time_t_def tdiv_def
  have s: "hash_timestamp sample_announcement = Some 5500000000"
    "messageHash (header sample_announcement) = msg_hash raw_lib 5 sample_announcement"
    by (simp_all add: d)
  have t: "arrival_time sample_announcement w = 4"
    using assms by (simp add: arrival_time_def s(1) backward_clock_def to_time_t_def
        whole_seconds_def sys_from_time_t_def sys_to_time_t_def tdiv_def convertTimepoint_def)
  have h: "hash_str (ctime raw_lib 5) = hash_str (ctime raw_lib 4) + 1"
    by (simp add: raw_lib_def) code_simp
  show ?thesis using t h by (simp add: accepted_iff_time [OF s])
qed

theorem change_reaches_every_node_witness:
  "\<exists>c'. publish raw_lib 2 (IPv6 7) (onFileCreatedOrModified_cb raw_lib [''d'', ''f'']) sample_cluster = Some c'
    \<and> (\<exists>w' u. processNextMessage raw_lib (c' (IPv6 6)) = (Inr (), w')
        \<and> map_of (files w') [''d'', ''f''] = Some (Regular 0x1A4 ''new'' u))"
proof -
  let ?p = "[''d'', ''f'']" and ?ts = "[Site (IPv6 8) [Site (IPv6 6) []]]"
  let ?w = "sample_cluster (IPv6 7)"
  have net: "tree_network sample_cluster (Site (IPv6 7) ?ts)"
    by (simp add: tree_network_def addressed_def ordinary_def isValid_def peers_of_def peers_fresh_def)
      (simp add: sample_cluster_def peers_of_def)
  have sp: "spelled ?p"
    by (simp add: spelled_def path_fits_def lexically_normal_def name_ok_def)
  have wp: "wntsPath ?p = Some [''d'', ''.wnts'', ''f'']" by code_simp
  have f: "lookup (files ?w) ?p = Some (Regular 0x1A4 ''new'' 5500000001)" "unsent ?w ?p ''new''"
    by (simp_all add: unsent_def wp sample_cluster_def kept_world_def lookup_def entry_def resolve_def)
  have sz: "length (save_Message raw_lib (header sample_announcement)) \<le> sizeof_Message raw_lib"
    by (simp add: sample_announcement_def announcement_def Let_def add_routing_def on_base_def
        content_defs save_Message_def save_ip_def raw_lib_def)
  have ready: "accepted raw_lib sample_announcement (sample_cluster y)
      \<and> ready_for ?p 0x1A4 (sample_cluster y)" if "y \<noteq> IPv6 7" for y
    using that managed_d_f
    by (simp add: sample_announcement_accepted ready_for_def)
      (simp add: sample_cluster_def kept_world_def folder_there_def entry_def)
  have "\<exists>c'. publish raw_lib 2 (IPv6 7) (onFileCreatedOrModified_cb raw_lib ?p) sample_cluster = Some c'
    \<and> (\<forall>y \<in> set (sites (Site (IPv6 7) ?ts)) - {IPv6 7}. c' y = queued_at sample_announcement filePriority (sample_cluster y)
        \<and> (\<forall>mode. ready_for ?p mode (sample_cluster y) \<longrightarrow> (\<exists>w'. processNextMessage raw_lib (c' y) = (Inr (), w')
            \<and> file_changed ?p mode ''new'' (sample_cluster y) w')))
    \<and> (\<forall>y. y \<notin> set (sites (Site (IPv6 7) ?ts)) \<longrightarrow> c' y = sample_cluster y)"
    by (rule change_reaches_every_node [OF raw.lib_laws_axioms net _ _ managed_d_f(1) sp _ f(1) _ f(2)
          _ sample_announcement_def _ sz])
      (use ready in \<open>auto simp: sample_announcement_accepted backward_clock_def time_fits_def
        sys_to_time_t_def convertTimepoint_def tdiv_def\<close>)
  then obtain c' where c': "publish raw_lib 2 (IPv6 7) (onFileCreatedOrModified_cb raw_lib ?p) sample_cluster = Some c'"
    "\<forall>mode. ready_for ?p mode (sample_cluster (IPv6 6)) \<longrightarrow> (\<exists>w'. processNextMessage raw_lib (c' (IPv6 6)) = (Inr (), w')
            \<and> file_changed ?p mode ''new'' (sample_cluster (IPv6 6)) w')"
    by fastforce
  moreover have "ready_for ?p 0x1A4 (sample_cluster (IPv6 6))" using ready [of "IPv6 6"] by simp
  ultimately show ?thesis by (fastforce simp: file_changed_def)
qed


section \<open>The lock that goes with a change\<close>

text \<open>C19: When a change and the lock that its origin broadcasts right after it are both waiting, the lock is
  processed first, since it has the better priority; then the change is dropped because of that very
  lock: the file keeps its old content and is read-only from then on.\<close>

theorem lock_overtakes_the_change:
  assumes "lib_laws L" and "cache_ok w" and "lockable L p w" and "holder L p w = None"
    and "messageQueue w = [(filePriority, MContent change), (lockPriority, MFile lk)]"
    and "mtype change = type_code contentChange" and "targetFile change = p"
    and "mtype lk = type_code lock" and "lock_request p lk" and "originatorNode lk \<noteq> self_ip w"
    and "map_of (files w) p = Some (Regular old s tm)"
  shows "\<exists>v w'. processNextMessage L w = (Inr (), v) \<and> processNextMessage L v = (Inr (), w')
    \<and> messageQueue w' = [] \<and> holder L p w' = Some lk
    \<and> map_of (files w') p = Some (Regular (new_perms writePerms Remove old) s tm)"
proof -
  let ?a = "(filePriority, MContent change)" and ?b = "(lockPriority, MFile lk)"
  let ?w1 = "w\<lparr>messageQueue := [?a]\<rparr>"
  have q: "pq_top (messageQueue w) = Some ?b" "pq_pop (messageQueue w) = [?a]"
    by (simp_all add: assms(5) pq_pop_def pq_top_def prio_less_def priority_defs)
  have p: "managed p" "lock_place (files w) p" "is_file (files w) p" and lt: "targetFile lk = p"
    using assms(3,9) by (simp_all add: lockable_def lock_request_def)
  have l1: "lockable L p ?w1" using assms(3) by (simp add: lockable_def isFinishedConnecting_def)
  have free: "map_of (files w) (the_lock_path p) = None"
    using assms(3,4) by (auto simp: lockable_def holder_def)
  let ?fs = "locked_file (self_ip w) (originatorNode lk) p (files w)"
  obtain t where lk: "processLockMessage L lk ?w1 = (Inr True, ?w1\<lparr>ticks := ticks w + 2,
      files := saved_lock L t p (lk, perms_of ?fs p AND writePerms) ?fs\<rparr>)"
    using processLock_free [of L lk ?w1] l1 free lt by auto
  define w2 where "w2 = ?w1\<lparr>ticks := ticks w + 2,
      files := saved_lock L t p (lk, perms_of ?fs p AND writePerms) ?fs\<rparr>"
  have w2: "self_ip w2 = self_ip w" "cache_ok w2" "messageQueue w2 = [?a]" "oldMessages w2 = oldMessages w"
    using assms(2) by (simp_all add: w2_def cache_ok_def)
  define v where "v = w2\<lparr>oldMessages := emplace_back (Some (MFile lk)) (oldMessages w2)\<rparr>"
  have v: "processNextMessage L w = (Inr (), v)"
    unfolding v_def using lk by (intro processNext_done [OF q(1)] dispatch_lock assms(8) w2(2))
      (simp add: q(2) w2_def)
  have h: "held_lock L p (files w2) = Some (lk, perms_of ?fs p AND writePerms)" "lockable L p w2"
    unfolding w2_def using lockable_saved [OF assms(1,9) l1 locked_file_place [OF p]] by simp_all
  let ?v1 = "v\<lparr>messageQueue := []\<rparr>"
  have "processContentFileMessage L change ?v1 = (Inr True, ?v1)"
    using h assms(7,10) w2(1)
    by (intro foreign_lock_blocks(1) [where lk = lk and p = p])
      (simp_all add: v_def holder_def lockable_def isFinishedConnecting_def)
  then have "dispatch L (MContent change) ?v1 = (Inr None, ?v1)"
    by (rule dispatch_content [OF assms(6)])
  moreover have c: "cache_ok ?v1"
    using cache_ok_remember [OF w2(2)] by (simp add: v_def cache_ok_def)
  moreover have "messageQueue v = [?a]" using w2(3) by (simp add: v_def)
  ultimately have "processNextMessage L v
      = (Inr (), ?v1\<lparr>oldMessages := emplace_back (Some (MContent change)) (oldMessages ?v1)\<rparr>)"
    by (intro processNext_done) (simp_all add: queue_of_one)
  moreover have "map_of (files v) p = Some (Regular (new_perms writePerms Remove old) s tm)"
    using assms(10,11) lock_path_not_managed [OF p(1) p(1)]
    by (simp add: v_def w2_def map_of_saved_other [OF p(1)] locked_file_def update_conv')
  ultimately show ?thesis
    using v h(1) by (simp add: holder_def v_def)
qed

theorem lock_overtakes_the_change_witness:
  "let w = kept_world\<lparr>messageQueue := [(filePriority, MContent (content_msg (IPv6 7) ''new'')),
       (lockPriority, MFile (file_msg lock (IPv6 7) 5000000000))]\<rparr>
   in \<exists>v w'. processNextMessage raw_lib w = (Inr (), v) \<and> processNextMessage raw_lib v = (Inr (), w')
     \<and> map_of (files w') [''d'', ''f''] = Some (Regular 0x124 ''old'' 0)"
proof -
  let ?w = "kept_world\<lparr>messageQueue := [(filePriority, MContent (content_msg (IPv6 7) ''new'')),
       (lockPriority, MFile (file_msg lock (IPv6 7) 5000000000))]\<rparr>"
  have c: "cache_ok ?w" using cache_ok_sample by (simp add: kept_world_def cache_ok_def)
  have l: "lockable raw_lib [''d'', ''f''] ?w"
    using lockable_kept [of raw_lib] by (simp add: lockable_def isFinishedConnecting_def)
  have h: "holder raw_lib [''d'', ''f''] ?w = None" using kept_free by (simp add: holder_def)
  have t: "mtype (content_msg (IPv6 7) ''new'') = type_code contentChange"
    "mtype (file_msg lock (IPv6 7) 5000000000) = type_code lock"
    by (simp_all add: content_msg_def file_msg_def FileMessage.defs FileContentMessage.defs)
  have pm: "new_perms writePerms Remove 0x1A4 = 0x124" by (simp add: new_perms_def writePerms_def)
  show ?thesis
    using lock_overtakes_the_change [OF raw.lib_laws_axioms c l h _ t(1) _ t(2), of "0x1A4" "''old''" 0]
      sample_requests kept_free
    by (auto simp: Let_def kept_world_def pm)
qed

end
