(* ===== verification/Footprint.thy ===== *)
theory Footprint
  imports Program "HOL-Library.Sublist"
begin

text \<open>
  Which files a message can change at the process that handles it: the file it is about, the lock
  file and the saved hash of that file, and folders on the way to them that did not exist.
  \<open>FilesystemSweeper::setup\<close> of \<open>src/src/file_sweep.hpp\<close> in contrast removes whole folders; what it
  removes and what it leaves is the second part.
\<close>

section \<open>File systems that agree outside a set of paths\<close>

definition kept_outside :: "path set \<Rightarrow> filesystem \<Rightarrow> filesystem \<Rightarrow> bool" where
  "kept_outside S old fs \<longleftrightarrow> (\<forall>q. q \<notin> S \<longrightarrow> map_of fs q = map_of old q
     \<or> (map_of old q = None \<and> map_of fs q = Some (Directory 0x1ED) \<and> (\<exists>k \<in> S. strict_prefix q k)))"

lemma kept_outside_refl [simp]: "kept_outside S fs fs"
  by (simp add: kept_outside_def)

lemma kept_outside_update:
  "kept_outside S old fs \<Longrightarrow> q \<in> S \<Longrightarrow> kept_outside S old (AList.update q n fs)"
  "kept_outside S old fs \<Longrightarrow> q \<in> S \<Longrightarrow> kept_outside S old (AList.delete q fs)"
  by (auto simp: kept_outside_def update_conv' delete_conv')

text \<open>A new folder above a path of the set.\<close>

lemma kept_outside_folder:
  assumes "kept_outside S old fs" and "map_of fs q = None" and "k \<in> S" and "prefix q k"
  shows "kept_outside S old (AList.update q (Directory 0x1ED) fs)"
  using assms by (fastforce simp: kept_outside_def update_conv' strict_prefix_def)

named_theorems kept_intro \<open>programs that change only what they are meant to change\<close>

lemmas [kept_intro] = safely_ret safely_gets safely_bnd safely_if safely_option safely_prod

abbreviation (input) keeps_files :: "path set \<Rightarrow> filesystem \<Rightarrow> (filesystem, 'a) prog \<Rightarrow> bool" where
  "keeps_files S old m \<equiv> safely (kept_outside S old) {} m"

abbreviation (input) keeps :: "path set \<Rightarrow> filesystem \<Rightarrow> (world, 'a) prog \<Rightarrow> bool" where
  "keeps S old m \<equiv> safely (\<lambda>w :: world. kept_outside S old (files w)) {} m"

lemma kept_throw [kept_intro]: "safely P {} (throw e)"
  by (rule safely_throw) simp

lemma kept_need [kept_intro]: "safely P {} (need why x)"
  by (rule safely_need) simp

section \<open>File operations\<close>

lemma kept_permissions: "resolve p \<in> S \<Longrightarrow> keeps_files S old (permissions p pm opt)"
  unfolding permissions_def
  by (intro kept_intro safely_updates kept_outside_update)

lemma kept_remove: "resolve p \<in> S \<Longrightarrow> keeps_files S old (fs_remove p)"
  by (auto simp: fs_remove_def remove_entry_def intro!: kept_intro safely_updates kept_outside_update
      split: option.split node.split)

lemma kept_write_file: "resolve p \<in> S \<Longrightarrow> keeps_files S old (write_file p s t)"
  unfolding write_file_def by (rule safely_updates) (simp add: kept_outside_update)

lemma kept_make_dirs: "k \<in> S \<Longrightarrow> prefix (pre @ es) k \<Longrightarrow> keeps_files S old (make_dirs p pre es)"
proof (induction es arbitrary: pre)
  case Nil
  then show ?case by (simp add: safely_ret)
next
  case (Cons e es)
  have rec: "keeps_files S old (make_dirs p (pre @ [e]) es)" using Cons by simp
  have pk: "prefix (pre @ [e]) k" using Cons.prems(2) by (metis append_Cons append_Nil append_assoc append_prefixD)
  have "keeps_files S old (make_dirs p pre (e # es))"
  proof (rule safelyI)
    fix fs
    assume fs: "kept_outside S old fs"
    have "kept_outside S old (AList.update (pre @ [e]) (Directory 0x1ED) fs)" if "entry fs (pre @ [e]) = None"
      using kept_outside_folder [OF fs _ Cons.prems(1) pk] that by (simp add: entry_def)
    then show "kept_outside S old (snd (make_dirs p pre (e # es) fs))
        \<and> fst (make_dirs p pre (e # es) fs) \<notin> Inl ` {}"
      using fs rec by (auto simp: exec_simps safely_def split: option.split node.split)
  qed
  then show ?case .
qed

lemma resolve_remove_filename: "prefix (resolve (remove_filename p)) (resolve p)"
proof (cases p rule: rev_cases)
  case (snoc q f)
  then show ?thesis by (simp add: remove_filename_def Let_def resolve_def)
qed (simp add: remove_filename_def has_filename_def)

lemma kept_create_folder:
  "resolve p \<in> S \<Longrightarrow> keeps_files S old (create_directories (remove_filename p))"
  using kept_make_dirs [of "resolve p" S "[]" "resolve (remove_filename p)"] resolve_remove_filename
  by (auto simp: create_directories_def kept_throw)

lemma kept_reads [kept_intro]:
  "safely P {} (fs_exists p)" "safely P {} (status_perms p)" "safely P {} (read_file p)"
  unfolding fs_exists_def status_perms_def read_file_def by (rule safely_gets)+

lemma kept_enumerate [kept_intro]: "safely P {} (enumerateAllFiles fds)"
  by (induction fds) (auto simp: enumerate_folder_def intro!: kept_intro split: option.split node.split)

lemma kept_on_files [kept_intro]:
  assumes "keeps_files S old m"
  shows "keeps S old (on_files m)"
proof (rule safelyI)
  fix w :: world
  assume "kept_outside S old (files w)"
  then have "kept_outside S old (snd (m (files w)))" using assms by (simp add: safely_def)
  then show "kept_outside S old (files (snd (on_files m w))) \<and> fst (on_files m w) \<notin> Inl ` {}"
    by (cases "m (files w)") (simp add: on_files_def)
qed


section \<open>Programs that do not touch the files\<close>

lemma keeps_untouched: "(\<And>fs. safely (files_are fs) {} m) \<Longrightarrow> keeps S old m"
  by (simp add: safely_def)

lemma kept_updates: "(\<And>w. files (f w) = files w) \<Longrightarrow> keeps S old (updates f)"
  by (rule safely_updates) simp

lemma kept_steps [kept_intro]:
  "keeps S old now" "keeps S old (enqueue p m)" "keeps S old (remember m)" "keeps S old (attempt ip port)"
  "keeps S old finishedConnecting"
  by (auto simp: safely_def exec_simps remember_def on_cache_def attempt_def split: prod.split sum.split)

lemma kept_send [kept_intro]: "keeps S old (sendMessage L m d)"
  unfolding sendMessage_def by (rule keeps_untouched) (rule keeps_send)

lemma kept_cast [kept_intro]: "keeps S old (cast x)"
  unfolding cast_def by (rule kept_need)

lemma kept_archive_load [kept_intro]: "keeps S old (archive_load load data)"
  by (auto simp: archive_load_def intro!: kept_intro split: option.split)

lemma kept_load_lock [kept_intro]: "keeps S old (loadLockFile L p)"
  unfolding loadLockFile_def the_lockFilePath_def by (intro kept_intro)

lemma kept_check_lock [kept_intro]: "keeps S old (check_lock L p ip)"
  unfolding check_lock_def the_lockFilePath_def by (intro kept_intro)

lemma kept_requeue [kept_intro]: "keeps S old (requeue p ok)"
  unfolding requeue_def by (rule safely_ret)

lemma kept_for_each [kept_intro]: "(\<And>x. safely P {} (f x)) \<Longrightarrow> safely P {} (for_each f xs)"
  by (rule safely_for_each)

section \<open>The handlers of the file messages\<close>

text \<open>The files a message about \<open>p\<close> is about.\<close>

definition about :: "path \<Rightarrow> path set" where
  "about p = insert (resolve p) (resolve ` (set_option (lockFilePath p) \<union> set_option (wntsPath p)))"

lemma about_simps:
  "resolve p \<in> about p" "lockFilePath p = Some lp \<Longrightarrow> resolve lp \<in> about p"
  "wntsPath p = Some wp \<Longrightarrow> resolve wp \<in> about p"
  by (auto simp: about_def)

lemma kept_lock_path:
  "(\<And>lp. resolve lp \<in> about p \<Longrightarrow> keeps (about p) old (f lp)) \<Longrightarrow> keeps (about p) old (bnd (the_lockFilePath p) f)"
  by (cases "lockFilePath p") (simp_all add: the_lockFilePath_def need_def kept_throw about_simps)

lemma kept_wnts_path:
  "(\<And>wp. resolve wp \<in> about p \<Longrightarrow> keeps (about p) old (f wp)) \<Longrightarrow> keeps (about p) old (bnd (the_wntsPath p) f)"
  by (cases "wntsPath p") (simp_all add: the_wntsPath_def need_def kept_throw about_simps)

lemma kept_writes:
  "resolve p \<in> S \<Longrightarrow> keeps S old (write_out p s)" "resolve p \<in> S \<Longrightarrow> keeps S old (open_out p)"
  "resolve p \<in> S \<Longrightarrow> keeps S old (archive_save b p bs)"
proof -
  show w: "keeps S old (write_out p s)" if "resolve p \<in> S" for s
    unfolding write_out_def using that by (intro kept_intro kept_write_file)
  show "keeps S old (open_out p)" if "resolve p \<in> S"
    unfolding open_out_def using w [OF that] by (intro kept_intro)
  show "keeps S old (archive_save b p bs)" if "resolve p \<in> S"
    unfolding archive_save_def using w [OF that] by (intro kept_intro)
qed

lemmas kept_file_steps = kept_writes kept_permissions kept_remove kept_create_folder about_simps(1)

lemma kept_file_handlers:
  "keeps (about (targetFile m)) old (processLockMessage L m)"
  "keeps (about (targetFile m)) old (processUnlockMessage L m)"
  "keeps (about (targetFile m)) old (processDeleteFileMessage L m)"
  "keeps (about (targetFile c)) old (processContentFileMessage L c)"
  "keeps (about (targetFile s)) old (processInitialFileSyncMessage s)"
  unfolding processLockMessage_def processUnlockMessage_def processDeleteFileMessage_def
    processContentFileMessage_def processInitialFileSyncMessage_def
  by (intro kept_lock_path kept_wnts_path kept_intro kept_updates kept_file_steps; simp)+


section \<open>The other handlers\<close>

lemma kept_dial: "keeps S old (dial ip port n)"
  by (induction n) (simp_all add: kept_intro)

lemma kept_connect_peer [kept_intro]: "keeps S old (connect_peer ip port n)"
  unfolding connect_peer_def Let_def by (intro kept_intro kept_dial)

lemma kept_try_backups: "keeps S old (try_backups pre bs)"
proof (induction bs arbitrary: pre)
  case Nil
  then show ?case by (simp add: safely_ret)
next
  case (Cons b bs)
  have "keeps S old (case e of RuntimeError _ \<Rightarrow> try_backups (pre @ [b]) bs | _ \<Rightarrow> throw e)" for e
    using Cons by (auto intro!: kept_throw split: exn.split)
  moreover have "keeps S old (bnd (connect_peer (fst b) (snd b) 3) (\<lambda>p.
         updates (\<lambda>w. w\<lparr>peers := insert_front p (peers w), gatewayIP := fst b, backup_peers := pre @ bs\<rparr>)))"
    by (intro kept_intro kept_updates) simp
  ultimately show ?case
    using Cons by (auto intro!: safely_catch [where F = "{}"])
qed

lemma kept_resend_loop: "keeps S old (resend_loop L r xs)"
  by (induction xs) (auto simp: resend_def intro!: kept_intro split: option.split msg_type.split)

lemma kept_other_handlers:
  "keeps S old (processResendRequestMessage L r)" "keeps S old (processInitialFileSyncRequestMessage L b)"
  "keeps S old (processLinkLostMessage L b)" "keeps S old (processDisconnectMessage L b)"
  unfolding processResendRequestMessage_def processInitialFileSyncRequestMessage_def
    processLinkLostMessage_def processDisconnectMessage_def remove_peer_def broadcast_def send_sync_def
    split_beta the_lockFilePath_def
  by (intro kept_intro kept_updates kept_try_backups kept_resend_loop; simp)+

section \<open>What a message changes\<close>

definition footprint :: "any_message \<Rightarrow> path set" where
  "footprint m = (case m of MFile x \<Rightarrow> about (targetFile x) | MContent x \<Rightarrow> about (targetFile x)
     | MSync x \<Rightarrow> about (targetFile x) | _ \<Rightarrow> {})"

lemma footprint_cast:
  "as_file m = Some x \<Longrightarrow> footprint m = about (targetFile x)"
  "as_content m = Some c \<Longrightarrow> footprint m = about (targetFile c)"
  "as_sync m = Some s \<Longrightarrow> footprint m = about (targetFile s)"
  by (auto simp: as_file_def as_content_def as_sync_def footprint_def FileMessage.defs
      FileContentMessage.defs split: any_message.splits)

lemma kept_cast_bnd:
  "(\<And>x. y = Some x \<Longrightarrow> keeps S old (f x)) \<Longrightarrow> keeps S old (bnd (cast y) f)"
  by (cases y) (simp_all add: cast_def need_def kept_throw)

lemma kept_dispatch:
  assumes "msg_kind m \<noteq> Some connect"
  shows "keeps (footprint m) old (dispatch L m)"
  using assms
  by (auto simp: dispatch_def footprint_cast intro!: kept_cast_bnd safely_bnd [OF kept_file_handlers(1)]
      safely_bnd [OF kept_file_handlers(2)] safely_bnd [OF kept_file_handlers(3)]
      safely_bnd [OF kept_file_handlers(4)] safely_bnd [OF kept_file_handlers(5)]
      safely_bnd [OF kept_other_handlers(1)] safely_bnd [OF kept_other_handlers(2)]
      safely_bnd [OF kept_other_handlers(3)] safely_bnd [OF kept_other_handlers(4)]
      kept_requeue kept_throw safely_ret split: option.split msg_type.split)

text \<open>C3: Processing a message about a file changes no other file: apart from that file, its lock file,
  its saved hash and folders that are created on the way to them, every path is what it was, and
  the messages that are not about a file (a connect message apart, which starts the process over)
  change no path at all; this holds for every outcome of the handler, exceptions included.\<close>

theorem messages_touch_only_their_file:
  assumes "pq_top (messageQueue w) = Some (k, m)" and "msg_kind m \<noteq> Some connect"
    and "q \<notin> footprint m"
  shows "map_of (files (snd (processNextMessage L w))) q = map_of (files w) q
    \<or> map_of (files w) q = None \<and> map_of (files (snd (processNextMessage L w))) q = Some (Directory 0x1ED)
       \<and> (\<exists>k \<in> footprint m. strict_prefix q k)"
proof -
  let ?w = "w\<lparr>messageQueue := pq_pop (messageQueue w)\<rparr>"
  have "keeps (footprint m) (files w)
      (bnd (dispatch L m) (\<lambda>r. case r of None \<Rightarrow> remember m | Some k \<Rightarrow> enqueue k m))"
    using assms(2) by (intro kept_dispatch kept_intro)
  then have "kept_outside (footprint m) (files w) (files (snd (processNextMessage L w)))"
    using assms(1) by (simp add: processNextMessage_exec safely_def)
  then show ?thesis using assms(3) by (simp add: kept_outside_def)
qed

theorem messages_touch_only_their_file_witness:
  "let w = kept_world\<lparr>messageQueue := [(lockPriority, MFile (file_msg lock (IPv6 7) 5000000000))]\<rparr>
   in map_of (files (snd (processNextMessage raw_lib w))) [''d''] = Some (Directory 0x1ED)"
proof -
  let ?w = "kept_world\<lparr>messageQueue := [(lockPriority, MFile (file_msg lock (IPv6 7) 5000000000))]\<rparr>"
  have t: "pq_top (messageQueue ?w) = Some (lockPriority, MFile (file_msg lock (IPv6 7) 5000000000))"
    by (simp add: pq_top_def)
  have k: "msg_kind (MFile (file_msg lock (IPv6 7) 5000000000)) = Some lock"
    by (simp add: msg_kind_Some file_msg_def Message.defs)
  have "wntsPath [''d'', ''f''] = Some [''d'', ''.wnts'', ''f'']"
    "lockFilePath [''d'', ''f''] = Some [''d'', ''.wnts'', ''.lock.f'']"
    by code_simp+
  then have q: "[''d''] \<notin> footprint (MFile (file_msg lock (IPv6 7) 5000000000))"
    by (simp add: footprint_def about_def resolve_def file_msg_def)
  have "map_of (files ?w) [''d''] = Some (Directory 0x1ED)" by (simp add: kept_world_def)
  then show ?thesis
    using messages_touch_only_their_file [OF t _ q, of raw_lib] k by (simp add: Let_def)
qed


section \<open>What the start of the sweeper removes\<close>

text \<open>Every entry lies in a directory that is there and can be written.\<close>

definition writable_tree :: "filesystem \<Rightarrow> bool" where
  "writable_tree fs \<longleftrightarrow> distinct (map fst fs)
     \<and> (\<forall>k \<in> fst ` set fs. k \<noteq> [] \<and> resolve k = k \<and> writable_dir fs (butlast k))"

definition without :: "path set \<Rightarrow> filesystem \<Rightarrow> filesystem" where
  "without S fs = filter (\<lambda>(k, n). k \<notin> S) fs"

lemma map_of_without: "map_of (without S fs) q = (if q \<in> S then None else map_of fs q)"
  by (induction fs) (auto simp: without_def)

lemma delete_without: "AList.delete k fs = without {k} fs"
  by (auto simp: without_def AList.delete_eq intro: filter_cong)

lemma without_without: "without S (without T fs) = without (S \<union> T) fs"
  by (auto simp: without_def intro: filter_cong)

lemma keys_without: "fst ` set (without S fs) = fst ` set fs - S"
  by (auto simp: without_def)

lemma strict_prefix_less: "strict_prefix k (c :: 'a::linorder list) \<Longrightarrow> k < c"
  by (erule strict_prefixE') (simp add: list_less_def lexord_append_rightI)

lemma take_strict_prefix: "length r < length k \<and> take (length r) k = r \<longleftrightarrow> strict_prefix r k"
  by (metis append_take_drop_id leD nat_less_le prefixI prefix_length_less strict_prefix_def take_all
      append_eq_conv_conj prefix_def)

lemma has_children_iff: "has_children fs q \<longleftrightarrow> (\<exists>c \<in> fst ` set fs. strict_prefix q c)"
  by (force simp: has_children_def list_ex_iff take_strict_prefix)

text \<open>Removing paths so that none is left without what it lies in.\<close>

lemma writable_tree_without:
  assumes t: "writable_tree fs" and c: "\<forall>k \<in> S. \<forall>c \<in> fst ` set fs. strict_prefix k c \<longrightarrow> c \<in> S"
  shows "writable_tree (without S fs)"
proof -
  have "writable_dir (without S fs) (butlast k)" if k: "k \<in> fst ` set fs" "k \<notin> S" for k
  proof -
    have k': "k \<noteq> []" "writable_dir fs (butlast k)" using t k by (auto simp: writable_tree_def)
    then have "strict_prefix (butlast k) k" by (metis append_butlast_last_id strict_prefixI' )
    then have "butlast k \<notin> S" using c k by blast
    then show ?thesis
      using k'(2) by (cases "butlast k = []") (simp_all add: writable_dir_def entry_def map_of_without)
  qed
  moreover have "distinct (map fst (without S fs))"
    using t by (simp add: writable_tree_def without_def distinct_map_filter)
  ultimately show ?thesis using t by (auto simp: writable_tree_def keys_without)
qed

lemma remove_leaf:
  assumes t: "writable_tree fs" and k: "k \<in> fst ` set fs" and p: "resolve p = k" and n: "\<not> has_children fs k"
  shows "fs_remove p fs = (Inr True, without {k} fs)"
proof -
  have k': "k \<noteq> []" "writable_dir fs (butlast k)" using t k by (auto simp: writable_tree_def)
  then have "p \<noteq> []" using p by (auto simp: resolve_def)
  obtain x where "map_of fs k = Some x" using k by (metis domD dom_map_of_conv_image_fst)
  then show ?thesis
    using k' p n \<open>p \<noteq> []\<close>
    by (simp add: fs_simps lookup_def entry_def parent_writable_def delete_without split: node.split)
qed

lemma remove_in_order:
  "writable_tree fs \<Longrightarrow> sorted_wrt (>) ks \<Longrightarrow> set ks \<subseteq> fst ` set fs \<Longrightarrow>
    \<forall>k \<in> set ks. \<forall>c \<in> fst ` set fs. strict_prefix k c \<longrightarrow> c \<in> set ks \<Longrightarrow>
    for_each (\<lambda>k. bnd (fs_remove k) (\<lambda>_. ret ())) ks fs = (Inr (), without (set ks) fs)"
proof (induction ks arbitrary: fs)
  case Nil
  then show ?case by (simp add: ret_exec without_def)
next
  case (Cons k ks)
  have nc: "\<not> has_children fs k"
    using Cons.prems(2,4) strict_prefix_less by (fastforce simp: has_children_iff)
  have k: "k \<in> fst ` set fs" "resolve k = k" using Cons.prems(1,3) by (auto simp: writable_tree_def)
  let ?fs = "without {k} fs"
  have "\<forall>k' \<in> {k}. \<forall>c \<in> fst ` set fs. strict_prefix k' c \<longrightarrow> c \<in> {k}"
    using nc by (auto simp: has_children_iff)
  then have t: "writable_tree ?fs" by (rule writable_tree_without [OF Cons.prems(1)])
  have ks: "k \<notin> set ks" using Cons.prems(2) by auto
  have "for_each (\<lambda>k. bnd (fs_remove k) (\<lambda>_. ret ())) ks ?fs = (Inr (), without (set ks) ?fs)"
  proof (rule Cons.IH [OF t])
    show "sorted_wrt (>) ks" using Cons.prems(2) by simp
    show "set ks \<subseteq> fst ` set ?fs" using Cons.prems(3) ks by (auto simp: keys_without)
    show "\<forall>k' \<in> set ks. \<forall>c \<in> fst ` set ?fs. strict_prefix k' c \<longrightarrow> c \<in> set ks"
      using Cons.prems(4) by (auto simp: keys_without)
  qed
  moreover have "bnd (fs_remove k) (\<lambda>_. ret ()) fs = (Inr (), ?fs)"
    using remove_leaf [OF Cons.prems(1) k nc] by (simp add: bnd_exec ret_exec)
  ultimately show ?case
    by (simp add: bnd_exec [of "bnd (fs_remove k) (\<lambda>_. ret ())"] without_without)
qed

text \<open>What a path lies in is a directory.\<close>

lemma writable_tree_above:
  assumes "writable_tree fs"
  shows "k \<in> fst ` set fs \<Longrightarrow> strict_prefix r k \<Longrightarrow> r \<noteq> [] \<Longrightarrow> \<exists>pm. map_of fs r = Some (Directory pm)"
proof (induction k rule: length_induct)
  case (1 k)
  have k: "k \<noteq> []" "writable_dir fs (butlast k)" using assms 1 by (auto simp: writable_tree_def)
  have pr: "prefix r (butlast k)" using "1.prems"(2) k(1)
    by (metis append_butlast_last_id prefix_order.less_le prefix_snoc)
  have b: "butlast k \<noteq> []" using pr "1.prems"(3) by auto
  then obtain pm where pm: "map_of fs (butlast k) = Some (Directory pm)"
    using k(2) by (auto simp: writable_dir_def entry_def split: option.splits node.splits)
  show ?case
  proof (cases "r = butlast k")
    case True
    then show ?thesis using pm by blast
  next
    case False
    then have "strict_prefix r (butlast k)" using pr by (simp add: strict_prefix_def)
    moreover have "butlast k \<in> fst ` set fs" using pm by (metis map_of_eq_None_iff option.distinct(1))
    moreover have "length (butlast k) < length k" using k(1) by simp
    ultimately show ?thesis using "1.IH" "1.prems"(3) by blast
  qed
qed


lemma without_cong:
  "(\<And>k. k \<in> fst ` set fs \<Longrightarrow> k \<in> S \<longleftrightarrow> k \<in> T) \<Longrightarrow> without S fs = without T fs"
  by (force simp: without_def intro!: filter_cong)

lemma without_none: "(\<And>k. k \<in> fst ` set fs \<Longrightarrow> k \<notin> S) \<Longrightarrow> without S fs = fs"
  by (force simp: without_def intro!: filter_True)

lemma key_iff: "k \<in> fst ` set fs \<longleftrightarrow> map_of fs k \<noteq> None"
  by (metis map_of_eq_None_iff)

lemma remove_all_exec:
  assumes t: "writable_tree fs" and p: "resolve p \<noteq> []"
  shows "fs_remove_all p fs = (Inr (), without {k. prefix (resolve p) k} fs)"
proof -
  let ?r = "resolve p" and ?remove = "\<lambda>k. bnd (fs_remove k) (\<lambda>_. ret ())"
  have l: "lookup fs p = map_of fs ?r" using p by (auto simp: lookup_def entry_def resolve_def)
  consider (none) "map_of fs ?r = None" | (reg) pm s u where "map_of fs ?r = Some (Regular pm s u)"
    | (dir) pm where "map_of fs ?r = Some (Directory pm)"
    by (metis node.exhaust option.exhaust)
  then show ?thesis
  proof cases
    case none
    then have "k \<notin> {k. prefix ?r k}" if "k \<in> fst ` set fs" for k
      using writable_tree_above [OF t that _ p] that none
      by (cases "k = ?r") (auto simp: strict_prefix_def key_iff)
    then have "without {k. prefix ?r k} fs = fs" by (rule without_none)
    then show ?thesis by (simp add: fs_remove_all_def exec_simps fs_simps l none)
  next
    case reg
    have k: "?r \<in> fst ` set fs" by (simp add: key_iff reg)
    have nc: "\<not> has_children fs ?r"
      using writable_tree_above [OF t _ _ p] reg by (auto simp: has_children_iff)
    then have "without {?r} fs = without {k. prefix ?r k} fs"
      by (intro without_cong) (auto simp: has_children_iff strict_prefix_def)
    then show ?thesis
      using remove_leaf [OF t k refl nc] by (simp add: fs_remove_all_def exec_simps l reg)
  next
    case dir
    define ks where "ks = rev (sort (filter (\<lambda>k. strict_prefix ?r k) (map fst fs)))"
    have sk: "set ks = {k \<in> fst ` set fs. strict_prefix ?r k}" by (auto simp: ks_def)
    have s: "sorted_wrt (>) ks"
      using t by (simp add: ks_def sorted_wrt_rev strict_sorted_iff writable_tree_def)
    let ?fs = "without (set ks) fs"
    have c: "\<forall>k \<in> set ks. \<forall>c \<in> fst ` set fs. strict_prefix k c \<longrightarrow> c \<in> set ks"
      using prefix_order.less_trans by (auto simp: sk)
    have each: "for_each ?remove ks fs = (Inr (), ?fs)"
      by (rule remove_in_order [OF t s _ c]) (auto simp: sk)
    have "?r \<in> fst ` set ?fs" by (simp add: keys_without sk key_iff dir)
    moreover have "\<not> has_children ?fs ?r" by (auto simp: has_children_iff keys_without sk)
    ultimately have last: "fs_remove p ?fs = (Inr True, without {?r} ?fs)"
      by (rule remove_leaf [OF writable_tree_without [OF t c] _ refl])
    have "without {?r} ?fs = without {k. prefix ?r k} fs"
      unfolding without_without by (rule without_cong) (auto simp: sk strict_prefix_def)
    moreover have "fs_remove_all p fs = for_each ?remove (ks @ [p]) fs"
      by (simp add: fs_remove_all_def exec_simps l dir ks_def take_strict_prefix)
    ultimately show ?thesis
      by (simp add: for_each_append bnd_exec [of "for_each ?remove ks"] each)
        (simp add: bnd_exec ret_exec last)
  qed
qed

text \<open>The bookkeeping folder of a managed folder.\<close>

definition bookkeeping :: "path \<Rightarrow> path" where
  "bookkeeping folder = resolve folder @ [''.wnts'']"

lemma resolve_bookkeeping: "resolve (path_div folder [''.wnts'']) = bookkeeping folder"
proof (cases folder rule: rev_cases)
  case (snoc q f)
  then show ?thesis by (simp add: path_div_def is_absolute_def resolve_def bookkeeping_def)
qed (simp add: path_div_def is_absolute_def resolve_def bookkeeping_def)

lemma setup_sweeper_exec:
  "writable_tree (files w) \<Longrightarrow> setup_sweeper fds w
    = (Inr (), w\<lparr>files := without {k. \<exists>f \<in> set fds. prefix (bookkeeping f) k} (files w)\<rparr>)"
proof (induction fds arbitrary: w)
  case Nil
  then show ?case by (simp add: setup_sweeper_def ret_exec without_def)
next
  case (Cons f fds)
  let ?S = "{k. prefix (bookkeeping f) k}"
  let ?w = "w\<lparr>files := without ?S (files w)\<rparr>"
  have ra: "fs_remove_all (path_div f [''.wnts'']) (files w) = (Inr (), without ?S (files w))"
    using remove_all_exec [OF Cons.prems, of "path_div f [''.wnts'']"]
    by (simp add: resolve_bookkeeping) (simp add: bookkeeping_def)
  have "\<forall>k \<in> ?S. \<forall>c \<in> fst ` set (files w). strict_prefix k c \<longrightarrow> c \<in> ?S"
    using prefix_order.trans strict_prefix_def by blast
  then have "writable_tree (files ?w)" using writable_tree_without [OF Cons.prems] by simp
  then have "setup_sweeper fds ?w
      = (Inr (), ?w\<lparr>files := without {k. \<exists>f \<in> set fds. prefix (bookkeeping f) k} (files ?w)\<rparr>)"
    by (rule Cons.IH)
  moreover have "{k. \<exists>f' \<in> set fds. prefix (bookkeeping f') k} \<union> ?S
      = {k. \<exists>f' \<in> set (f # fds). prefix (bookkeeping f') k}"
    by auto
  ultimately show ?case
    by (simp add: setup_sweeper_def bnd_exec on_files_exec ra without_without)
qed


text \<open>C27: The start of the sweeper removes, for every managed folder, the folder \<open>.wnts\<close> in it with everything
  below, whatever its depth, and nothing else.\<close>

theorem setup_removes_the_bookkeeping:
  assumes "writable_tree (files w)"
  shows "\<exists>fs. setup_sweeper fds w = (Inr (), w\<lparr>files := fs\<rparr>)
    \<and> (\<forall>q. map_of fs q =
        (if \<exists>f \<in> set fds. prefix (resolve f @ [''.wnts'']) q then None else map_of (files w) q))"
  unfolding setup_sweeper_exec [OF assms, of fds]
  by (rule exI, rule conjI, rule refl) (simp add: map_of_without bookkeeping_def)

lemma writable_tree_kept: "writable_tree (files kept_world)"
  by (simp add: writable_tree_def kept_world_def resolve_def writable_dir_def entry_def)

theorem setup_removes_the_bookkeeping_witness:
  "\<exists>fs. setup_sweeper [[''d'']] kept_world = (Inr (), kept_world\<lparr>files := fs\<rparr>)
    \<and> map_of fs [''d'', ''.wnts''] = None \<and> map_of fs [''d'', ''f''] = Some (Regular 0x1A4 ''old'' 0)"
proof -
  have "map_of (files kept_world) [''d'', ''f''] = Some (Regular 0x1A4 ''old'' 0)"
    by (simp add: kept_world_def)
  then show ?thesis
    using setup_removes_the_bookkeeping [OF writable_tree_kept, of "[[''d'']]"]
    by (auto simp: resolve_def)
qed

text \<open>The lock files and saved hashes of a nested managed folder survive the start of the sweeper:
  they lie in \<open>.wnts\<close> after the first element of their path, not in the folder itself, so a lock of
  an earlier run still holds.\<close>

lemma nested_bookkeeping_survives:
  assumes "writable_tree (files w)" and "managed p" and "prefix f p" and "resolve f = f"
    and "2 \<le> length f" and "wntsPath p = Some wp"
  shows "\<exists>fs. setup_sweeper [f] w = (Inr (), w\<lparr>files := fs\<rparr>)
    \<and> map_of fs (the_lock_path p) = map_of (files w) (the_lock_path p)
    \<and> map_of fs wp = map_of (files w) wp"
proof -
  have fp: "file_path p" and g: "''.wnts'' \<notin> set p" using assms(2) by (simp_all add: managed_def is_good_iff)
  obtain e es n where p: "p = e # es @ [n]" "name_ok n" "\<forall>x \<in> set es. name_ok x"
    using fp by (rule file_path_split)
  have wf: "wf_path p" using wf_path_file_path [OF fp] .
  have lp: "the_lock_path p = e # ''.wnts'' # es @ [''.lock.'' @ n]"
    using lockFilePath_eq [OF p(2) _ p(3)] wf p(1) by (simp add: the_lock_path_def)
  have wp: "wp = e # ''.wnts'' # es @ [n]" using wntsPath_eq wf p(1) assms(6) by simp
  obtain x y f' where f: "f = x # y # f'" using assms(5) by (metis Suc_le_length_iff numeral_2_eq_2)
  have "y \<in> set p" using assms(3) f by (auto dest: set_mono_prefix)
  then have "y \<noteq> ''.wnts''" using g by blast
  then have "\<not> prefix (bookkeeping f) (the_lock_path p)" "\<not> prefix (bookkeeping f) wp"
    using assms(4) by (simp_all add: bookkeeping_def lp wp) (simp_all add: f)
  then have "map_of (without {k. \<exists>f' \<in> set [f]. prefix (bookkeeping f') k} (files w)) q = map_of (files w) q"
    if "q = the_lock_path p \<or> q = wp" for q
    using that by (auto simp: map_of_without)
  then show ?thesis using setup_sweeper_exec [OF assms(1), of "[f]"] by blast
qed


end
