(* ===== verification/Joining.thy ===== *)
theory Joining
  imports Changes Sending
begin

text \<open>
  A node joins the network: the process it connects to accepts the connection and tells it about its
  backups and the managed folders (\<open>src/src/peer_manager.hpp\<close>), and later sends it every managed
  file (\<open>src/src/message_manager.cpp\<close>).
\<close>

section \<open>Accepting a connection\<close>

lemma link_to_new:
  assumes "\<forall>q \<in> set ps. remoteIP q \<noteq> d \<and> socketIP q \<noteq> d"
  shows "link_to d (emplace_peer grow (ask_ip (new_peer d port)) (map (\<lambda>q. ask_port (ask_ip q)) ps)) = Some d"
proof -
  have "find (\<lambda>q. remoteIP q = d) qs = None" if "\<forall>q \<in> set qs. remoteIP q \<noteq> d" for qs :: "peer list"
    using that by (simp add: find_None_iff)
  moreover have "find P (qs @ [x]) = (case find P qs of None \<Rightarrow> if P x then Some x else None | Some y \<Rightarrow> Some y)"
    for P qs and x :: peer
    by (induction qs) auto
  ultimately show ?thesis
    using assms by (simp add: link_to_def emplace_peer_def move_new_def)
qed

text \<open>The process after it has accepted a connection and told the new node \<open>x\<close>.\<close>

definition after_accept :: "lib \<Rightarrow> bool \<Rightarrow> ip_address \<Rightarrow> 16 word \<Rightarrow> ConnectMessage \<Rightarrow> world \<Rightarrow> world" where
  "after_accept L grow ip port x w =
     (sent_to_one L (MConnect x) ip ip
        (w\<lparr>peers := emplace_peer grow (ask_ip (new_peer ip port)) (map (\<lambda>q. ask_port (ask_ip q)) (peers w))\<rparr>))
     \<lparr>messageQueue := messageQueue w
        @ [(disconnectPriority, MBase ((new_Message initialSyncRequest)\<lparr>originatorNode := ip\<rparr>))]\<rparr>"

text \<open>\<open>x\<close> lists the addresses of all peers and the managed folders.\<close>

definition introduces :: "ip_address \<Rightarrow> world \<Rightarrow> ConnectMessage \<Rightarrow> bool" where
  "introduces ip w x \<longleftrightarrow> backupPeers x = map (\<lambda>q. (remoteIP q, remotePort q)) (peers w)
     \<and> managedPaths x = folders w \<and> receiverNode x = ip \<and> originatorNode x = self_ip w"

lemma accept_exec:
  assumes "cache_ok w" and "\<not> is_broadcast ip" and "\<not> is_self (self_ip w) ip"
    and "\<forall>q \<in> set (peers w). remoteIP q \<noteq> ip \<and> socketIP q \<noteq> ip"
  shows "\<exists>x. accept_connection L grow ip port w = (Inr (), after_accept L grow ip port x w) \<and> introduces ip w x"
proof -
  let ?ps = "emplace_peer grow (ask_ip (new_peer ip port)) (map (\<lambda>q. ask_port (ask_ip q)) (peers w))"
  let ?w1 = "w\<lparr>peers := ?ps\<rparr>"
  let ?m = "MConnect (Message.extend (new_Message connect)
      (ConnectMessage.fields (map (\<lambda>q. (remoteIP q, remotePort q)) (peers w)) (folders w)))"
  have "linked ip ip ?w1"
    using link_to_new [OF assms(4)] assms(2,3) by (simp add: linked_def)
  moreover have "cache_ok ?w1" using assms(1) by (simp add: cache_ok_def)
  ultimately obtain t where t: "sendMessage L ?m ip ?w1 = (Inr (), sent_to_one L (outgoing L t ?w1 ?m ip) ip ip ?w1)"
    using send_direct [of ?w1 ip ip L ?m] by blast
  obtain x where x: "outgoing L t ?w1 ?m ip = MConnect x" "introduces ip w x"
    by (simp add: introduces_def outgoing_def Let_def add_routing_def set_hash_def on_base_def Message.defs
        ConnectMessage.defs new_Message_def)
  have "accept_connection L grow ip port w = (Inr (), after_accept L grow ip port x w)"
    using t by (simp add: accept_connection_def exec_simps x(1) pq_emplace_def sent_to_one_def after_accept_def)
  with x(2) show ?thesis by blast
qed

lemma after_accept_simps [simp]:
  "messageQueue (after_accept L grow ip port x w) = messageQueue w
      @ [(disconnectPriority, MBase ((new_Message initialSyncRequest)\<lparr>originatorNode := ip\<rparr>))]"
  "outbox (after_accept L grow ip port x w) = outbox w @ [(ip, save_any L (MConnect x))]"
  "self_ip (after_accept L grow ip port x w) = self_ip w"
  "folders (after_accept L grow ip port x w) = folders w"
  "map socketIP (peers (after_accept L grow ip port x w)) = map socketIP (peers w) @ [ip]"
  by (auto simp: after_accept_def sent_to_one_def emplace_peer_def move_new_def comp_def)

text \<open>A node that connects is added to the peers, is sent exactly one message, which lists the addresses
  of all peers before it and the managed folders, and the request to send it all files is queued.\<close>

lemma accepted_peer_is_told:
  assumes "cache_ok w" and "\<not> is_broadcast ip" and "\<not> is_self (self_ip w) ip"
    and "\<forall>q \<in> set (peers w). remoteIP q \<noteq> ip \<and> socketIP q \<noteq> ip"
  shows "\<exists>w' m. accept_connection L grow ip port w = (Inr (), w')
    \<and> map socketIP (peers w') = map socketIP (peers w) @ [ip]
    \<and> outbox w' = outbox w @ [(ip, save_any L (MConnect m))]
    \<and> backupPeers m = map (\<lambda>q. (remoteIP q, remotePort q)) (peers w)
    \<and> managedPaths m = folders w \<and> receiverNode m = ip \<and> originatorNode m = self_ip w
    \<and> messageQueue w' = messageQueue w
        @ [(disconnectPriority, MBase ((new_Message initialSyncRequest)\<lparr>originatorNode := ip\<rparr>))]"
  using accept_exec [OF assms, of L grow port] by (auto simp: introduces_def)


section \<open>Sending the files\<close>

text \<open>What a stream reads from a file.\<close>

definition content_read :: "filesystem \<Rightarrow> path \<Rightarrow> string option" where
  "content_read fs p = (case lookup fs p of
       Some (Regular pm s _) \<Rightarrow> if pm AND owner_read \<noteq> 0 then Some s else None | _ \<Rightarrow> None)"

lemma read_content: "read_file p fs = (Inr (content_read fs p), fs)"
  by (simp add: read_file_exec content_read_def)

text \<open>A file with content \<open>c\<close> that is not locked, is readable, and holds no NUL.\<close>

definition plain_file :: "filesystem \<Rightarrow> path \<Rightarrow> string \<Rightarrow> bool" where
  "plain_file fs p c \<longleftrightarrow> (case lockFilePath p of None \<Rightarrow> False | Some lp \<Rightarrow> lookup fs lp = None)
     \<and> path_fits p \<and> lexically_normal p = p
     \<and> content_read fs p = Some c \<and> CHR 0x00 \<notin> set c \<and> length c < 2 ^ 64"

text \<open>The readings of the clock that stamp \<open>n\<close> files in a row, from the reading \<open>k\<close> on: two more readings
  follow each of them, for the hash.\<close>

definition stamp_readings :: "nat \<Rightarrow> nat \<Rightarrow> nat list" where
  "stamp_readings k n = map (\<lambda>i. k + 3 * i) [0..<n]"

lemma stamp_readings_Suc: "set (stamp_readings k (Suc n)) = insert k (set (stamp_readings (k + 3) n))"
  by (simp add: stamp_readings_def upt_conv_Cons map_Suc_upt [symmetric] del: upt_Suc)
    (simp add: image_image ac_simps)

text \<open>The message that carries the content \<open>c\<close> of \<open>p\<close>, one of \<open>n\<close> files, to \<open>d\<close>.  It is stamped with one
  of the readings \<open>J\<close> of the clock \<open>C\<close>, and its hash is computed from the two readings after that.\<close>

definition stamped_by :: "lib \<Rightarrow> (nat \<Rightarrow> int) \<Rightarrow> nat list \<Rightarrow> FileInitialSyncMessage \<Rightarrow> bool" where
  "stamped_by L C J x \<longleftrightarrow> (\<exists>j \<in> set J. timestamp x = C j
     \<and> messageHash x = msg_hash L (to_time_t (C j) (C (Suc j)) (C (Suc (Suc j)))) (MSync x))"

definition carries ::
    "lib \<Rightarrow> (nat \<Rightarrow> int) \<Rightarrow> nat list \<Rightarrow> ip_address \<Rightarrow> size_t \<Rightarrow> path \<Rightarrow> string \<Rightarrow> FileInitialSyncMessage \<Rightarrow> bool" where
  "carries L C J d n p c x \<longleftrightarrow> targetFile x = p \<and> fileContent x = c \<and> total x = n \<and> receiverNode x = d
     \<and> fits (MSync x) \<and> mtype x = type_code initialSync \<and> stamped_by L C J x"

lemma carries_mono: "carries L C J d n p c x \<Longrightarrow> set J \<subseteq> set K \<Longrightarrow> carries L C K d n p c x"
  by (auto simp: carries_def stamped_by_def)

text \<open>A process that can send to its neighbour \<open>d\<close> over the socket to \<open>s\<close>.\<close>

definition sends_to :: "ip_address \<Rightarrow> ip_address \<Rightarrow> world \<Rightarrow> bool" where
  "sends_to d s w \<longleftrightarrow> cache_ok w \<and> linked d s w \<and> isValid d \<and> isValid (self_ip w)"

lemma getline_plain: "CHR 0x00 \<notin> set c \<Longrightarrow> getline_nul (Some c) = c"
  by (auto simp: getline_nul_def takeWhile_eq_all_conv)

lemma send_sync_exec:
  assumes w: "sends_to d s w" and f: "plain_file (files w) p c" and tf: "time_fits (clock w (ticks w))"
  shows "\<exists>w' x. send_sync L d n (i, p) w = (Inr (), w') \<and> sends_to d s w' \<and> files w' = files w \<and> clock w' = clock w
    \<and> ticks w' = ticks w + 3
    \<and> outbox w' = outbox w @ [(s, save_any L (MSync x))] \<and> carries L (clock w) [ticks w] d n p c x"
proof -
  obtain lp where lp: "lockFilePath p = Some lp" "lookup (files w) lp = None"
    and c: "content_read (files w) p = Some c" "getline_nul (Some c) = c"
    using f getline_plain by (auto simp: plain_file_def split: option.splits)
  let ?ts = "clock w (ticks w)" and ?w1 = "w\<lparr>ticks := Suc (ticks w)\<rparr>"
  let ?m = "sync_message p ?ts c n (of_nat i)"
  have w1: "cache_ok ?w1" "linked d s ?w1" using w by (simp_all add: sends_to_def cache_ok_def linked_def)
  let ?t = "to_time_t ?ts (clock w (Suc (ticks w))) (clock w (Suc (Suc (ticks w))))"
  have "drawn_time ?m ?w1 = ?t"
    by (simp add: drawn_time_def sync_message_def new_File_def Message.defs FileMessage.defs
        FileContentMessage.defs FileInitialSyncMessage.defs)
  then have t: "sendMessage L ?m d ?w1 = (Inr (), sent_to_one L (outgoing L ?t ?w1 ?m d) d s ?w1)"
    using send_direct [OF w1, of L ?m] by simp
  have "fits (outgoing L ?t ?w1 ?m d)"
    using f w tf by (simp add: outgoing_def Let_def add_routing_def on_base_def sync_message_def new_File_def
        new_Message_def plain_file_def sends_to_def base_fits_def isValid_def Message.defs FileMessage.defs
        FileContentMessage.defs FileInitialSyncMessage.defs)
  moreover have "messageHash (header (outgoing L ?t ?w1 ?m d)) = msg_hash L ?t (outgoing L ?t ?w1 ?m d)"
    by (simp add: outgoing_def Let_def)
  ultimately obtain x where x: "outgoing L ?t ?w1 ?m d = MSync x" "fits (MSync x)" "targetFile x = p"
    "fileContent x = c" "total x = n" "receiverNode x = d" "mtype x = type_code initialSync" "timestamp x = ?ts"
    "messageHash (header (MSync x)) = msg_hash L ?t (MSync x)"
    by (simp add: outgoing_def Let_def add_routing_def set_hash_def on_base_def sync_message_def new_File_def
        new_Message_def Message.defs FileMessage.defs FileContentMessage.defs FileInitialSyncMessage.defs)
  then have car: "carries L (clock w) [ticks w] d n p c x"
    by (auto simp: carries_def stamped_by_def Message.defs)
  let ?w2 = "sent_to_one L (MSync x) d s ?w1"
  have w2: "cache_ok ?w2" "linked d s ?w2" "files ?w2 = files w" "self_ip ?w2 = self_ip w"
    "clock ?w2 = clock w" "outbox ?w2 = outbox w @ [(s, save_any L (MSync x))]" "ticks ?w2 = ticks w + 3"
    using w1 cache_ok_remember [OF w1(1)]
    by (simp_all add: sent_to_one_def cache_ok_def readings_def) (simp_all add: linked_def asked_for_def)
  have rd: "on_files (read_file p) ?w1 = (Inr (Some c), ?w1)"
    by (simp add: on_files_exec read_content c(1))
  have ex: "on_files (fs_exists lp) ?w2 = (Inr False, ?w2)"
    using lp(2) w2(3) by (simp add: on_files_exec exists_exec)
  have "send_sync L d n (i, p) w = (Inr (), ?w2)"
    using t lp(1)
    by (simp add: send_sync_def bnd_exec now_exec rd ex c(2) x(1) the_lockFilePath_def need_def ret_exec)
  then show ?thesis using w w2 car by (auto simp: sends_to_def)
qed

lemma send_syncs_exec:
  "sends_to d s w \<Longrightarrow> \<forall>p \<in> snd ` set ips. plain_file (files w) p (c p) \<Longrightarrow>
    \<forall>j \<in> set (stamp_readings (ticks w) (length ips)). time_fits (clock w j) \<Longrightarrow>
    \<exists>w' xs. for_each (send_sync L d n) ips w = (Inr (), w')
      \<and> outbox w' = outbox w @ map (\<lambda>x. (s, save_any L (MSync x))) xs
      \<and> list_all2 (\<lambda>p x. carries L (clock w) (stamp_readings (ticks w) (length ips)) d n p (c p) x) (map snd ips) xs"
proof (induction ips arbitrary: w)
  case Nil
  then show ?case by (simp add: ret_exec)
next
  case (Cons ip ips)
  obtain i p where ip: "ip = (i, p)" by (cases ip)
  let ?J = "stamp_readings (ticks w) (length (ip # ips))" and ?K = "stamp_readings (ticks w + 3) (length ips)"
  have J: "set ?J = insert (ticks w) (set ?K)" by (simp add: stamp_readings_Suc)
  have "plain_file (files w) p (c p)" "time_fits (clock w (ticks w))" using Cons.prems(2,3) J ip by simp_all
  then obtain w1 x where w1: "send_sync L d n (i, p) w = (Inr (), w1)" "sends_to d s w1" "files w1 = files w"
    "clock w1 = clock w" "ticks w1 = ticks w + 3" "outbox w1 = outbox w @ [(s, save_any L (MSync x))]"
    "carries L (clock w) [ticks w] d n p (c p) x"
    using send_sync_exec [OF Cons.prems(1)] by meson
  obtain w' xs where w': "for_each (send_sync L d n) ips w1 = (Inr (), w')"
    "outbox w' = outbox w1 @ map (\<lambda>x. (s, save_any L (MSync x))) xs"
    "list_all2 (\<lambda>p x. carries L (clock w) ?K d n p (c p) x) (map snd ips) xs"
    using Cons.IH [OF w1(2)] Cons.prems(2,3) J w1(3,4,5) by auto
  have "list_all2 (\<lambda>p x. carries L (clock w) ?J d n p (c p) x) (map snd ips) xs"
    using w'(3) by (rule list_all2_mono) (rule carries_mono, use J in auto)
  moreover have "carries L (clock w) ?J d n p (c p) x"
    using w1(7) by (rule carries_mono) (use J in auto)
  ultimately show ?case
    using w1(1,6) w'(1,2) by (intro exI [of _ w'] exI [of _ "x # xs"]) (simp add: ip bnd_exec)
qed


section \<open>The messages that answer a request\<close>

text \<open>A message as it is loaded.\<close>

definition loaded :: "FileInitialSyncMessage \<Rightarrow> FileInitialSyncMessage" where
  "loaded x = x\<lparr>senderNode := ipv6Unspecified, targetFile := lexically_normal (targetFile x),
     timestamp := whole_seconds (timestamp x)\<rparr>"

lemma load_loaded:
  assumes "lib_laws L" and "fits (MSync x)"
  shows "load_Sync L (save_any L (MSync x)) = Some (loaded x, [])"
  using lib_laws.load_save_any [OF assms, of "[]"] by (auto simp: loaded_def)

lemma request_is_answered:
  assumes "sends_to d s w" and "isFinishedConnecting w" and "originatorNode req = d"
    and "enumerateAllFiles (folders w) (files w) = (Inr paths, files w)"
    and "\<forall>p \<in> set paths. plain_file (files w) p (c p)"
    and "\<forall>j \<in> set (stamp_readings (ticks w) (length paths)). time_fits (clock w j)"
  shows "\<exists>w' xs. processInitialFileSyncRequestMessage L req w = (Inr True, w')
    \<and> outbox w' = outbox w @ map (\<lambda>x. (s, save_any L (MSync x))) xs
    \<and> list_all2 (\<lambda>p x. carries L (clock w) (stamp_readings (ticks w) (length paths)) d (of_nat (length paths)) p (c p) x)
        paths xs"
proof -
  let ?n = "of_nat (length paths) :: size_t"
  have "snd ` set (List.enumerate 0 paths) = set paths"
    by (simp only: list.set_map [symmetric] map_snd_enumerate)
  then have "\<forall>p \<in> snd ` set (List.enumerate 0 paths). plain_file (files w) p (c p)"
    using assms(5) by simp
  moreover have "\<forall>j \<in> set (stamp_readings (ticks w) (length (List.enumerate 0 paths))). time_fits (clock w j)"
    using assms(6) by simp
  ultimately obtain w' xs where
    w': "for_each (send_sync L d ?n) (List.enumerate 0 paths) w = (Inr (), w')"
    "outbox w' = outbox w @ map (\<lambda>x. (s, save_any L (MSync x))) xs"
    "list_all2 (\<lambda>p x. carries L (clock w) (stamp_readings (ticks w) (length paths)) d ?n p (c p) x) paths xs"
    using send_syncs_exec [OF assms(1), of "List.enumerate 0 paths" c L ?n]
    by (simp only: map_snd_enumerate length_enumerate) blast
  have "processInitialFileSyncRequestMessage L req w = (Inr True, w')"
    using assms(2,3,4) w'(1)
    by (simp add: processInitialFileSyncRequestMessage_def bnd_exec finishedConnecting_exec gets_exec
        on_files_exec ret_exec)
  with w' show ?thesis by blast
qed


end
