(* ===== verification/Listener.thy ===== *)
theory Listener
  imports Joining
begin

text \<open>
  The listening thread that \<open>PeerManager::setup\<close> of \<open>src/src/peer_manager.hpp\<close> starts: it opens a
  socket, and until it is asked to stop it polls the socket and accepts who connects.  The socket
  library and the other threads are its environment.
\<close>

section \<open>The thread\<close>

datatype socket_call =
    InitSocket
  | BindSocket ip_address "16 word"
  | ListenSocket "8 word"

definition call_socket :: "(socket_call \<Rightarrow> string option) \<Rightarrow> socket_call \<Rightarrow> (world, unit) prog" where
  "call_socket answers c = (case answers c of None \<Rightarrow> ret () | Some msg \<Rightarrow> throw (NetworkError msg))"

text \<open>
  One iteration of the loop: what the other threads did since the last one, whether \<open>pollEvents\<close>
  fails or reports a connection, what \<open>accept\<close> then returns, and whether the vector of peers has to
  grow for it.
\<close>

record turn =
  meanwhile :: "world \<Rightarrow> world"
  poll :: "string + bool"
  incoming :: "string + ip_address \<times> 16 word"
  grows :: bool

definition listen_turn :: "lib \<Rightarrow> turn \<Rightarrow> (world, unit) prog" where
  "listen_turn L t =
     bnd (updates (meanwhile t)) (\<lambda>_.
     case poll t of
       Inl msg \<Rightarrow> throw (NetworkError msg)
     | Inr ready \<Rightarrow>
         if ready
         then (case incoming t of
             Inl msg \<Rightarrow> throw (NetworkError msg)
           | Inr (ip, port) \<Rightarrow> accept_connection L (grows t) ip port)
         else ret ())"

text \<open>The thread; \<open>turns\<close> are the iterations until it sees the request to stop.\<close>

definition listening_thread ::
    "lib \<Rightarrow> (socket_call \<Rightarrow> string option) \<Rightarrow> ip_address \<Rightarrow> 16 word \<Rightarrow> 8 word \<Rightarrow> turn list \<Rightarrow> (world, unit) prog" where
  "listening_thread L answers ip port incomingConnectionCount turns =
     bnd (call_socket answers InitSocket) (\<lambda>_.
     bnd (call_socket answers (BindSocket ip port)) (\<lambda>_.
     bnd (call_socket answers (ListenSocket incomingConnectionCount)) (\<lambda>_.
     for_each (listen_turn L) turns)))"

section \<open>Who connects\<close>

fun connecting :: "turn list \<Rightarrow> (ip_address \<times> 16 word) list" where
  "connecting [] = []"
| "connecting (t # ts) = (case (poll t, incoming t) of
     (Inr True, Inr a) \<Rightarrow> a # connecting ts | _ \<Rightarrow> connecting ts)"

text \<open>A turn in which nothing fails.\<close>

definition fine :: "turn \<Rightarrow> bool" where
  "fine t \<longleftrightarrow> (case poll t of Inl _ \<Rightarrow> False | Inr ready \<Rightarrow> ready \<longrightarrow> \<not> isl (incoming t))"

text \<open>What the other threads do when they only take messages from the queue and work on files.\<close>

definition quiet :: "(world \<Rightarrow> world) \<Rightarrow> bool" where
  "quiet f \<longleftrightarrow> (\<forall>w. peers (f w) = peers w \<and> self_ip (f w) = self_ip w \<and> folders (f w) = folders w
     \<and> outbox (f w) = outbox w \<and> oldMessages (f w) = oldMessages w)"

text \<open>A peer that remembers the address its socket has, and the address.\<close>

definition honest :: "peer \<Rightarrow> bool" where
  "honest q \<longleftrightarrow> remoteIP q = socketIP q \<and> remotePort q = socketPort q"

definition address :: "peer \<Rightarrow> ip_address \<times> 16 word" where
  "address q = (socketIP q, socketPort q)"

lemma honest_kept:
  "honest (new_peer ip port)" "honest (move_new q)"
  "honest q \<Longrightarrow> honest (ask_ip q)" "honest q \<Longrightarrow> honest (ask_port q)"
proof -
  show "honest (new_peer ip port)" "honest (move_new q)" by (simp_all add: honest_def move_new_def)
qed (auto simp: honest_def ask_ip_def ask_port_def remoteIP_def remotePort_def split: if_splits)

lemma address_simps [simp]:
  "address (new_peer ip port) = (ip, port)" "address (move_new q) = address q"
  "address (ask_ip q) = address q" "address (ask_port q) = address q"
  by (simp_all add: address_def move_new_def ask_ip_def ask_port_def)

lemma ask_until_honest: "\<forall>q \<in> set ps. honest q \<Longrightarrow> \<forall>q \<in> set (ask_until ip ps). honest q"
  by (induction ps) (auto intro: honest_kept)

lemma ask_until_address [simp]: "map address (ask_until ip ps) = map address ps"
  by (induction ps) auto

text \<open>The peers are told apart by their addresses, and none of them is the process itself.\<close>

definition ready_for :: "world \<Rightarrow> ip_address list \<Rightarrow> bool" where
  "ready_for w ips \<longleftrightarrow> cache_ok w \<and> (\<forall>q \<in> set (peers w). honest q)
     \<and> distinct ips \<and> (\<forall>ip \<in> set ips. \<not> is_broadcast ip \<and> \<not> is_self (self_ip w) ip)
     \<and> set ips \<inter> socketIP ` set (peers w) = {}"

lemma after_accept_peers:
  assumes "\<forall>q \<in> set (peers w). honest q"
  shows "\<forall>q \<in> set (peers (after_accept L grow ip port x w)). honest q"
    and "map address (peers (after_accept L grow ip port x w)) = map address (peers w) @ [(ip, port)]"
proof -
  let ?ps = "emplace_peer grow (ask_ip (new_peer ip port)) (map (\<lambda>q. ask_port (ask_ip q)) (peers w))"
  have h: "\<forall>q \<in> set ?ps. honest q"
    using assms by (auto simp: emplace_peer_def intro: honest_kept)
  have a: "map address ?ps = map address (peers w) @ [(ip, port)]"
    by (auto simp: emplace_peer_def comp_def)
  show "\<forall>q \<in> set (peers (after_accept L grow ip port x w)). honest q"
    using h by (auto simp: after_accept_def sent_to_one_def asked_for_def intro: honest_kept dest: ask_until_honest)
  show "map address (peers (after_accept L grow ip port x w)) = map address (peers w) @ [(ip, port)]"
    using a by (auto simp: after_accept_def sent_to_one_def asked_for_def comp_def)
qed

lemma cache_ok_after_accept: "cache_ok w \<Longrightarrow> cache_ok (after_accept L grow ip port x w)"
  using cache_ok_remember by (auto simp: after_accept_def sent_to_one_def cache_ok_def)


section \<open>What newcomers are told\<close>

lemma quietD:
  "quiet f \<Longrightarrow> peers (f w) = peers w" "quiet f \<Longrightarrow> self_ip (f w) = self_ip w" "quiet f \<Longrightarrow> folders (f w) = folders w"
  "quiet f \<Longrightarrow> outbox (f w) = outbox w" "quiet f \<Longrightarrow> ready_for (f w) ips = ready_for w ips"
  by (simp_all add: quiet_def ready_for_def cache_ok_def)

lemma ready_for_accept:
  "ready_for w (ip # ips) \<Longrightarrow> ready_for (after_accept L grow ip port x w) ips"
proof -
  assume r: "ready_for w (ip # ips)"
  let ?v = "after_accept L grow ip port x w"
  have h: "\<forall>q \<in> set (peers w). honest q" using r by (simp add: ready_for_def)
  have "socketIP ` set (peers ?v) = set (map socketIP (peers ?v))" by (rule set_map [symmetric])
  also have "\<dots> = insert ip (socketIP ` set (peers w))"
    unfolding after_accept_simps by simp
  finally have "socketIP ` set (peers ?v) = insert ip (socketIP ` set (peers w))" .
  then show ?thesis
    using r after_accept_peers(1) [OF h] cache_ok_after_accept [of w] by (auto simp: ready_for_def)
qed

lemma addresses_of_honest:
  "\<forall>q \<in> set ps. honest q \<Longrightarrow> map (\<lambda>q. (remoteIP q, remotePort q)) ps = map address ps"
  by (auto simp: honest_def address_def)

text \<open>\<open>x\<close> is what a process with the folders \<open>fds\<close> and peers at \<open>before\<close> sends to who connects from \<open>a\<close>.\<close>

definition told :: "path list \<Rightarrow> (ip_address \<times> 16 word) list \<Rightarrow> ip_address \<times> 16 word \<Rightarrow> ConnectMessage \<Rightarrow> bool" where
  "told fds before a x \<longleftrightarrow> backupPeers x = before \<and> managedPaths x = fds \<and> receiverNode x = fst a"

lemma accept_ready:
  assumes "ready_for w (ip # ips)"
  obtains x v where "accept_connection L grow ip port w = (Inr (), v)" and "ready_for v ips"
    and "folders v = folders w" and "map address (peers v) = map address (peers w) @ [(ip, port)]"
    and "outbox v = outbox w @ [(ip, save_any L (MConnect x))]"
    and "told (folders w) (map address (peers w)) (ip, port) x"
proof -
  have h: "\<forall>q \<in> set (peers w). honest q" and c: "cache_ok w"
    and n: "\<not> is_broadcast ip" "\<not> is_self (self_ip w) ip"
    using assms by (simp_all add: ready_for_def)
  have "\<forall>q \<in> set (peers w). remoteIP q \<noteq> ip \<and> socketIP q \<noteq> ip"
    using assms h by (auto simp: ready_for_def honest_def)
  from accept_exec [OF c n this] obtain x
    where x: "accept_connection L grow ip port w = (Inr (), after_accept L grow ip port x w)" "introduces ip w x"
    by blast
  have "told (folders w) (map address (peers w)) (ip, port) x"
    using x(2) addresses_of_honest [OF h] by (simp add: told_def introduces_def)
  then show thesis
    using that [OF x(1)] ready_for_accept [OF assms] after_accept_peers(2) [OF h] by simp
qed

lemma listen_turns_exec:
  assumes "\<forall>t \<in> set ts. fine t \<and> quiet (meanwhile t)" and "ready_for w (map fst (connecting ts))"
  shows "\<exists>w' xs. for_each (listen_turn L) ts w = (Inr (), w') \<and> length xs = length (connecting ts)
    \<and> map address (peers w') = map address (peers w) @ connecting ts
    \<and> outbox w' = outbox w @ map2 (\<lambda>a x. (fst a, save_any L (MConnect x))) (connecting ts) xs
    \<and> (\<forall>i < length xs. told (folders w) (map address (peers w) @ take i (connecting ts)) (connecting ts ! i) (xs ! i))"
  using assms
proof (induction ts arbitrary: w)
  case Nil
  then show ?case by (simp add: ret_exec)
next
  case (Cons t ts)
  let ?w = "meanwhile t w"
  have q: "quiet (meanwhile t)" "fine t" using Cons.prems(1) by simp_all
  obtain ready where ready: "poll t = Inr ready" using q(2) by (auto simp: fine_def split: sum.splits)
  show ?case
  proof (cases ready)
    case False
    have "for_each (listen_turn L) (t # ts) w = for_each (listen_turn L) ts ?w"
      using ready False by (simp add: listen_turn_def exec_simps)
    moreover have "connecting (t # ts) = connecting ts" using ready False by simp
    ultimately show ?thesis
      using Cons.IH [of ?w] Cons.prems q by (simp add: quietD)
  next
    case True
    obtain ip port where a: "incoming t = Inr (ip, port)"
      using q(2) ready True by (cases "incoming t") (auto simp: fine_def)
    have c: "connecting (t # ts) = (ip, port) # connecting ts" using ready True a by simp
    then have "ready_for ?w (ip # map fst (connecting ts))" using Cons.prems(2) q(1) by (simp add: quietD)
    from accept_ready [OF this, of L "grows t" port, unfolded quietD(1-4) [OF q(1)]] obtain x v where
      v: "accept_connection L (grows t) ip port ?w = (Inr (), v)" "ready_for v (map fst (connecting ts))"
      "folders v = folders w" "map address (peers v) = map address (peers w) @ [(ip, port)]"
      "outbox v = outbox w @ [(ip, save_any L (MConnect x))]" "told (folders w) (map address (peers w)) (ip, port) x"
      by blast
    obtain w' xs where w': "for_each (listen_turn L) ts v = (Inr (), w')" "length xs = length (connecting ts)"
      "map address (peers w') = map address (peers v) @ connecting ts"
      "outbox w' = outbox v @ map2 (\<lambda>a x. (fst a, save_any L (MConnect x))) (connecting ts) xs"
      "\<forall>i < length xs. told (folders v) (map address (peers v) @ take i (connecting ts)) (connecting ts ! i) (xs ! i)"
      using Cons.IH [OF _ v(2)] Cons.prems(1) by auto
    have "for_each (listen_turn L) (t # ts) w = (Inr (), w')"
      using ready True a v(1) w'(1) by (simp add: listen_turn_def exec_simps)
    moreover have "\<forall>i < length (x # xs). told (folders w) (map address (peers w) @ take i (connecting (t # ts)))
        (connecting (t # ts) ! i) ((x # xs) ! i)"
      unfolding c using w'(5) v(3,4,6) by (auto simp: less_Suc_eq_0_disj)
    ultimately show ?thesis
      unfolding c using w'(2-4) v(4,5) by (intro exI [of _ w'] exI [of _ "x # xs"]) simp
  qed
qed

text \<open>C20: The listening thread makes a peer of everyone who connects, in that order, and sends each one message
  that lists, as the nodes to fall back on, the peers before it: those the process had and those who
  connected earlier, if the service does not fail and the other threads leave the peers alone.\<close>

theorem newcomers_fall_back_on_their_predecessors:
  assumes "answers = (\<lambda>_. None)" and "\<forall>t \<in> set ts. fine t \<and> quiet (meanwhile t)"
    and "ready_for w (map fst (connecting ts))"
  shows "\<exists>w' xs. listening_thread L answers ip port k ts w = (Inr (), w')
    \<and> map address (peers w') = map address (peers w) @ connecting ts
    \<and> outbox w' = outbox w @ map2 (\<lambda>a x. (fst a, save_any L (MConnect x))) (connecting ts) xs
    \<and> length xs = length (connecting ts)
    \<and> (\<forall>i < length xs. backupPeers (xs ! i) = map address (peers w) @ take i (connecting ts)
          \<and> managedPaths (xs ! i) = folders w)"
  using listen_turns_exec [OF assms(2,3), of L] assms(1)
  by (auto simp: listening_thread_def call_socket_def exec_simps told_def)

definition sample_turn :: "(ip_address \<times> 16 word) option \<Rightarrow> turn" where
  "sample_turn a = \<lparr>meanwhile = (\<lambda>w. w\<lparr>messageQueue := []\<rparr>), poll = Inr (a \<noteq> None),
     incoming = (case a of None \<Rightarrow> Inl ''would block'' | Some x \<Rightarrow> Inr x), grows = True\<rparr>"

theorem newcomers_fall_back_on_their_predecessors_witness:
  "\<exists>w' x y. listening_thread raw_lib (\<lambda>_. None) (IPv6 9) 1 5
       [sample_turn (Some (IPv6 7, 1)), sample_turn None, sample_turn (Some (IPv6 8, 2))] sample_world = (Inr (), w')
    \<and> outbox w' = [(IPv6 7, save_any raw_lib (MConnect x)), (IPv6 8, save_any raw_lib (MConnect y))]
    \<and> backupPeers x = [] \<and> backupPeers y = [(IPv6 7, 1)]"
proof -
  let ?ts = "[sample_turn (Some (IPv6 7, 1)), sample_turn None, sample_turn (Some (IPv6 8, 2))]"
  have "\<forall>t \<in> set ?ts. fine t \<and> quiet (meanwhile t)"
    by (simp add: sample_turn_def fine_def quiet_def)
  moreover have c: "connecting ?ts = [(IPv6 7, 1), (IPv6 8, 2)]" by (simp add: sample_turn_def)
  moreover have "ready_for sample_world (map fst [(IPv6 7, 1 :: 16 word), (IPv6 8, 2)])"
    using cache_ok_sample by (simp add: ready_for_def is_broadcast_def is_self_def)
  ultimately obtain w' xs where "listening_thread raw_lib (\<lambda>_. None) (IPv6 9) 1 5 ?ts sample_world = (Inr (), w')"
    "outbox w' = map2 (\<lambda>a x. (fst a, save_any raw_lib (MConnect x))) [(IPv6 7, 1 :: 16 word), (IPv6 8, 2)] xs"
    "length xs = 2" "\<forall>i < length xs. backupPeers (xs ! i) = take i [(IPv6 7, 1), (IPv6 8, 2)]"
    using newcomers_fall_back_on_their_predecessors [of "\<lambda>_. None" ?ts sample_world raw_lib "IPv6 9" 1 5] by auto
  moreover obtain x y where "xs = [x, y]" using \<open>length xs = 2\<close> by (auto simp: length_Suc_conv numeral_2_eq_2)
  ultimately show ?thesis by (auto simp: less_Suc_eq_0_disj)
qed

text \<open>The first poll or \<open>accept\<close> that fails throws out of the thread's function, which terminates the process.\<close>

lemma failing_accept_ends_the_process:
  assumes "for_each (listen_turn L) us w = (Inr (), v)" and "poll t = Inr True" and "incoming t = Inl msg"
    and "answers = (\<lambda>_. None)"
  shows "listening_thread L answers ip port k (us @ t # ts) w = (Inl (NetworkError msg), meanwhile t v)"
  using assms
  by (simp add: listening_thread_def call_socket_def exec_simps for_each_append listen_turn_def)

end
