(* ===== verification/Dates.thy ===== *)
theory Dates
  imports Validation
begin

text \<open>
  The hash check of file messages and the seconds of the date.  The hash of a file message contains
  the text of its date, which \<open>to_time_t\<close> of \<open>src/src/include_everywhere.hpp\<close> computes from two
  readings of the same clock, \<open>tp - now() + now()\<close>.  C++ leaves open which of the two calls is
  evaluated first.  A compiler that evaluates the second one first subtracts the later reading, so
  that a time stamp of whole seconds, as it is received, falls into the second before; the hash
  check of \<open>src/src/message_manager.hpp\<close> adds 1 for this.  Here it is shown when that is right.
\<close>

section \<open>The text of a date\<close>

definition two_digits :: "nat \<Rightarrow> string" where
  "two_digits n = [char_of (48 + n div 10), char_of (48 + n mod 10)]"

text \<open>
  \<open>std::ctime\<close> writes \<open>Www Mmm dd hh:mm:ss yyyy\<close>: two digits for the second within the minute, and a
  text before and after them that depends on the minute only.
\<close>

definition dated :: "(int \<Rightarrow> string) \<Rightarrow> (int \<Rightarrow> string) \<Rightarrow> lib \<Rightarrow> bool" where
  "dated before after L \<longleftrightarrow> (\<forall>t \<ge> 0. ctime L t
     = before (t div 60) @ two_digits (nat (t mod 60)) @ after (t div 60))"

lemma hash_str_Cons: "hash_str (c # s) = scast (byte_of_char c) + hash_str s"
  using hash_str_append [of "[c]" s] by (simp add: hash_str_def)

lemma hash_str_Nil [simp]: "hash_str [] = 0"
  by (simp add: hash_str_def)

lemma scast_digit:
  assumes "d < 10"
  shows "(scast (byte_of_char (char_of (48 + d :: nat))) :: size_t) = of_nat (48 + d)"
proof -
  have "d \<in> {0, 1, 2, 3, 4, 5, 6, 7, 8, 9}" using assms by auto
  then show ?thesis
    by (elim insertE emptyE) (simp_all add: byte_of_char_def of_char_of take_bit_eq_mod)
qed

lemma hash_two_digits: "n < 60 \<Longrightarrow> hash_str (two_digits n) = of_nat (96 + n div 10 + n mod 10)"
  by (simp add: two_digits_def hash_str_Cons scast_digit)

text \<open>The digits add up to one more than those of the second before, unless the last one is 0.\<close>

lemma digit_sum_step:
  assumes "0 < n" and "n < (60 :: nat)"
  shows "n div 10 + n mod 10 = (n - 1) div 10 + (n - 1) mod 10 + 1 \<longleftrightarrow> n mod 10 \<noteq> 0"
proof -
  obtain k where "n = Suc k" using assms(1) gr0_implies_Suc by blast
  then show ?thesis by (simp add: mod_Suc div_Suc)
qed

lemma second_before:
  assumes "s mod 60 \<noteq> 0"
  shows "(s - 1) div 60 = s div 60" and "(s - 1) mod 60 = s mod 60 - (1 :: int)"
proof -
  define q r where "q = s div 60" and "r = s mod 60"
  have s: "s = q * 60 + r" unfolding q_def r_def by simp
  have "0 \<le> r" "r < 60" unfolding r_def by (rule pos_mod_sign pos_mod_bound, simp)+
  then have r: "0 \<le> r - 1" "r - 1 < 60" using assms unfolding r_def [symmetric] by linarith+
  have e: "s - 1 = (r - 1) + q * 60" using s by simp
  show "(s - 1) div 60 = s div 60" using r unfolding q_def [symmetric] e by simp
  show "(s - 1) mod 60 = s mod 60 - 1" using r unfolding r_def [symmetric] e by simp
qed

lemma size_t_inject: "a < 2 ^ 64 \<Longrightarrow> b < 2 ^ 64 \<Longrightarrow> (of_nat a :: size_t) = of_nat b \<longleftrightarrow> a = b"
  by (simp add: word_of_nat_eq_iff take_bit_nat_eq_self)

lemma hash_date_step:
  assumes "dated before after L" and "0 < s" and "s mod 60 \<noteq> 0"
  shows "hash_str (ctime L s) = hash_str (ctime L (s - 1)) + 1 \<longleftrightarrow> s mod 10 \<noteq> 0"
proof -
  define n where "n = nat (s mod 60)"
  have s60: "s mod 60 = int n" by (simp add: n_def)
  have n: "0 < n" "n < 60" using assms(3) pos_mod_bound [of 60 s] unfolding s60 by simp_all
  have p: "nat ((s - 1) mod 60) = n - 1" using n(1) by (simp add: second_before(2) [OF assms(3)] s60)
  have ten: "s mod 10 = int (n mod 10)"
    using mod_mod_cancel [of 10 60 s] by (simp add: s60 zmod_int)
  let ?a = "n div 10 + n mod 10" and ?b = "(n - 1) div 10 + (n - 1) mod 10"
  let ?B = "hash_str (before (s div 60))" and ?A = "hash_str (after (s div 60))"
  have "hash_str (ctime L s) = ?B + (of_nat (96 + ?a) + ?A)"
    using assms(1,2) n(2) by (simp add: dated_def hash_str_append n_def [symmetric] hash_two_digits)
  moreover have "hash_str (ctime L (s - 1)) = ?B + (of_nat (96 + ?b) + ?A)"
    using assms(1,2) n(2)
    by (simp add: dated_def hash_str_append p second_before(1) [OF assms(3)] hash_two_digits)
  ultimately have "hash_str (ctime L s) = hash_str (ctime L (s - 1)) + 1
      \<longleftrightarrow> (of_nat (96 + ?a) :: size_t) = of_nat (96 + ?b + 1)"
    by (simp add: algebra_simps)
  also have "\<dots> \<longleftrightarrow> ?a = ?b + 1"
  proof -
    have "96 + ?a < 2 ^ 64" "96 + ?b + 1 < 2 ^ 64" using n by auto
    then have "(of_nat (96 + ?a) :: size_t) = of_nat (96 + ?b + 1) \<longleftrightarrow> 96 + ?a = 96 + ?b + 1"
      by (rule size_t_inject)
    then show ?thesis by (simp only: add.assoc add_left_cancel)
  qed
  finally show ?thesis using digit_sum_step [OF n] ten by simp
qed


section \<open>Which file messages pass the check\<close>

lemma earlier_second:
  assumes "0 < ts div 1000000000" and "0 < a - b" and "a - b \<le> 1000000000"
  shows "to_time_t (whole_seconds ts) a b = ts div 1000000000 - 1"
proof -
  define s where "s = ts div (1000000000 :: int)"
  define d where "d = a - b"
  have "0 \<le> ts" using assms(1) by (simp add: pos_imp_zdiv_pos_iff)
  then have s: "sys_to_time_t ts = s" by (simp add: sys_to_time_t_def tdiv_nonneg s_def)
  have d: "0 \<le> 1000000000 - d" "1000000000 - d < 1000000000" using assms(2,3) by (simp_all add: d_def)
  have e: "s * 1000000000 - a + b = (1000000000 - d) + (s - 1) * 1000000000"
    by (simp add: d_def algebra_simps)
  have "0 \<le> (s - 1) * 1000000000" using assms(1) by (simp add: s_def)
  then have "0 \<le> s * 1000000000 - a + b" unfolding e using d(1) by linarith
  moreover have "(s * 1000000000 - a + b) div 1000000000 = s - 1" unfolding e using d by simp
  ultimately show ?thesis
    unfolding to_time_t_def whole_seconds_def s sys_from_time_t_def convertTimepoint_def s_def [symmetric]
    by (simp add: sys_to_time_t_def tdiv_nonneg)
qed

text \<open>Two readings of which the one that is subtracted was taken later, less than a second before the
  other.\<close>

definition subtracts_later :: "world \<Rightarrow> bool" where
  "subtracts_later w \<longleftrightarrow> 0 < clock w (ticks w) - clock w (Suc (ticks w))
     \<and> clock w (ticks w) - clock w (Suc (ticks w)) \<le> 1000000000"

lemma accepted_by_second:
  assumes "dated before after L" and "hash_timestamp m = Some ts"
    and "s = ts div 1000000000" and "0 < s" and "s mod 60 \<noteq> 0"
    and "messageHash (header m) = msg_hash L s m" and "subtracts_later w"
  shows "accepted L m w \<longleftrightarrow> s mod 10 \<noteq> 0"
proof -
  have "arrival_time m w = s - 1"
    using earlier_second [of ts] assms(2,3,4,7) by (simp add: arrival_time_def subtracts_later_def)
  then show ?thesis
    using accepted_iff_time [OF assms(2,6)] hash_date_step [OF assms(1,4,5)] by simp
qed

text \<open>C35: When the compiler evaluates the second call of \<open>now\<close> first, an intact file message passes the check
  and is queued if the second of its time stamp does not end with 0, and every node drops it and
  requests it again if it does, whatever the message says (for the seconds 10 to 50 of a minute; at
  the full minute the rest of the date changes, too).\<close>

theorem every_tenth_second_is_rejected:
  assumes "lib_laws L" and "dated before after L" and "fits m" and "well_typed m" and "paths_normal m"
    and "msg_kind m = Some k" and "wire_priority k = Some p" and "hash_timestamp m = Some ts"
    and "s = ts div 1000000000" and "0 < s" and "s mod 60 \<noteq> 0"
    and "messageHash (header m) = msg_hash L s m" and "subtracts_later w"
    and "w' = w\<lparr>ticks := Suc (Suc (ticks w))\<rparr>"
  shows "deserializeMessage L sendf (save_any L m) w
    = (if s mod 10 = 0 then sendf (resend_request m) ipv6Unspecified w'
       else (Inr (), w'\<lparr>messageQueue := pq_emplace p (received m) (messageQueue w)\<rparr>))"
proof -
  have "to_time_t (whole_seconds ts) (clock w (ticks w)) (clock w (Suc (ticks w))) = s - 1"
    using earlier_second [of ts] assms(9,10,13) by (simp add: subtracts_later_def)
  then show ?thesis
    using file_message_check [OF assms(1,3-8,12) refl assms(14), where sendf = sendf]
      hash_date_step [OF assms(2,10,11)] by simp
qed

text \<open>An archive with dates of this form.\<close>

definition date_lib :: lib where
  "date_lib = raw_lib\<lparr>ctime := (\<lambda>t. to_string (nat (t div 60)) @ '':'' @ two_digits (nat (t mod 60)))\<rparr>"

lemma lib_laws_ctime: "lib_laws L \<Longrightarrow> lib_laws (L\<lparr>ctime := f\<rparr>)"
  by (simp add: lib_laws_def)

interpretation date: lib_laws date_lib
  unfolding date_lib_def by (rule lib_laws_ctime [OF raw.lib_laws_axioms])

lemma dated_date_lib: "dated (\<lambda>q. to_string (nat q) @ '':'') (\<lambda>q. '''') date_lib"
  by (simp add: dated_def date_lib_def)

definition lock_at :: "int \<Rightarrow> any_message" where
  "lock_at ts = (let m = MFile \<lparr>mtype = type_code lock, receiverNode = ipv6Unspecified,
       senderNode = IPv6 7, originatorNode = IPv6 7, messageHash = 0,
       targetFile = [''d'', ''f''], timestamp = ts\<rparr>
     in set_hash (msg_hash date_lib (ts div 1000000000) m) m)"

lemma lock_at_facts:
  "msg_kind (lock_at ts) = Some lock" "time_fits ts \<Longrightarrow> fits (lock_at ts)" "well_typed (lock_at ts)"
  "paths_normal (lock_at ts)" "hash_timestamp (lock_at ts) = Some ts"
  "messageHash (header (lock_at ts)) = msg_hash date_lib (ts div 1000000000) (lock_at ts)"
  "wire_priority lock = Some lockPriority"
proof -
  note d = lock_at_def Let_def set_hash_def on_base_def Message.defs FileMessage.defs
  show k: "msg_kind (lock_at ts) = Some lock" by (simp add: msg_kind_Some d)
  have n: "lexically_normal [''d'', ''f''] = [''d'', ''f'']" by (simp add: lexically_normal_def)
  show "time_fits ts \<Longrightarrow> fits (lock_at ts)"
    by (simp add: d base_fits_def isValid_def path_fits_def n name_ok_def)
  show "well_typed (lock_at ts)" using k by (simp add: well_typed_def d)
  show "paths_normal (lock_at ts)" by (simp add: d n)
  show "hash_timestamp (lock_at ts) = Some ts" by (simp add: d)
  show "messageHash (header (lock_at ts)) = msg_hash date_lib (ts div 1000000000) (lock_at ts)"
    by (simp add: d msg_hash_def hashString_File_def hashString_Message_def)
  show "wire_priority lock = Some lockPriority" by (simp add: wire_priority_def)
qed

theorem every_tenth_second_is_rejected_witness:
  "let w = sample_world\<lparr>clock := (\<lambda>n. if n = 0 then 1 else 0)\<rparr>
   in \<forall>sendf. deserializeMessage date_lib sendf (save_any date_lib (lock_at 9500000000)) w
       = (Inr (), w\<lparr>ticks := 2, messageQueue := [(lockPriority, received (lock_at 9500000000))]\<rparr>)
     \<and> deserializeMessage date_lib sendf (save_any date_lib (lock_at 10500000000)) w
       = sendf (resend_request (lock_at 10500000000)) ipv6Unspecified (w\<lparr>ticks := 2\<rparr>)"
proof -
  let ?w = "sample_world\<lparr>clock := (\<lambda>n. if n = 0 then 1 else 0)\<rparr>"
  have "subtracts_later ?w" by (simp add: subtracts_later_def)
  moreover have "time_fits 9500000000" "time_fits 10500000000"
    by (simp_all add: time_fits_def sys_to_time_t_def tdiv_def)
  ultimately show ?thesis
    using every_tenth_second_is_rejected [OF date.lib_laws_axioms dated_date_lib lock_at_facts(2,3,4,1,7,5) refl
        _ _ lock_at_facts(6), where w = ?w]
    by (simp add: Let_def pq_emplace_def numeral_2_eq_2)
qed

end
