(* ===== verification/Storm.thy ===== *)
theory Storm
  imports Replication Dates
begin

text \<open>
  What becomes of a file message that the hash check refuses: the node that refuses it asks everyone
  to send it again (\<open>validateMessageHash\<close> of \<open>src/src/message_manager.cpp\<close>), its origin finds it in
  the message cache and sends it again, unchanged, and it is refused again.
\<close>

section \<open>Refusing a message\<close>

lemma refused_exec:
  assumes "lib_laws L" and "fits m" and "well_typed m" and "paths_normal m"
    and "msg_kind m = Some t" and "wire_priority t = Some p" and "\<not> accepted L m w"
  shows "deserializeMessage L sendf (save_any L m) w
    = sendf (resend_request m) ipv6Unspecified (w\<lparr>ticks := ticks w + readings m\<rparr>)"
  using deserialize_exec [OF assms(1,2,3,5,6)] assms(7) by (simp add: passes_check_accepted [OF assms(4)])


definition requested :: "lib \<Rightarrow> any_message \<Rightarrow> world \<Rightarrow> world" where
  "requested L m w = (let r = stamped_resend L (self_ip w) ipv6Unspecified m in
     w\<lparr>peers := map ask_ip (peers w), outbox := outbox w @ map (\<lambda>q. (socketIP q, save_any L r)) (peers w),
       messageQueue := pq_emplace resendPriority (received r) (messageQueue w),
       oldMessages := emplace_back (Some r) (oldMessages w)\<rparr>)"

lemma after_resend_broadcast:
  assumes "self_ip w \<noteq> ipv6Unspecified" and "\<forall>q \<in> set (peers w). remoteIP q \<noteq> ipv6Unspecified"
  shows "after_resend L m ipv6Unspecified w = requested L m w"
proof -
  have "hops_of w ipv6Unspecified ipv6Unspecified = \<lparr>to_peers = peers w, to_self = True\<rparr>"
    using assms by (simp add: hops_of_def route_cases forward2all_def is_broadcast_def filter_id_conv)
  then show ?thesis
    by (simp add: after_resend_def requested_def Let_def posted_def asked_for_def)
qed

section \<open>Two nodes\<close>

text \<open>A node \<open>x\<close> that has the one peer \<open>y\<close>, an empty queue, and the clock readings of a program whose
  compiler subtracts the later reading; \<open>d\<close> bounds the time between the readings.\<close>

definition pair_clock :: "int \<Rightarrow> world \<Rightarrow> bool" where
  "pair_clock d w \<longleftrightarrow> even (ticks w) \<and> (\<forall>i. even i \<longrightarrow>
     0 < clock w i - clock w (Suc i) \<and> clock w i - clock w (Suc i) \<le> d)"

definition partner :: "int \<Rightarrow> ip_address \<Rightarrow> ip_address \<Rightarrow> world \<Rightarrow> bool" where
  "partner d x y w \<longleftrightarrow> self_ip w = x \<and> map remoteIP (peers w) = [y] \<and> map socketIP (peers w) = [y]
     \<and> cache_ok w \<and> pair_clock d w"

definition ring :: "world \<Rightarrow> any_message option list" where
  "ring w = contents (oldMessages w)"

definition push :: "any_message \<Rightarrow> any_message option list \<Rightarrow> any_message option list" where
  "push m xs = (if length xs < 100 then xs else tl xs) @ [Some m]"

lemma ring_push:
  assumes "cache_ok w" and "oldMessages v = emplace_back (Some m) (oldMessages w)"
  shows "ring v = push m (ring w)"
  using assms by (simp add: ring_def push_def cache_ok_def emplace_back_contents)

text \<open>What is in the ring after a push.\<close>

lemma set_push: "set (push m xs) \<subseteq> insert (Some m) (set xs)"
  by (cases xs) (auto simp: push_def)

lemma push_in: "Some m \<in> set (push m xs)"
  by (simp add: push_def)

lemma push_push_in: "Some m \<in> set (push c (push b (push m xs)))"
  by (cases xs; cases "tl xs"; cases "tl (tl xs)") (auto simp: push_def)


lemma partner_facts:
  assumes "partner d x y w" and "ordinary x" and "ordinary y"
  shows "self_ip w = x" "cache_ok w" "\<forall>q \<in> set (peers w). remoteIP q = y" "\<forall>q \<in> set (peers w). remoteIP q \<noteq> ipv6Unspecified"
    "self_ip w \<noteq> ipv6Unspecified" "map (\<lambda>q. (socketIP q, b)) (peers w) = [(y, b)]" "peers_fresh w"
proof -
  obtain q where "peers w = [q]" "remoteIP q = y" "socketIP q = y"
    using assms(1) by (auto simp: partner_def map_eq_Cons_conv)
  then show "\<forall>q \<in> set (peers w). remoteIP q = y" "\<forall>q \<in> set (peers w). remoteIP q \<noteq> ipv6Unspecified"
    "map (\<lambda>q. (socketIP q, b)) (peers w) = [(y, b)]" "peers_fresh w"
    using assms(3) by (simp_all add: ordinary_def peers_fresh_def)
  show "self_ip w = x" "cache_ok w" "self_ip w \<noteq> ipv6Unspecified"
    using assms(1,2) by (simp_all add: partner_def ordinary_def)
qed

lemma partner_step:
  assumes "partner d x y w" and "self_ip w' = self_ip w" and "map remoteIP (peers w') = map remoteIP (peers w)"
    and "map socketIP (peers w') = map socketIP (peers w)" and "cache_ok w'" and "clock w' = clock w"
    and "ticks w' = ticks w + 2 * k"
  shows "partner d x y w'"
  using assms by (simp add: partner_def pair_clock_def)

lemma readings_even: "\<exists>k. readings m = 2 * k"
  by (cases "hash_timestamp m") (auto simp: readings_def intro: exI [of _ 0] exI [of _ 1])

text \<open>What handling a step leaves of a partner: its queue and its ring.\<close>

definition became :: "int \<Rightarrow> ip_address \<Rightarrow> ip_address \<Rightarrow> prio list \<Rightarrow> any_message option list \<Rightarrow> world \<Rightarrow> world \<Rightarrow> bool" where
  "became d x y q c w w' \<longleftrightarrow> partner d x y w' \<and> messageQueue w' = q \<and> ring w' = c \<and> files w' = files w"

lemma receive_refused:
  fixes L x m
  defines "r \<equiv> stamped_resend L x ipv6Unspecified m"
  assumes L: "lib_laws L" and m: "broadcastable L m p" and w: "partner d x y w"
    and xy: "ordinary x" "ordinary y" "x \<noteq> y" "isValid x" and no: "\<not> accepted L m w"
  shows "\<exists>w'. receive_at L y (save_any L m) w = Some ([(y, save_any L r)], w')
    \<and> became d x y (pq_emplace resendPriority (received r) (messageQueue w)) (push r (ring w)) w w'"
proof -
  note f = partner_facts [OF w xy(1,2)] and mm = m [unfolded broadcastable_def]
  obtain t where t: "msg_kind m = Some t" "wire_priority t = Some p"
    using m by (auto simp: broadcastable_def split: option.splits)
  have "y \<in> remoteIP ` set (peers w)" using w by (auto simp: partner_def map_eq_Cons_conv)
  then obtain i where r': "receive_at L y (save_any L m) w =
      (case routeData L (sendMessage L) (save_any L m) ipv6Unspecified y (asked_at i (w\<lparr>outbox := []\<rparr>)) of
        (Inl e, v) \<Rightarrow> None
      | (Inr _, v) \<Rightarrow> Some (outbox v, v\<lparr>outbox := outbox w\<rparr>))"
    using receive_at_routes [OF L base_fits_header, of m y w] mm by metis
  let ?b = "w\<lparr>outbox := []\<rparr>" and ?w = "asked_at i (w\<lparr>outbox := []\<rparr>)"
  let ?v = "(asked_for ipv6Unspecified ?b)\<lparr>ticks := ticks w + readings m\<rparr>"
  have "\<forall>p \<in> set (peers ?w). remoteIP p = y"
    using w by (cases i) (auto simp: partner_def map_eq_Cons_conv asked_at_def)
  then have hops: "hops_of ?w ipv6Unspecified y = \<lparr>to_peers = [], to_self = True\<rparr>"
    using f xy by (simp add: hops_of_def route_cases forward2all_def is_broadcast_def ordinary_def)
  have p0: "posted b [] v = v" for b v by (simp add: posted_def)
  have "\<not> accepted L m (asked_for ipv6Unspecified ?w)"
    using no by (simp add: accepted_def arrival_time_def split: option.splits)
  then have "routeData L (sendMessage L) (save_any L m) ipv6Unspecified y ?w
      = sendMessage L (resend_request m) ipv6Unspecified ?v"
    using mm refused_exec [OF L _ _ _ t, of "asked_for ipv6Unspecified ?w"]
    by (simp add: routeData_exec hops p0 asked_at_broadcast)
  also have "\<dots> = (Inr (), after_resend L m ipv6Unspecified ?v)"
    using f(1,2) xy(4) mm base_fits_header [of m] unfolding sendMessage_def numeral_2_eq_2
    by (intro send_resend [OF L]) (simp_all add: cache_ok_def isValid_def base_fits_def)
  also have "after_resend L m ipv6Unspecified ?v = requested L m ?v"
    using f by (intro after_resend_broadcast) (simp_all add: asked_for_def)
  finally have run: "routeData L (sendMessage L) (save_any L m) ipv6Unspecified y ?w
    = (Inr (), requested L m ?v)" .
  let ?w' = "(requested L m ?v)\<lparr>outbox := outbox w\<rparr>"
  have o: "oldMessages (requested L m ?v) = emplace_back (Some r) (oldMessages w)"
    using f(1) by (simp add: requested_def Let_def r_def)
  have "partner d x y ?w'"
    using readings_even [of m]
    by (elim exE, intro partner_step [OF w])
      (use f(2) o in \<open>simp_all add: requested_def Let_def asked_for_def cache_ok_def comp_def\<close>)
  then have b: "became d x y (pq_emplace resendPriority (received r) (messageQueue w)) (push r (ring w)) w ?w'"
    using ring_push [OF f(2), of ?w' r] f(1) o
    by (simp add: became_def requested_def Let_def r_def)
  have "outbox (requested L m ?v) = [(y, save_any L r)]"
    using f(1,6) by (simp add: requested_def Let_def r_def asked_for_def comp_def)
  then show ?thesis using b run by (intro exI [of _ ?w']) (simp add: r')
qed


section \<open>Handling a resend request\<close>

text \<open>A node processes its next message; what it sends is handed on.\<close>

definition work :: "lib \<Rightarrow> world \<Rightarrow> ((ip_address \<times> byte list) list \<times> world) option" where
  "work L w =
     (case processNextMessage L (w\<lparr>outbox := []\<rparr>) of
        (Inl e, v) \<Rightarrow> None
      | (Inr _, v) \<Rightarrow> Some (outbox v, v\<lparr>outbox := outbox w\<rparr>))"

lemma stamped_form:
  "\<exists>x. received (stamped_resend L s d m) = MResend x \<and> requestedHash x = messageHash (header m)
    \<and> originalDestination x = receiverNode (header m) \<and> originatorNode x = s \<and> mtype x = type_code resendRequest"
  by (simp add: stamped_resend_def Let_def resend_request_def add_routing_def set_hash_def on_base_def
      new_Message_def Message.defs ResendRequestMessage.defs)

lemma work_request:
  assumes x: "mtype x = type_code resendRequest"
    and w: "messageQueue w = [(k, MResend x)]"
    and run: "processResendRequestMessage L x (w\<lparr>outbox := [], messageQueue := []\<rparr>) = (Inr True, v)"
    and c: "cache_ok v"
  shows "work L w = Some (outbox v, v\<lparr>oldMessages := emplace_back (Some (MResend x)) (oldMessages v), outbox := outbox w\<rparr>)"
proof -
  have "dispatch L (MResend x) (w\<lparr>outbox := [], messageQueue := []\<rparr>) = (Inr None, v)"
    using msg_kind_Some [of "MResend x" resendRequest] x run
    by (simp add: dispatch_def as_resend_def cast_def exec_simps requeue_def Message.defs)
  then have "processNextMessage L (w\<lparr>outbox := []\<rparr>)
      = (Inr (), v\<lparr>oldMessages := emplace_back (Some (MResend x)) (oldMessages v)\<rparr>)"
    using w c by (intro processNext_done) (simp_all add: queue_of_one)
  then show ?thesis by (simp add: work_def)
qed

text \<open>A request of the node itself, and one for a message the node does not have, are dropped.\<close>

definition holds :: "size_t \<Rightarrow> any_message \<Rightarrow> any_message option list \<Rightarrow> bool" where
  "holds h m xs \<longleftrightarrow> Some m \<in> set xs \<and> None \<notin> set xs
     \<and> (\<forall>z. Some z \<in> set xs \<longrightarrow> messageHash (header z) = h \<longrightarrow> z = m)"

definition lacks :: "size_t \<Rightarrow> any_message option list \<Rightarrow> bool" where
  "lacks h xs \<longleftrightarrow> xs \<noteq> [] \<and> None \<notin> set xs \<and> (\<forall>z. Some z \<in> set xs \<longrightarrow> messageHash (header z) \<noteq> h)"

lemma first_match_hash: "first_match h xs = Some m \<Longrightarrow> messageHash (header m) = h"
  by (auto simp: first_match_def find_Some_iff split: option.splits)

lemma lacks_no_match: "lacks h xs \<Longrightarrow> first_match h xs = None"
proof (cases "first_match h xs")
  case (Some m)
  then have "Some m \<in> set xs" "messageHash (header m) = h"
    using first_match_in [of h xs m] first_match_hash [of h xs m] by simp_all
  then show "lacks h xs \<Longrightarrow> ?thesis" by (auto simp: lacks_def)
qed

lemma holds_match: "holds h m xs \<Longrightarrow> messageHash (header m) = h \<Longrightarrow> first_match h xs = Some m"
proof (cases "first_match h xs")
  case None
  assume "holds h m xs" and h: "messageHash (header m) = h"
  then have "find (\<lambda>x. case x of Some m \<Rightarrow> messageHash (header m) = h | None \<Rightarrow> False) xs \<noteq> None"
    unfolding find_None_iff holds_def by force
  then obtain x where x: "find (\<lambda>x. case x of Some m \<Rightarrow> messageHash (header m) = h | None \<Rightarrow> False) xs = Some x"
    by blast
  then have "x \<noteq> None" by (auto simp: find_Some_iff split: option.splits)
  then show ?thesis using None x by (simp add: first_match_def)
next
  case (Some z)
  then have "Some z \<in> set xs" "messageHash (header z) = h"
    using first_match_in [of h xs z] first_match_hash [of h xs z] by simp_all
  then show "holds h m xs \<Longrightarrow> ?thesis" using Some by (auto simp: holds_def)
qed

lemma work_ignored:
  assumes r: "received r = MResend x" "mtype x = type_code resendRequest"
    and w: "partner d s y w" "messageQueue w = [(k, received r)]"
    and i: "originatorNode x = s \<or> lacks (requestedHash x) (ring w)"
  shows "\<exists>w'. work L w = Some ([], w') \<and> became d s y [] (push (received r) (ring w)) w w'"
proof -
  let ?v = "w\<lparr>outbox := [], messageQueue := []\<rparr>"
  have s: "self_ip w = s" "cache_ok w" using w(1) by (simp_all add: partner_def)
  have "processResendRequestMessage L x ?v = (Inr True, ?v)"
  proof (cases "originatorNode x = s")
    case True
    then show ?thesis using s by (simp add: processResendRequestMessage_def exec_simps)
  next
    case False
    then have l: "lacks (requestedHash x) (ring w)" using i by blast
    then have "cache_filled ?v"
      using s(2) by (auto simp: cache_filled_def lacks_def ring_def cache_ok_def contents_def)
    then show ?thesis
      using processResend_filled [of ?v x L] lacks_no_match [OF l] False s by (simp add: ring_def)
  qed
  then have "work L w = Some ([], ?v\<lparr>oldMessages := emplace_back (Some (MResend x)) (oldMessages w), outbox := outbox w\<rparr>)"
    using work_request [OF r(2) _ _, of w k L ?v] w(2) r(1) s(2) by (simp add: cache_ok_def)
  moreover have "became d s y [] (push (received r) (ring w)) w
      (?v\<lparr>oldMessages := emplace_back (Some (MResend x)) (oldMessages w), outbox := outbox w\<rparr>)"
    using partner_step [OF w(1), of _ 0] ring_push [OF s(2)] s r(1)
    by (simp add: became_def cache_ok_def)
  ultimately show ?thesis by blast
qed


section \<open>Sending it again\<close>

text \<open>A message as its sender \<open>x\<close> has it in its cache: with its hash, for the second \<open>s\<close>.\<close>

definition as_sent :: "lib \<Rightarrow> ip_address \<Rightarrow> int \<Rightarrow> any_message \<Rightarrow> bool" where
  "as_sent L x s m \<longleftrightarrow> receiverNode (header m) = ipv6Unspecified \<and> senderNode (header m) = x
     \<and> originatorNode (header m) \<noteq> ipv6Unspecified \<and> messageHash (header m) = msg_hash L s m"

lemma header_update_same: "f (header m) = header m \<Longrightarrow> header_update f m = m"
proof -
  have t: "x\<lparr>mtype := mtype (Message.truncate x), receiverNode := receiverNode (Message.truncate x),
      senderNode := senderNode (Message.truncate x), originatorNode := originatorNode (Message.truncate x),
      messageHash := messageHash (Message.truncate x)\<rparr> = x" for x :: "'a Message_scheme"
    by (simp add: Message.defs)
  show "f (header m) = header m \<Longrightarrow> header_update f m = m"
    by (cases m) (simp_all add: on_base_def t)
qed

lemma as_sent_again:
  assumes "as_sent L x s m"
  shows "add_routing x ipv6Unspecified m = m" "set_hash (msg_hash L s m) m = m"
  using assms by (simp_all add: as_sent_def add_routing_def set_hash_def header_update_same)

lemma sender_second:
  assumes "0 \<le> ts" and "0 \<le> a - b" and "a - b \<le> ts mod 1000000000"
  shows "to_time_t ts a b = ts div 1000000000"
proof -
  define s f where "s = ts div (1000000000 :: int)" and "f = ts mod 1000000000"
  have ts: "ts = s * 1000000000 + f" unfolding s_def f_def by simp
  have f: "f < 1000000000" unfolding f_def by simp
  have "0 \<le> s" using assms(1) unfolding s_def by (simp add: pos_imp_zdiv_nonneg_iff)
  then have s0: "0 \<le> s * 1000000000" by simp
  have r: "0 \<le> f - (a - b)" "f - (a - b) < 1000000000" using assms(2,3) f unfolding f_def [symmetric] by linarith+
  have e: "ts - a + b = (f - (a - b)) + s * 1000000000" using ts by simp
  have "0 \<le> ts - a + b" using r(1) s0 unfolding e by linarith
  moreover have "(ts - a + b) div 1000000000 = s" unfolding e using r by simp
  ultimately show ?thesis
    unfolding to_time_t_def convertTimepoint_def s_def [symmetric]
    by (simp add: sys_to_time_t_def tdiv_nonneg)
qed

lemma sent_again:
  fixes L x m
  defines "r \<equiv> stamped_resend L x ipv6Unspecified m"
  assumes L: "lib_laws L" and m: "broadcastable L m p" and s: "as_sent L x (ts div 1000000000) m"
    and ts: "hash_timestamp m = Some ts" "0 \<le> ts" "d \<le> ts mod 1000000000"
    and w: "partner d x y w" and xy: "ordinary x" "ordinary y" "isValid x"
    and no: "\<not> accepted L m (w\<lparr>ticks := ticks w + 2\<rparr>)"
  shows "\<exists>w'. sendMessage L m ipv6Unspecified w = (Inr (), w')
    \<and> outbox w' = outbox w @ [(y, save_any L m), (y, save_any L r)]
    \<and> became d x y (pq_emplace resendPriority (received r) (messageQueue w)) (push m (push r (ring w))) w w'"
proof -
  note f = partner_facts [OF w xy(1,2)] and mm = m [unfolded broadcastable_def]
  obtain t where t: "msg_kind m = Some t" "wire_priority t = Some p"
    using m by (auto simp: broadcastable_def split: option.splits)
  let ?a = "clock w (ticks w)" and ?b = "clock w (Suc (ticks w))"
  have "0 < ?a - ?b" "?a - ?b \<le> d" using w by (simp_all add: partner_def pair_clock_def)
  then have sec: "to_time_t ts ?a ?b = ts div 1000000000" using ts by (intro sender_second) linarith+
  define w1 where "w1 = w\<lparr>ticks := ticks w + 2\<rparr>"
  let ?w1 = w1
  have dt: "draw_time m w = (Inr (ts div 1000000000), ?w1)"
    using ts(1) by (simp add: draw_time_exec drawn_time_def sec readings_def w1_def)
  have hops: "hops_of ?w1 ipv6Unspecified ipv6Unspecified = \<lparr>to_peers = peers w, to_self = True\<rparr>"
    using f by (simp add: w1_def hops_of_def route_cases forward2all_def is_broadcast_def filter_id_conv)
  let ?w2 = "posted (save_any L m) (peers w) (asked_for ipv6Unspecified ?w1)"
  have no2: "\<not> accepted L m ?w2"
    using no by (simp add: w1_def accepted_def arrival_time_def split: option.splits)
  let ?w3 = "?w2\<lparr>ticks := ticks ?w2 + readings m\<rparr>"
  have d: "deserializeMessage L sendf (save_any L m) ?w2 = sendf (resend_request m) ipv6Unspecified ?w3" for sendf
    using refused_exec [OF L _ _ _ t no2] mm by blast
  have "send L (Suc 0) (resend_request m) ipv6Unspecified True ?w3 = (Inr (), after_resend L m ipv6Unspecified ?w3)"
    using f(1,2) xy(3) mm base_fits_header [of m]
    by (intro send_resend [OF L]) (simp_all add: w1_def cache_ok_def isValid_def base_fits_def)
  also have "after_resend L m ipv6Unspecified ?w3 = requested L m ?w3"
    using f by (intro after_resend_broadcast) (simp_all add: w1_def asked_for_def)
  finally have rq: "send L (Suc 0) (resend_request m) ipv6Unspecified True ?w3 = (Inr (), requested L m ?w3)" .
  have o: "oldMessages (requested L m ?w3) = emplace_back (Some r) (oldMessages w)"
    using f(1) by (simp add: w1_def requested_def Let_def r_def)
  have c3: "cache_ok (requested L m ?w3)" using f(2) o by (simp add: cache_ok_def)
  let ?w' = "(requested L m ?w3)\<lparr>oldMessages := emplace_back (Some m) (oldMessages (requested L m ?w3))\<rparr>"
  have "routeData L (\<lambda>m d. send L (Suc 0) m d True) (save_any L m) ipv6Unspecified ipv6Unspecified ?w1
      = (Inr (), requested L m ?w3)"
    by (simp only: routeData_exec Let_def hops hops.simps if_True d rq)
  then have "sendMessage L m ipv6Unspecified w = (Inr (), ?w')"
    using as_sent_again [OF s] f(1) remember_exec [OF c3, of m]
    by (simp add: sendMessage_def numeral_2_eq_2 send.simps(2) [of L "Suc 0"] bnd_exec gets_exec Let_def dt
        del: send.simps)
  moreover have "partner d x y ?w'"
    by (rule partner_step [OF w, of _ 2])
      (use c3 ts(1) in \<open>simp_all add: w1_def requested_def Let_def asked_for_def posted_def cache_ok_def comp_def readings_def\<close>)
  moreover have "ring ?w' = push m (push r (ring w))"
    using ring_push [OF c3, of ?w' m] ring_push [OF f(2) o] by simp
  moreover have "outbox ?w' = outbox w @ [(y, save_any L m), (y, save_any L r)]"
    using f(1) by (simp add: w1_def requested_def Let_def r_def asked_for_def posted_def comp_def f(6))
  ultimately show ?thesis
    using f(1) by (intro exI [of _ ?w']) (simp add: w1_def became_def requested_def Let_def r_def)
qed


section \<open>For ever\<close>

text \<open>A node gets data from its peer \<open>from\<close>, one after the other, and processes what it has queued after
  each; then what it sent is handed to the peer, which does the same.\<close>

primrec serve :: "lib \<Rightarrow> ip_address \<Rightarrow> (ip_address \<times> byte list) list \<Rightarrow> world
    \<Rightarrow> ((ip_address \<times> byte list) list \<times> world) option" where
  "serve L peer [] w = Some ([], w)"
| "serve L peer (post # posts) w =
     do { (sent1, w) \<leftarrow> receive_at L peer (snd post) w;
          (sent2, w) \<leftarrow> work L w;
          (sent3, w) \<leftarrow> work L w;
          (sent, w) \<leftarrow> serve L peer posts w;
          Some (sent1 @ sent2 @ sent3 @ sent, w) }"

definition exchange :: "lib \<Rightarrow> ip_address \<Rightarrow> ip_address
    \<Rightarrow> (ip_address \<times> byte list) list \<times> world \<times> world \<Rightarrow> ((ip_address \<times> byte list) list \<times> world \<times> world) option" where
  "exchange L x y = (\<lambda>(posts, w, v).
     do { (answers, v) \<leftarrow> serve L x posts v;
          (posts, w) \<leftarrow> serve L y answers w;
          Some (posts, w, v) })"

primrec exchanges :: "lib \<Rightarrow> ip_address \<Rightarrow> ip_address \<Rightarrow> nat
    \<Rightarrow> (ip_address \<times> byte list) list \<times> world \<times> world \<Rightarrow> ((ip_address \<times> byte list) list \<times> world \<times> world) option" where
  "exchanges L x y 0 s = Some s"
| "exchanges L x y (Suc n) s = do { s \<leftarrow> exchange L x y s; exchanges L x y n s }"

lemma work_idle: "messageQueue w = [] \<Longrightarrow> work L w = Some ([], w)"
  by (simp add: work_def processNextMessage_def exec_simps pq_empty_def)

lemma becameD:
  assumes "became d x y q c w w'"
  shows "partner d x y w'" "messageQueue w' = q" "ring w' = c" "files w' = files w"
  using assms by (simp_all add: became_def)

definition headers_fit :: "lib \<Rightarrow> bool" where
  "headers_fit L \<longleftrightarrow> (\<forall>b :: Message. length (save_Message L b) \<le> sizeof_Message L)"

lemma stamped_facts:
  assumes "isValid s" and "isValid (receiverNode (header m))" and "headers_fit L"
  shows "broadcastable L (stamped_resend L s ipv6Unspecified m) resendPriority"
    and "accepted L (stamped_resend L s ipv6Unspecified m) w"
    and "readings (stamped_resend L s ipv6Unspecified m) = 0"
proof -
  let ?r = "stamped_resend L s ipv6Unspecified m"
  have "fits ?r" using assms fits_resend [of s ipv6Unspecified m]
    by (simp add: stamped_resend_def Let_def isValid_def)
  then show "broadcastable L ?r resendPriority"
    using assms(3) by (simp add: broadcastable_def headers_fit_def)
      (simp add: stamped_resend_def Let_def wire_priority_def)
  show "accepted L ?r w" "readings ?r = 0"
    by (simp_all add: stamped_resend_def Let_def accepted_def arrival_time_def wire_offset_def readings_def)
qed

lemma receive_request:
  assumes L: "lib_laws L" and w: "partner d x y w" and xy: "ordinary x" "ordinary y" "x \<noteq> y"
    and r: "r = stamped_resend L y ipv6Unspecified m" and v: "isValid y" "isValid (receiverNode (header m))" "headers_fit L"
  shows "\<exists>w'. receive_at L y (save_any L r) w = Some ([], w')
    \<and> became d x y (pq_emplace resendPriority (received r) (messageQueue w)) (ring w) w w'"
proof -
  note f = partner_facts [OF w xy(1,2)] and s = stamped_facts [OF v, folded r]
  have y: "y \<in> remoteIP ` set (peers w)" using w by (auto simp: partner_def map_eq_Cons_conv)
  have "receive_at L y (save_any L r) w = Some ([], queued_at r resendPriority w)"
    using receive_broadcast [OF L s(1) y _ _ _ f(7) s(2)] xy f(1,3) by (simp add: ordinary_def)
  moreover have "partner d x y (queued_at r resendPriority w)"
    by (rule partner_step [OF w, of _ 0]) (use f(2) s(3) in \<open>simp_all add: queued_at_def cache_ok_def comp_def\<close>)
  ultimately show ?thesis by (simp add: became_def queued_at_def ring_def)
qed


text \<open>The ring of the node that never gets the message, and of its origin.\<close>

definition free_of :: "size_t \<Rightarrow> any_message option list \<Rightarrow> bool" where
  "free_of h xs \<longleftrightarrow> None \<notin> set xs \<and> (\<forall>z. Some z \<in> set xs \<longrightarrow> messageHash (header z) \<noteq> h)"

lemma free_push: "free_of h xs \<Longrightarrow> messageHash (header z) \<noteq> h \<Longrightarrow> free_of h (push z xs)"
  using set_push [of z xs] by (auto simp: free_of_def)

lemma lacks_push: "free_of h xs \<Longrightarrow> messageHash (header z) \<noteq> h \<Longrightarrow> lacks h (push z xs)"
  using free_push [of h xs z] by (simp add: lacks_def free_of_def) (simp add: push_def)

lemma holds_push:
  assumes "holds h m xs" and "messageHash (header a) \<noteq> h" and "messageHash (header b) \<noteq> h"
    and "messageHash (header c) \<noteq> h"
  shows "holds h m (push c (push b (push m (push a xs))))"
proof -
  have "set (push c (push b (push m (push a xs)))) \<subseteq> {Some a, Some b, Some c, Some m} \<union> set xs"
    using set_push [of c "push b (push m (push a xs))"] set_push [of b "push m (push a xs)"]
      set_push [of m "push a xs"] set_push [of a xs] by blast
  then show ?thesis
    using assms push_push_in [of m c b "push a xs"] by (auto simp: holds_def)
qed

lemma hash_received: "messageHash (header (received r)) = messageHash (header r)"
  by (simp add: header_received)

lemma work_serves:
  fixes L x m
  defines "r \<equiv> stamped_resend L x ipv6Unspecified m"
  assumes L: "lib_laws L" and m: "broadcastable L m p" and s: "as_sent L x (ts div 1000000000) m"
    and ts: "hash_timestamp m = Some ts" "0 \<le> ts" "d \<le> ts mod 1000000000"
    and xy: "ordinary x" "ordinary y" "x \<noteq> y" "isValid x"
    and no: "\<And>w. pair_clock d w \<Longrightarrow> \<not> accepted L m w"
    and w: "partner d x y w" "messageQueue w = [(k, received a)]" "holds (messageHash (header m)) m (ring w)"
    and a: "a = stamped_resend L y ipv6Unspecified m"
  shows "\<exists>w'. work L w = Some ([(y, save_any L m), (y, save_any L r)], w')
    \<and> became d x y [(resendPriority, received r)] (push (received a) (push m (push r (ring w)))) w w'"
proof -
  let ?w = "w\<lparr>outbox := [], messageQueue := []\<rparr>"
  have f: "self_ip w = x" "cache_ok w" "pair_clock d w" using w(1) by (simp_all add: partner_def)
  obtain q where q: "received a = MResend q" "requestedHash q = messageHash (header m)"
    "originalDestination q = receiverNode (header m)" "originatorNode q = y" "mtype q = type_code resendRequest"
    using stamped_form a by blast
  have pw: "partner d x y ?w" by (rule partner_step [OF w(1), of _ 0]) (use f(2) in \<open>simp_all add: cache_ok_def\<close>)
  have "pair_clock d (?w\<lparr>ticks := ticks ?w + 2\<rparr>)" using f(3) by (simp add: pair_clock_def)
  from sent_again [OF L m s ts pw xy(1,2,4) no [OF this]] obtain v where
    v: "sendMessage L m ipv6Unspecified ?w = (Inr (), v)" "outbox v = [(y, save_any L m), (y, save_any L r)]"
    "became d x y [(resendPriority, received r)] (push m (push r (ring w))) ?w v"
    by (auto simp: r_def pq_emplace_def ring_def)
  have fm: "first_match (messageHash (header m)) (contents (oldMessages ?w)) = Some m"
    using holds_match [OF w(3)] by (simp add: ring_def)
  have "cache_filled ?w"
    using f(2) w(3) by (auto simp: cache_filled_def holds_def ring_def cache_ok_def contents_def)
  moreover have "well_typed m" "receiverNode (header m) = ipv6Unspecified" using m by (simp_all add: broadcastable_def)
  moreover have "msg_kind m \<noteq> Some resendRequest"
    using ts(1) \<open>well_typed m\<close> by (cases m) (auto simp: well_typed_def)
  ultimately have run: "processResendRequestMessage L q ?w = (Inr True, v)"
    using processResend_filled [of ?w q L] fm q(2-4) xy(3) f(1) v(1)
    by (simp add: resend_typed exec_simps)
  note b = becameD [OF v(3)]
  have c: "cache_ok v" using b(1) by (simp add: partner_def)
  let ?v = "v\<lparr>oldMessages := emplace_back (Some (MResend q)) (oldMessages v), outbox := outbox w\<rparr>"
  have "work L w = Some (outbox v, ?v)"
    using work_request [OF q(5) _ run c] w(2) q(1) by simp
  moreover have "partner d x y ?v"
    by (rule partner_step [OF b(1), of _ 0]) (use c in \<open>simp_all add: cache_ok_def\<close>)
  moreover have "ring ?v = push (received a) (push m (push r (ring w)))"
    using ring_push [OF c, of ?v "MResend q"] b(3) q(1) by simp
  ultimately show ?thesis using v(2) b(2,4) by (simp add: became_def)
qed


lemma serve_at_origin:
  fixes L x y m
  defines "rx \<equiv> stamped_resend L x ipv6Unspecified m" and "ry \<equiv> stamped_resend L y ipv6Unspecified m"
    and "h \<equiv> messageHash (header m)"
  assumes L: "lib_laws L" "headers_fit L" and m: "broadcastable L m p" and s: "as_sent L x (ts div 1000000000) m"
    and ts: "hash_timestamp m = Some ts" "0 \<le> ts" "d \<le> ts mod 1000000000"
    and xy: "ordinary x" "ordinary y" "x \<noteq> y" "isValid x" "isValid y"
    and no: "\<And>w. pair_clock d w \<Longrightarrow> \<not> accepted L m w"
    and hs: "messageHash (header rx) \<noteq> h" "messageHash (header ry) \<noteq> h"
    and w: "partner d x y w" "messageQueue w = []" "holds h m (ring w)"
  shows "\<exists>w'. serve L y [(x, save_any L ry)] w = Some ([(y, save_any L m), (y, save_any L rx)], w')
    \<and> partner d x y w' \<and> messageQueue w' = [] \<and> holds h m (ring w')"
proof -
  have rv: "isValid (receiverNode (header m))"
    using m by (simp add: broadcastable_def isValid_def)
  obtain w1 where w1: "receive_at L y (save_any L ry) w = Some ([], w1)"
    "became d x y [(resendPriority, received ry)] (ring w) w w1"
    using receive_request [OF L(1) w(1) xy(1-3) _ xy(5) rv L(2), of ry] w(2) by (auto simp: ry_def pq_emplace_def)
  note b1 = becameD [OF w1(2)]
  obtain w2 where w2: "work L w1 = Some ([(y, save_any L m), (y, save_any L rx)], w2)"
    "became d x y [(resendPriority, received rx)] (push (received ry) (push m (push rx (ring w)))) w1 w2"
    using work_serves [OF L(1) m s ts xy(1-4) no b1(1,2)] w(3) b1(3) by (auto simp: rx_def ry_def h_def)
  note b2 = becameD [OF w2(2)]
  obtain q where q: "received rx = MResend q" "originatorNode q = x" "mtype q = type_code resendRequest"
    using stamped_form unfolding rx_def by blast
  obtain w3 where w3: "work L w2 = Some ([], w3)"
    "became d x y [] (push (received rx) (push (received ry) (push m (push rx (ring w))))) w2 w3"
    using work_ignored [OF q(1,3) b2(1,2)] q(2) b2(3) by auto
  have "holds h m (ring w3)"
    using holds_push [OF w(3), of rx "received ry" "received rx"] hs becameD(3) [OF w3(2)] by (simp add: hash_received)
  then show ?thesis
    using w1(1) w2(1) w3(1) becameD [OF w3(2)] by (intro exI [of _ w3]) simp
qed

lemma serve_at_other:
  fixes L x y m
  defines "rx \<equiv> stamped_resend L x ipv6Unspecified m" and "ry \<equiv> stamped_resend L y ipv6Unspecified m"
    and "h \<equiv> messageHash (header m)"
  assumes L: "lib_laws L" "headers_fit L" and m: "broadcastable L m p"
    and xy: "ordinary x" "ordinary y" "x \<noteq> y" "isValid x" "isValid y"
    and no: "\<And>w. pair_clock d w \<Longrightarrow> \<not> accepted L m w"
    and hs: "messageHash (header rx) \<noteq> h" "messageHash (header ry) \<noteq> h"
    and v: "partner d y x v" "messageQueue v = []" "free_of h (ring v)"
  shows "\<exists>v'. serve L x [(y, save_any L m), (y, save_any L rx)] v = Some ([(x, save_any L ry)], v')
    \<and> partner d y x v' \<and> messageQueue v' = [] \<and> free_of h (ring v') \<and> files v' = files v"
proof -
  have rv: "isValid (receiverNode (header m))"
    using m by (simp add: broadcastable_def isValid_def)
  have yx: "y \<noteq> x" using xy(3) by simp
  have "\<not> accepted L m v" using no v(1) by (simp add: partner_def)
  then obtain v1 where v1: "receive_at L x (save_any L m) v = Some ([(x, save_any L ry)], v1)"
    "became d y x [(resendPriority, received ry)] (push ry (ring v)) v v1"
    using receive_refused [OF L(1) m v(1) xy(2,1) yx xy(5)] v(2) by (auto simp: ry_def pq_emplace_def)
  note b1 = becameD [OF v1(2)]
  have l1: "free_of h (push ry (ring v))" using free_push [OF v(3) hs(2)] .
  obtain q where q: "received ry = MResend q" "originatorNode q = y" "mtype q = type_code resendRequest"
    using stamped_form unfolding ry_def by blast
  obtain v2 where v2: "work L v1 = Some ([], v2)" "became d y x [] (push (received ry) (push ry (ring v))) v1 v2"
    using work_ignored [OF q(1,3) b1(1,2)] q(2) b1(3) by auto
  note b2 = becameD [OF v2(2)]
  have l2: "lacks h (push (received ry) (push ry (ring v)))" "free_of h (push (received ry) (push ry (ring v)))"
    using lacks_push [OF l1] free_push [OF l1] hs(2) by (simp_all add: hash_received)
  obtain v3 where v3: "receive_at L x (save_any L rx) v2 = Some ([], v3)"
    "became d y x [(resendPriority, received rx)] (push (received ry) (push ry (ring v))) v2 v3"
    using receive_request [OF L(1) b2(1) xy(2,1) yx _ xy(4) rv L(2), of rx] b2(2,3) by (auto simp: rx_def pq_emplace_def)
  note b3 = becameD [OF v3(2)]
  obtain u where u: "received rx = MResend u" "requestedHash u = h" "mtype u = type_code resendRequest"
    using stamped_form unfolding rx_def h_def by blast
  obtain v4 where v4: "work L v3 = Some ([], v4)"
    "became d y x [] (push (received rx) (push (received ry) (push ry (ring v)))) v3 v4"
    using work_ignored [OF u(1,3) b3(1,2)] u(2) b3(3) l2(1) by auto
  note b4 = becameD [OF v4(2)]
  have "free_of h (ring v4)" using free_push [OF l2(2)] hs(1) b4(3) by (simp add: hash_received)
  then show ?thesis
    using v1(1) v2(1) v3(1) v4(1) b1(4) b2 b3(4) b4 work_idle [of v2 L] work_idle [of v4 L]
    by (intro exI [of _ v4]) simp
qed


text \<open>C18: A lock or change whose time stamp lies in a second that ends with 0 is never taken by a node that
  checks it as above, and never given up: the node asks for it, its origin finds it in the message
  cache and sends the same bytes again, and both refuse it again, round after round; what is under
  way between the two nodes stays the same for ever.\<close>

theorem refused_message_circulates:
  fixes L x y m ts
  defines "h \<equiv> messageHash (header m)" and "s \<equiv> ts div 1000000000"
  assumes "lib_laws L" and "headers_fit L" and "dated before after L" and "broadcastable L m p"
    and "hash_timestamp m = Some ts" and "0 < s" and "s mod 60 \<noteq> 0" and "s mod 10 = 0"
    and "d \<le> ts mod 1000000000" and "as_sent L x s m"
    and "ordinary x" and "ordinary y" and "x \<noteq> y" and "isValid x" and "isValid y"
    and "messageHash (header (stamped_resend L x ipv6Unspecified m)) \<noteq> h"
    and "messageHash (header (stamped_resend L y ipv6Unspecified m)) \<noteq> h"
    and "partner d x y w" and "messageQueue w = []" and "holds h m (ring w)"
    and "partner d y x v" and "messageQueue v = []" and "free_of h (ring v)"
    and "posts = [(y, save_any L m), (y, save_any L (stamped_resend L x ipv6Unspecified m))]"
  shows "\<exists>w' v'. exchanges L x y n (posts, w, v) = Some (posts, w', v')
    \<and> messageQueue v' = [] \<and> files v' = files v"
proof -
  have "ts mod 1000000000 < 1000000000" by (rule pos_mod_bound) simp
  then have d: "d \<le> 1000000000" by (rule order_trans [OF assms(11) less_imp_le])
  have no: "\<not> accepted L m u" if "pair_clock d u" for u
  proof -
    let ?k = "clock u (ticks u) - clock u (Suc (ticks u))"
    have "0 < ?k" "?k \<le> d" using that unfolding pair_clock_def by blast+
    then have "subtracts_later u" using d unfolding subtracts_later_def by (simp add: order_trans [of _ d])
    then show ?thesis
      using accepted_by_second [OF assms(5,7) s_def [THEN meta_eq_to_obj_eq] assms(8,9) _ \<open>subtracts_later u\<close>]
        assms(10,12) by (simp add: as_sent_def)
  qed
  have ts: "0 \<le> ts" using assms(8) by (simp add: s_def pos_imp_zdiv_pos_iff)
  note at_other = serve_at_other [OF assms(3,4,6,13-17) no, folded h_def, OF _ assms(18,19)]
  note at_origin = serve_at_origin [OF assms(3,4,6) assms(12) [unfolded s_def] assms(7) ts assms(11,13-17) no,
      folded h_def, OF _ assms(18,19)]
  show ?thesis
    using assms(20-25)
  proof (induction n arbitrary: w v)
    case 0
    then show ?case by simp
  next
    case (Suc n)
    obtain v1 where v1: "serve L x posts v = Some ([(x, save_any L (stamped_resend L y ipv6Unspecified m))], v1)"
      "partner d y x v1" "messageQueue v1 = []" "free_of h (ring v1)" "files v1 = files v"
      using at_other [where v = v] Suc.prems assms(26) by blast
    obtain w1 where w1: "serve L y [(x, save_any L (stamped_resend L y ipv6Unspecified m))] w = Some (posts, w1)"
      "partner d x y w1" "messageQueue w1 = []" "holds h m (ring w1)"
      using at_origin [where w = w] Suc.prems assms(26) by blast
    have "exchange L x y (posts, w, v) = Some (posts, w1, v1)"
      using v1(1) w1(1) by (simp add: exchange_def)
    then show ?case
      using Suc.IH [OF w1(2-4) v1(2-4)] v1(5) by simp
  qed
qed


lemma headers_fit_raw: "headers_fit raw_lib"
proof -
  have ip: "length (save_ip raw_lib ip) \<le> 17" for ip
    by (cases ip) (simp_all add: save_ip_def raw_lib_def)
  have "length (save_Message raw_lib b) = 1 + length (save_ip raw_lib (receiverNode b))
      + length (save_ip raw_lib (originatorNode b)) + 8" for b :: Message
    by (simp add: save_Message_def) (simp add: raw_lib_def)
  then have "length (save_Message raw_lib b) \<le> 96" for b :: Message
    using ip [of "receiverNode b"] ip [of "originatorNode b"] by simp
  moreover have "sizeof_Message raw_lib = 96" by (simp add: raw_lib_def)
  ultimately show ?thesis by (simp only: headers_fit_def) blast
qed

lemma headers_fit_date: "headers_fit date_lib"
proof -
  have c: "save_ip (L\<lparr>ctime := f\<rparr>) = save_ip L" "save_Message (L\<lparr>ctime := f\<rparr>) b = save_Message L b"
    for L f and b :: Message
  proof -
    show "save_ip (L\<lparr>ctime := f\<rparr>) = save_ip L"
      by (rule ext) (simp add: save_ip_def split: ip_address.split)
    then show "save_Message (L\<lparr>ctime := f\<rparr>) b = save_Message L b" by (simp add: save_Message_def)
  qed
  show ?thesis using headers_fit_raw by (simp add: headers_fit_def date_lib_def c)
qed

text \<open>The node 7, which sent a lock at ten seconds, and its peer 8.\<close>

definition stormy :: "ip_address \<Rightarrow> ip_address \<Rightarrow> world \<Rightarrow> world" where
  "stormy x y w = w\<lparr>self_ip := x, peers := [new_peer y 1], clock := backward_clock\<rparr>"

lemma partner_stormy: "cache_ok w \<Longrightarrow> even (ticks w) \<Longrightarrow> partner 1 x y (stormy x y w)"
  by (simp add: partner_def stormy_def pair_clock_def backward_clock_def cache_ok_def)

lemma stormy_hashes:
  "messageHash (header (stamped_resend date_lib (IPv6 7) ipv6Unspecified (lock_at 10500000000)))
    \<noteq> messageHash (header (lock_at 10500000000))"
  "messageHash (header (stamped_resend date_lib (IPv6 8) ipv6Unspecified (lock_at 10500000000)))
    \<noteq> messageHash (header (lock_at 10500000000))"
  by code_simp+

theorem refused_message_circulates_witness:
  "let m = lock_at 10500000000; w = stormy (IPv6 7) (IPv6 8) (caching m); v = stormy (IPv6 8) (IPv6 7) sample_world;
       posts = [(IPv6 8, save_any date_lib m), (IPv6 8, save_any date_lib (stamped_resend date_lib (IPv6 7) ipv6Unspecified m))]
   in \<forall>n. \<exists>w' v'. exchanges date_lib (IPv6 7) (IPv6 8) n (posts, w, v) = Some (posts, w', v')
     \<and> messageQueue v' = [] \<and> files v' = sample_files"
proof -
  let ?m = "lock_at 10500000000"
  let ?w = "stormy (IPv6 7) (IPv6 8) (caching ?m)" and ?v = "stormy (IPv6 8) (IPv6 7) sample_world"
  have s: "(10500000000 :: int) div 1000000000 = 10" "(10500000000 :: int) mod 1000000000 = 500000000" by simp_all
  have a: "as_sent date_lib (IPv6 7) (10500000000 div 1000000000) ?m"
    unfolding as_sent_def using lock_at_facts(6) [of 10500000000]
    by (simp add: lock_at_def Let_def set_hash_def on_base_def Message.defs FileMessage.defs)
  have b: "broadcastable date_lib ?m lockPriority"
  proof -
    have "time_fits 10500000000" by (simp add: time_fits_def sys_to_time_t_def tdiv_def)
    then show ?thesis
      using headers_fit_date a by (simp add: broadcastable_def lock_at_facts headers_fit_def as_sent_def)
  qed
  have w: "partner 1 (IPv6 7) (IPv6 8) ?w" "messageQueue ?w = []" "holds (messageHash (header ?m)) ?m (ring ?w)"
    using partner_stormy [of "caching ?m"] cache_ok_remember [OF cache_ok_sample] caching_simps(2) [of ?m]
    by (simp_all add: stormy_def ring_def holds_def) (simp_all add: caching_def)
  have v: "partner 1 (IPv6 8) (IPv6 7) ?v" "messageQueue ?v = []" "free_of h (ring ?v)" "files ?v = sample_files" for h
    using partner_stormy [OF cache_ok_sample] empty_cache(2)
    by (simp_all add: stormy_def ring_def free_of_def contents_def)
  show ?thesis
    unfolding Let_def v(4) [symmetric]
    by (intro allI refused_message_circulates [where d = 1, OF date.lib_laws_axioms headers_fit_date dated_date_lib b
          lock_at_facts(5) _ _ _ _ a _ _ _ _ _ stormy_hashes w v(1-3) refl])
      (simp_all add: ordinary_def isValid_def)
qed

end
