(* ===== verification/Shutdown.thy ===== *)
theory Shutdown
  imports Processing
begin

text \<open>
  The end of the process: the destructor of \<open>MessageManager\<close> (\<open>src/src/message_manager.cpp\<close>) once its
  queue is empty.  It goes through the managed files and releases the locks they have.
\<close>

section \<open>Releasing a lock\<close>





section \<open>What it leaves to the others\<close>








end
