(* ===== verification/Arrival.thy ===== *)
theory Arrival
  imports Joining Replication Dates
begin

text \<open>
  The files of a joining node arrive: the messages that answer its request come in over the
  connection (\<open>src/src/peer.cpp\<close>), are routed, checked and queued (\<open>src/src/peer_manager.hpp\<close>,
  \<open>src/src/message_manager.hpp\<close>), and are handled one by one by \<open>processNextMessage\<close>.
\<close>

section \<open>The hash check\<close>

text \<open>For a message that a node with the clock \<open>C\<close> stamps with one of the readings \<open>J\<close>, a node that checks
  it with one of the readings \<open>K\<close> of its clock \<open>D\<close>, and the next, computes a date whose text hashes to
  one less than the text of the sender's.\<close>

definition dates_pass :: "lib \<Rightarrow> (nat \<Rightarrow> int) \<Rightarrow> nat list \<Rightarrow> (nat \<Rightarrow> int) \<Rightarrow> nat list \<Rightarrow> bool" where
  "dates_pass L C J D K \<longleftrightarrow> (\<forall>j \<in> set J. \<forall>k \<in> set K.
     hash_str (ctime L (to_time_t (C j) (C (Suc j)) (C (Suc (Suc j)))))
       = hash_str (ctime L (to_time_t (whole_seconds (C j)) (D k) (D (Suc k)))) + 1)"

lemma dates_pass_mono: "dates_pass L C J D K \<Longrightarrow> set K' \<subseteq> set K \<Longrightarrow> dates_pass L C J D K'"
  unfolding dates_pass_def by blast

text \<open>The readings that check \<open>n\<close> such messages in a row, from the reading \<open>k\<close> on.\<close>

definition check_readings :: "nat \<Rightarrow> nat \<Rightarrow> nat list" where
  "check_readings k n = map (\<lambda>i. k + 2 * i) [0..<n]"

lemma check_readings_Suc: "set (check_readings k (Suc n)) = insert k (set (check_readings (k + 2) n))"
  by (simp add: check_readings_def upt_conv_Cons map_Suc_upt [symmetric] image_image ac_simps del: upt_Suc)

lemma stamped_accepted:
  assumes "stamped_by L C J x" and "dates_pass L C J (clock w) K" and "ticks w \<in> set K"
  shows "accepted L (MSync x) w"
proof -
  obtain j where j: "j \<in> set J" "timestamp x = C j"
    "messageHash (header (MSync x)) = msg_hash L (to_time_t (C j) (C (Suc j)) (C (Suc (Suc j)))) (MSync x)"
    using assms(1) by (auto simp: stamped_by_def Message.defs)
  have "hash_timestamp (MSync x) = Some (C j)" using j(2) by simp
  from accepted_iff_time [OF this j(3), of w] show ?thesis
    using assms(2,3) j(1) by (simp add: dates_pass_def arrival_time_def j(2))
qed

section \<open>Delivery to a node\<close>

text \<open>Data for the process itself goes to it and to no one else.\<close>

lemma receive_own:
  assumes L: "lib_laws L" and m: "fits m" "well_typed m" "paths_normal m" "msg_kind m = Some t"
      "wire_priority t = Some p"
    and d: "receiverNode (header m) = self_ip w" "\<not> is_broadcast (self_ip w)"
    and sz: "length (save_Message L (header m)) \<le> sizeof_Message L" and acc: "accepted L m w"
    and x: "x \<in> remoteIP ` set (peers w)"
  obtains i where "receive_at L x (save_any L m) w = Some ([], (asked_at i w)
    \<lparr>ticks := ticks w + readings m, messageQueue := pq_emplace p (received m) (messageQueue w)\<rparr>)"
proof -
  obtain i where r: "receive_at L x (save_any L m) w =
      (case routeData L (sendMessage L) (save_any L m) (self_ip w) x (asked_at i (w\<lparr>outbox := []\<rparr>)) of
        (Inl e, v) \<Rightarrow> None
      | (Inr _, v) \<Rightarrow> Some (outbox v, v\<lparr>outbox := outbox w\<rparr>))"
    using receive_at_routes [OF L base_fits_header [OF m(1)] sz x] unfolding d(1) by blast
  let ?w = "asked_at i (w\<lparr>outbox := []\<rparr>)" and ?d = "self_ip w"
  let ?v = "posted (save_any L m) [] (asked_for ?d ?w)"
  have h: "hops_of ?w ?d x = \<lparr>to_peers = [], to_self = True\<rparr>"
    using d(2) by (simp add: hops_of_def route_cases is_self_def)
  have "accepted L m ?v"
    using acc by (simp add: accepted_def arrival_time_def split: option.splits)
  then have "deserializeMessage L sendf (save_any L m) ?v = (Inr (), ?v\<lparr>ticks := ticks ?v + readings m,
      messageQueue := pq_emplace p (received m) (messageQueue ?v)\<rparr>)" for sendf
    using queued_if_accepted [OF L m] by blast
  then have "routeData L (sendMessage L) (save_any L m) ?d x ?w = (Inr (), ?v\<lparr>ticks := ticks ?v + readings m,
      messageQueue := pq_emplace p (received m) (messageQueue ?v)\<rparr>)"
    by (simp add: routeData_exec h)
  moreover have "asked_for ?d ?w = ?w" using d(2) by (simp add: asked_for_def is_broadcast_def)
  ultimately show thesis
    by (intro that [of i]) (simp add: r posted_def, simp add: asked_at_def)
qed

text \<open>Data that comes in over one connection and is not forwarded.\<close>

definition deliver :: "lib \<Rightarrow> ip_address \<Rightarrow> byte list list \<Rightarrow> world \<Rightarrow> world option" where
  "deliver L x = all_of (\<lambda>data w. case receive_at L x data w of Some ([], v) \<Rightarrow> Some v | _ \<Rightarrow> None)"

abbreviation sync_entry :: "FileInitialSyncMessage \<Rightarrow> prio" where
  "sync_entry y \<equiv> (lockPriority, MSync y)"

text \<open>A synchronisation message for the node \<open>d\<close>.\<close>

definition sync_for :: "ip_address \<Rightarrow> FileInitialSyncMessage \<Rightarrow> bool" where
  "sync_for d x \<longleftrightarrow> fits (MSync x) \<and> mtype x = type_code initialSync \<and> receiverNode x = d
     \<and> lexically_normal (targetFile x) = targetFile x"

lemma sync_for_facts:
  assumes "sync_for d x"
  shows "fits (MSync x)" "well_typed (MSync x)" "paths_normal (MSync x)"
    "msg_kind (MSync x) = Some initialSync" "receiverNode (header (MSync x)) = d"
    "readings (MSync x) = 2" "received (MSync x) = MSync (loaded x)"
proof -
  show k: "msg_kind (MSync x) = Some initialSync"
    using assms by (simp add: msg_kind_Some sync_for_def Message.defs)
  show "well_typed (MSync x)" using k by (simp add: well_typed_def)
qed (use assms in \<open>simp_all add: sync_for_def readings_def loaded_def Message.defs\<close>)

lemma deliver_syncs:
  assumes L: "lib_laws L" and hd: "\<forall>h. length (save_Message L (h :: Message)) \<le> sizeof_Message L"
    and d: "\<not> is_broadcast d"
  shows "self_ip w = d \<Longrightarrow> s \<in> remoteIP ` set (peers w) \<Longrightarrow> \<forall>x \<in> set xs. sync_for d x \<and> stamped_by L C J x \<Longrightarrow>
    dates_pass L C J (clock w) (check_readings (ticks w) (length xs)) \<Longrightarrow>
    \<exists>ps k. deliver L s (map (\<lambda>x. save_any L (MSync x)) xs) w = Some (w\<lparr>peers := ps, ticks := k,
      messageQueue := messageQueue w @ map (\<lambda>x. sync_entry (loaded x)) xs\<rparr>)"
proof (induction xs arbitrary: w)
  case Nil
  then show ?case by (intro exI [of _ "peers w"] exI [of _ "ticks w"]) (simp add: deliver_def)
next
  case (Cons x xs)
  have x: "sync_for d x" "stamped_by L C J x" using Cons.prems(3) by simp_all
  have K: "set (check_readings (ticks w) (length (x # xs)))
      = insert (ticks w) (set (check_readings (ticks w + 2) (length xs)))"
    by (simp add: check_readings_Suc)
  have acc: "accepted L (MSync x) w"
    by (rule stamped_accepted [OF x(2) Cons.prems(4)]) (unfold K, simp)
  note f = sync_for_facts [OF x(1)]
  have r: "receiverNode (header (MSync x)) = self_ip w" "\<not> is_broadcast (self_ip w)"
    "length (save_Message L (header (MSync x))) \<le> sizeof_Message L" "wire_priority initialSync = Some lockPriority"
    using f(5) Cons.prems(1) d hd by (simp_all add: wire_priority_def)
  obtain i where "receive_at L s (save_any L (MSync x)) w = Some ([], (asked_at i w)
      \<lparr>ticks := ticks w + readings (MSync x), messageQueue := pq_emplace lockPriority (received (MSync x)) (messageQueue w)\<rparr>)"
    by (rule receive_own [OF L f(1-4) r(4) r(1-3) acc Cons.prems(2)])
  then have w1: "receive_at L s (save_any L (MSync x)) w = Some ([], (asked_at i w)
      \<lparr>ticks := ticks w + 2, messageQueue := messageQueue w @ [sync_entry (loaded x)]\<rparr>)" (is "_ = Some ([], ?w)")
    using f(6,7) by (simp add: pq_emplace_def)
  have "remoteIP ` set (peers ?w) = remoteIP ` set (peers w)"
    using arg_cong [OF asked_at_simps(14) [of i w], of set] by (simp del: asked_at_simps(14))
  moreover have "dates_pass L C J (clock ?w) (check_readings (ticks ?w) (length xs))"
    using dates_pass_mono [OF Cons.prems(4), of "check_readings (ticks w + 2) (length xs)"] unfolding K by auto
  ultimately obtain ps k where "deliver L s (map (\<lambda>x. save_any L (MSync x)) xs) ?w = Some (?w\<lparr>peers := ps,
      ticks := k, messageQueue := messageQueue ?w @ map (\<lambda>x. sync_entry (loaded x)) xs\<rparr>)"
    using Cons.IH [of ?w] Cons.prems(1-3) by auto
  then show ?case
    using w1 by (intro exI [of _ ps] exI [of _ k]) (simp add: deliver_def asked_at_def)
qed

section \<open>Working off the queue\<close>

primrec process_messages :: "lib \<Rightarrow> nat \<Rightarrow> (world, unit) prog" where
  "process_messages L 0 = ret ()"
| "process_messages L (Suc n) = bnd (processNextMessage L) (\<lambda>_. process_messages L n)"

text \<open>What handling a synchronisation message makes of the process.\<close>

definition synced :: "FileInitialSyncMessage \<Rightarrow> world \<Rightarrow> world" where
  "synced m w = w\<lparr>totalInitialFiles := total m, receivedInitialFiles := receivedInitialFiles w + 1,
     ticks := Suc (ticks w), files := AList.update (targetFile m)
       (Regular (write_perms (files w) (targetFile m)) (fileContent m) (clock w (ticks w))) (files w)\<rparr>"

lemma synced_commutes:
  "synced m (w\<lparr>messageQueue := q, oldMessages := b\<rparr>) = (synced m w)\<lparr>messageQueue := q, oldMessages := b\<rparr>"
  "fold synced ms (w\<lparr>messageQueue := q, oldMessages := b\<rparr>) = (fold synced ms w)\<lparr>messageQueue := q, oldMessages := b\<rparr>"
proof -
  show s: "synced m (w\<lparr>messageQueue := q, oldMessages := b\<rparr>) = (synced m w)\<lparr>messageQueue := q, oldMessages := b\<rparr>"
    for m w by (simp add: synced_def)
  show "fold synced ms (w\<lparr>messageQueue := q, oldMessages := b\<rparr>) = (fold synced ms w)\<lparr>messageQueue := q, oldMessages := b\<rparr>"
    by (induction ms arbitrary: w) (simp_all add: s)
qed

text \<open>The files that are still to come stay receivable.\<close>

definition sync_ready :: "FileInitialSyncMessage list \<Rightarrow> world \<Rightarrow> bool" where
  "sync_ready ms w \<longleftrightarrow> distinct (map targetFile ms) \<and> (\<forall>m \<in> set ms. receivable (files w) (targetFile m))"

lemma sync_ready_step:
  assumes "sync_ready ms w" and "m \<in> set ms"
  shows "sync_ready (remove1 m ms) (synced m w)"
proof -
  have d: "distinct ms" "distinct (map targetFile ms)"
    using assms(1) by (simp_all add: sync_ready_def distinct_map)
  have "receivable (files (synced m w)) (targetFile x)" if "x \<in> set ms" "x \<noteq> m" for x
  proof -
    have "receivable (files w) (targetFile x)" "receivable (files w) (targetFile m)"
      using assms that(1) by (simp_all add: sync_ready_def)
    moreover have "targetFile x \<noteq> targetFile m"
      using d(2) assms(2) that by (auto simp: distinct_map dest: inj_onD)
    ultimately show ?thesis
      using receivable_other [of "files w" "targetFile x" "targetFile m"] by (auto simp: synced_def)
  qed
  moreover have "distinct (map targetFile (remove1 m ms))"
    using d by (auto simp: distinct_map intro: inj_on_subset [where A = "set ms"])
  ultimately show ?thesis using d(1) by (auto simp: sync_ready_def)
qed

lemma process_syncs_fold:
  "sync_ready ms w \<Longrightarrow> process_syncs ms w = (Inr (), fold synced ms w)"
proof (induction ms arbitrary: w)
  case Nil
  then show ?case by (simp add: process_syncs_def ret_exec)
next
  case (Cons m ms)
  have "processInitialFileSyncMessage m w = (Inr True, synced m w)"
    unfolding synced_def by (rule processSync_exec) (use Cons.prems in \<open>simp add: sync_ready_def\<close>)
  moreover have "process_syncs ms (synced m w) = (Inr (), fold synced ms (synced m w))"
    using Cons.IH sync_ready_step [OF Cons.prems, of m] by simp
  ultimately show ?case by (simp add: process_syncs_def bnd_exec ret_exec)
qed

text \<open>The comparator finds a next one among synchronisation messages.\<close>

lemma select_sync:
  "\<exists>y \<in> set (x # xs). pq_select (sync_entry x) (map sync_entry xs) = Some (sync_entry y)"
proof (induction xs arbitrary: x)
  case Nil
  then show ?case by simp
next
  case (Cons z zs)
  have "\<exists>l. prio_less (sync_entry x) (sync_entry z) = Some l" by (auto simp: prio_less_def)
  then obtain l where l: "prio_less (sync_entry x) (sync_entry z) = Some l" by blast
  show ?case
    using Cons.IH [of z] Cons.IH [of x] by (cases l) (auto simp: l)
qed

lemma top_sync:
  assumes "xs \<noteq> []"
  shows "\<exists>y \<in> set xs. pq_top (map sync_entry xs) = Some (sync_entry y)
    \<and> pq_pop (map sync_entry xs) = map sync_entry (remove1 y xs)"
proof -
  obtain z zs where xs: "xs = z # zs" using assms by (cases xs) auto
  obtain y where y: "y \<in> set xs" "pq_top (map sync_entry xs) = Some (sync_entry y)"
    using select_sync [of z zs] by (auto simp: xs pq_top_def)
  moreover have "remove1 (sync_entry y) (map sync_entry xs) = map sync_entry (remove1 y xs)"
    by (induction xs) auto
  ultimately show ?thesis by (auto simp: pq_pop_def)
qed


lemma process_next_sync:
  assumes "messageQueue w = map sync_entry xs" and "xs \<noteq> []" and "sync_ready xs w" and "cache_ok w"
    and "\<forall>x \<in> set xs. mtype x = type_code initialSync"
  shows "\<exists>y \<in> set xs. processNextMessage L w = (Inr (), (synced y w)
    \<lparr>messageQueue := map sync_entry (remove1 y xs), oldMessages := emplace_back (Some (MSync y)) (oldMessages w)\<rparr>)"
proof -
  obtain y where y: "y \<in> set xs" "pq_top (messageQueue w) = Some (sync_entry y)"
    "pq_pop (messageQueue w) = map sync_entry (remove1 y xs)"
    using top_sync [OF assms(2)] assms(1) by auto
  let ?w = "w\<lparr>messageQueue := pq_pop (messageQueue w)\<rparr>"
  have k: "msg_kind (MSync y) = Some initialSync"
    using assms(5) y(1) by (simp add: msg_kind_Some Message.defs)
  have "processInitialFileSyncMessage y ?w = (Inr True, synced y ?w)"
    unfolding synced_def by (rule processSync_exec) (use assms(3) y(1) in \<open>simp add: sync_ready_def\<close>)
  then have "dispatch L (MSync y) ?w = (Inr None, synced y ?w)"
    by (simp add: dispatch_def k as_sync_def cast_def exec_simps requeue_def)
  moreover have "cache_ok (synced y ?w)" using assms(4) by (simp add: synced_def cache_ok_def)
  ultimately show ?thesis
    using processNext_done [OF y(2)] y(1) by (intro bexI [of _ y]) (simp_all add: synced_def y(3))
qed

text \<open>The queue of synchronisation messages is worked off in some order.\<close>

lemma process_messages_syncs:
  "messageQueue w = map sync_entry xs \<Longrightarrow> sync_ready xs w \<Longrightarrow> cache_ok w \<Longrightarrow>
    \<forall>x \<in> set xs. mtype x = type_code initialSync \<Longrightarrow>
    \<exists>ys b. mset ys = mset xs \<and> process_messages L (length xs) w
      = (Inr (), (fold synced ys w)\<lparr>messageQueue := [], oldMessages := b\<rparr>)"
proof (induction "length xs" arbitrary: xs w)
  case 0
  then show ?case by (intro exI [of _ "[]"] exI [of _ "oldMessages w"]) (simp add: ret_exec)
next
  case (Suc n)
  then have ne: "xs \<noteq> []" by auto
  obtain y where y: "y \<in> set xs" "processNextMessage L w = (Inr (), (synced y w)
    \<lparr>messageQueue := map sync_entry (remove1 y xs), oldMessages := emplace_back (Some (MSync y)) (oldMessages w)\<rparr>)"
    using process_next_sync [OF Suc.prems(1) ne Suc.prems(2-4)] by blast
  let ?v = "(synced y w)\<lparr>messageQueue := map sync_entry (remove1 y xs),
      oldMessages := emplace_back (Some (MSync y)) (oldMessages w)\<rparr>"
  have n: "n = length (remove1 y xs)" using Suc.hyps(2) y(1) by (simp add: length_remove1)
  have "sync_ready (remove1 y xs) ?v"
    using sync_ready_step [OF Suc.prems(2) y(1)] by (simp add: sync_ready_def)
  moreover have "cache_ok ?v" using Suc.prems(3) by (simp add: cache_ok_def)
  moreover have "\<forall>x \<in> set (remove1 y xs). mtype x = type_code initialSync"
    using Suc.prems(4) set_remove1_subset [of y xs] by blast
  ultimately obtain ys b where ys: "mset ys = mset (remove1 y xs)"
    "process_messages L (length (remove1 y xs)) ?v
      = (Inr (), (fold synced ys ?v)\<lparr>messageQueue := [], oldMessages := b\<rparr>)"
    using Suc.hyps(1) [OF n, of ?v] by auto
  have "process_messages L (length xs) w = (Inr (), (fold synced (y # ys) w)\<lparr>messageQueue := [], oldMessages := b\<rparr>)"
    using y(2) ys(2) by (simp add: Suc.hyps(2) [symmetric] n [symmetric] bnd_exec synced_commutes)
  moreover have "mset (y # ys) = mset xs" using ys(1) y(1) by simp
  ultimately show ?case by blast
qed


section \<open>A node catches up with the network\<close>

lemma sync_ready_mset: "mset xs = mset ys \<Longrightarrow> sync_ready xs w = sync_ready ys w"
  by (metis sync_ready_def mset_eq_setD mset_eq_imp_distinct_iff mset_map)

lemma process_messages_finish:
  assumes q: "messageQueue w = map sync_entry ms" and r: "sync_ready ms w" and c: "cache_ok w"
    and t: "\<forall>m \<in> set ms. mtype m = type_code initialSync \<and> total m = of_nat (length ms)"
    and ne: "ms \<noteq> []" and z: "receivedInitialFiles w = 0"
  shows "\<exists>w'. process_messages L (length ms) w = (Inr (), w') \<and> messageQueue w' = [] \<and> isFinishedConnecting w'
    \<and> (\<forall>m \<in> set ms. \<exists>pm u. map_of (files w') (targetFile m) = Some (Regular pm (fileContent m) u))
    \<and> (\<forall>p. p \<notin> targetFile ` set ms \<longrightarrow> map_of (files w') p = map_of (files w) p)"
proof -
  obtain ys b where ys: "mset ys = mset ms" "process_messages L (length ms) w
      = (Inr (), (fold synced ys w)\<lparr>messageQueue := [], oldMessages := b\<rparr>)"
    using process_messages_syncs [OF q r c] t by blast
  have s: "set ys = set ms" and l: "length ys = length ms"
    using ys(1) mset_eq_setD mset_eq_length by blast+
  have ny: "ys \<noteq> []" using l ne by auto
  have ry: "sync_ready ys w" using r sync_ready_mset [OF ys(1)] by simp
  obtain u where u: "process_syncs ys w = (Inr (), u)" "receivedInitialFiles u = of_nat (length ms)"
    "totalInitialFiles u = total (last ys)"
    "\<forall>m \<in> set ms. \<exists>pm t. map_of (files u) (targetFile m) = Some (Regular pm (fileContent m) t)"
    "\<forall>p. p \<notin> targetFile ` set ms \<longrightarrow> map_of (files u) p = map_of (files w) p"
    using process_syncs_exec [of ys w] ry z ny l s by (auto simp: sync_ready_def)
  have "last ys \<in> set ms" using s last_in_set [OF ny] by simp
  then have "totalInitialFiles u = of_nat (length ms)" using u(3) t by simp
  moreover have "u = fold synced ys w" using u(1) process_syncs_fold [OF ry] by simp
  ultimately show ?thesis using ys(2) u(2,4,5) by (simp add: isFinishedConnecting_def)
qed

text \<open>C11: A node that joins gets every file: on its request the process sends it one message per managed
  file, and however these are ordered when they come in over the connection to the process, they pass the
  hash check (if the dates do that the two nodes compute from the readings of their clocks which stamp and
  check these messages) and wait in the queue, and once as many messages are processed, the new node has
  finished connecting, holds each file with the content it has at the sender, and has its other files as
  they were; for one or more files that are readable, unlocked, free of NUL, and that the new node has no
  folder or lock in the way of.\<close>

theorem joining_node_catches_up:
  assumes "lib_laws L" and "\<forall>h. length (save_Message L (h :: Message)) \<le> sizeof_Message L"
    and "sends_to d s w" and "isFinishedConnecting w" and "originatorNode req = d"
    and "enumerateAllFiles (folders w) (files w) = (Inr paths, files w)"
    and "paths \<noteq> []" and "distinct paths" and "\<forall>p \<in> set paths. plain_file (files w) p (c p)"
    and "\<forall>j \<in> set (stamp_readings (ticks w) (length paths)). time_fits (clock w j)"
    and "self_ip v = d" and "self_ip w \<in> remoteIP ` set (peers v)"
    and "messageQueue v = []" and "cache_ok v" and "receivedInitialFiles v = 0"
    and "\<forall>p \<in> set paths. receivable (files v) p"
    and "dates_pass L (clock w) (stamp_readings (ticks w) (length paths))
      (clock v) (check_readings (ticks v) (length paths))"
  shows "\<exists>w' datas. processInitialFileSyncRequestMessage L req w = (Inr True, w')
    \<and> outbox w' = outbox w @ map (Pair s) datas \<and> length datas = length paths
    \<and> (\<forall>arrived. mset arrived = mset datas \<longrightarrow> (\<exists>v1 v2. deliver L (self_ip w) arrived v = Some v1
          \<and> process_messages L (length paths) v1 = (Inr (), v2)
          \<and> messageQueue v2 = [] \<and> isFinishedConnecting v2
          \<and> (\<forall>p \<in> set paths. \<exists>pm t. map_of (files v2) p = Some (Regular pm (c p) t))
          \<and> (\<forall>q. q \<notin> set paths \<longrightarrow> map_of (files v2) q = map_of (files v) q)))"
proof -
  let ?n = "of_nat (length paths) :: size_t" and ?save = "\<lambda>x. save_any L (MSync x)"
  let ?J = "stamp_readings (ticks w) (length paths)" and ?s = "self_ip w"
  obtain w' xs where run: "processInitialFileSyncRequestMessage L req w = (Inr True, w')"
    "outbox w' = outbox w @ map (\<lambda>x. (s, ?save x)) xs"
    and all: "list_all2 (\<lambda>p x. carries L (clock w) ?J d ?n p (c p) x) paths xs"
    using request_is_answered [OF assms(3-6,9,10)] by blast
  have len: "length xs = length paths" using all by (simp add: list_all2_lengthD)
  have targets: "map targetFile xs = paths"
    using all by (induction rule: list_all2_induct) (simp_all add: carries_def)
  have each: "sync_for d x \<and> stamped_by L (clock w) ?J x \<and> total x = ?n \<and> fileContent x = c (targetFile x)"
    if x: "x \<in> set xs" for x
  proof -
    obtain i where i: "i < length xs" "x = xs ! i" using x by (auto simp: in_set_conv_nth)
    have "targetFile x \<in> set paths" using x targets by auto
    then have "lexically_normal (targetFile x) = targetFile x" using assms(9) by (simp add: plain_file_def)
    then show ?thesis
      using list_all2_nthD2 [OF all i(1)] i(2) by (auto simp: carries_def sync_for_def)
  qed
  have nb: "\<not> is_broadcast d" using assms(3) by (simp add: sends_to_def linked_def)
  have "\<exists>v1 v2. deliver L ?s arrived v = Some v1 \<and> process_messages L (length paths) v1 = (Inr (), v2)
      \<and> messageQueue v2 = [] \<and> isFinishedConnecting v2
      \<and> (\<forall>p \<in> set paths. \<exists>pm t. map_of (files v2) p = Some (Regular pm (c p) t))
      \<and> (\<forall>q. q \<notin> set paths \<longrightarrow> map_of (files v2) q = map_of (files v) q)"
    if arr: "mset arrived = mset (map ?save xs)" for arrived
  proof -
    obtain us where us: "mset us = mset xs" "map ?save us = arrived"
      using mset_map_order [OF arr [symmetric]] by blast
    have su: "set us = set xs" and lu: "length us = length paths"
      using mset_eq_setD [OF us(1)] mset_eq_length [OF us(1)] len by simp_all
    have K: "dates_pass L (clock w) ?J (clock v) (check_readings (ticks v) (length us))"
      using assms(17) lu by simp
    obtain ps k where v1: "deliver L ?s arrived v = Some (v\<lparr>peers := ps, ticks := k,
        messageQueue := map (\<lambda>x. sync_entry (loaded x)) us\<rparr>)" (is "_ = Some ?v1")
      using deliver_syncs [OF assms(1,2) nb assms(11,12) _ K] each su
      unfolding assms(13) us(2) by auto
    have ml: "targetFile (loaded x) = targetFile x" "fileContent (loaded x) = fileContent x"
      "total (loaded x) = total x" "mtype (loaded x) = type_code initialSync" if "x \<in> set us" for x
      using each [of x] that su by (simp_all add: loaded_def sync_for_def)
    have tu: "map targetFile (map loaded us) = map targetFile us" using ml(1) by simp
    have mt: "mset (map targetFile (map loaded us)) = mset paths"
      unfolding tu mset_map us(1) targets [symmetric] ..
    have dist: "distinct (map targetFile (map loaded us))"
      using assms(8) mset_eq_imp_distinct_iff [OF mt] by blast
    have sp: "targetFile ` set (map loaded us) = set paths"
      using mset_eq_setD [OF mt] by (simp only: list.set_map)
    let ?ms = "map loaded us"
    have q: "messageQueue ?v1 = map sync_entry ?ms" by (simp add: comp_def)
    have r: "sync_ready ?ms ?v1"
      using dist assms(16) unfolding sync_ready_def sp [symmetric] by simp
    have k: "cache_ok ?v1" using assms(14) by (simp add: cache_ok_def)
    have t: "\<forall>m \<in> set ?ms. mtype m = type_code initialSync \<and> total m = of_nat (length ?ms)"
      using each su lu ml by auto
    have n: "?ms \<noteq> []" using lu assms(7) by auto
    have z: "receivedInitialFiles ?v1 = 0" using assms(15) by simp
    obtain v2 where v2: "process_messages L (length paths) ?v1 = (Inr (), v2)" "messageQueue v2 = []"
      "isFinishedConnecting v2"
      "\<forall>m \<in> set ?ms. \<exists>pm u. map_of (files v2) (targetFile m) = Some (Regular pm (fileContent m) u)"
      "\<forall>p. p \<notin> set paths \<longrightarrow> map_of (files v2) p = map_of (files v) p"
      using process_messages_finish [OF q r k t n z, of L] unfolding sp length_map lu
      by (elim exE conjE) simp
    have "\<exists>pm t. map_of (files v2) p = Some (Regular pm (c p) t)" if p: "p \<in> set paths" for p
    proof -
      have "p \<in> targetFile ` loaded ` set us" using p sp by simp
      then obtain z where z: "z \<in> set us" "p = targetFile (loaded z)" by blast
      then have "fileContent (loaded z) = c p" using each [of z] su ml [of z] by simp
      then show ?thesis using v2(4) z by auto
    qed
    then show ?thesis using v1 v2 by blast
  qed
  then show ?thesis
    using run len by (intro exI [of _ w'] exI [of _ "map ?save xs"]) (simp add: comp_def)
qed


text \<open>Clocks that run forward, on machines that evaluate the second of the two calls first: of each pair of
  readings for a date the first is the later one.  The sender stamps its files 5.5 seconds after the
  epoch.\<close>

definition sender_clock :: "nat \<Rightarrow> int" where
  "sender_clock i = 5500000000 + 1000 * int (i div 3) + (if i mod 3 = 1 then 200 else if i mod 3 = 2 then 100 else 0)"

definition receiver_clock :: "nat \<Rightarrow> int" where
  "receiver_clock i = 6000000000 + 1000 * int (i div 2) + (if even i then 100 else 0)"

lemma sample_dates_pass:
  "dates_pass date_lib sender_clock (stamp_readings 0 2) receiver_clock (check_readings 0 2)"
proof -
  have c: "sender_clock 0 = 5500000000" "sender_clock (Suc 0) = 5500000200" "sender_clock (Suc (Suc 0)) = 5500000100"
    "sender_clock 3 = 5500001000" "sender_clock (Suc 3) = 5500001200" "sender_clock (Suc (Suc 3)) = 5500001100"
    "receiver_clock 0 = 6000000100" "receiver_clock (Suc 0) = 6000000000"
    "receiver_clock 2 = 6000001100" "receiver_clock (Suc 2) = 6000001000"
    by (simp_all add: sender_clock_def receiver_clock_def)
  have rs: "stamp_readings 0 2 = [0, 3]" "check_readings 0 2 = [0, 2]"
    by (simp_all add: stamp_readings_def check_readings_def numeral_2_eq_2 upt_conv_Cons)
  have s: "to_time_t 5500000000 5500000200 5500000100 = 5" "to_time_t 5500001000 5500001200 5500001100 = 5"
    by (simp_all add: to_time_t_def convertTimepoint_def sys_to_time_t_def tdiv_def)
  have w: "whole_seconds 5500000000 = 5000000000" "whole_seconds 5500001000 = 5000000000"
    by (simp_all add: whole_seconds_def sys_from_time_t_def sys_to_time_t_def tdiv_def)
  have r: "to_time_t 5000000000 6000000100 6000000000 = 4" "to_time_t 5000000000 6000001100 6000001000 = 4"
    by (simp_all add: to_time_t_def convertTimepoint_def sys_to_time_t_def tdiv_def)
  have "hash_str (ctime date_lib 5) = hash_str (ctime date_lib 4) + 1"
    using hash_date_step [OF dated_date_lib, of 5] by simp
  then show ?thesis by (simp only: dates_pass_def rs list.set ball_simps c s w r simp_thms)
qed

text \<open>The node 9 with two files, and the node 7 that joins without any.\<close>

definition two_files :: filesystem where
  "two_files = [([''d''], Directory 0x1ED), ([''d'', ''f''], Regular 0x1A4 ''old'' 0),
     ([''d'', ''g''], Regular 0x1A4 ''more'' 0)]"

theorem joining_node_catches_up_witness:
  "let w = kept_world\<lparr>files := two_files, peers := [new_peer (IPv6 7) 1], clock := sender_clock\<rparr>;
       v = kept_world\<lparr>self_ip := IPv6 7, files := [([''d''], Directory 0x1ED)], peers := [new_peer (IPv6 9) 1],
         clock := receiver_clock\<rparr>
   in \<exists>w' a b v1 v2.
        processInitialFileSyncRequestMessage date_lib ((new_Message initialSyncRequest)\<lparr>originatorNode := IPv6 7\<rparr>) w
          = (Inr True, w') \<and> outbox w' = [(IPv6 7, a), (IPv6 7, b)]
      \<and> deliver date_lib (IPv6 9) [b, a] v = Some v1 \<and> process_messages date_lib 2 v1 = (Inr (), v2)
      \<and> isFinishedConnecting v2 \<and> (\<exists>pm t. map_of (files v2) [''d'', ''f''] = Some (Regular pm ''old'' t))
      \<and> (\<exists>pm t. map_of (files v2) [''d'', ''g''] = Some (Regular pm ''more'' t))"
proof -
  let ?w = "kept_world\<lparr>files := two_files, peers := [new_peer (IPv6 7) 1], clock := sender_clock\<rparr>"
  let ?v = "kept_world\<lparr>self_ip := IPv6 7, files := [([''d''], Directory 0x1ED)], peers := [new_peer (IPv6 9) 1],
         clock := receiver_clock\<rparr>"
  let ?f = "[''d'', ''f'']" and ?g = "[''d'', ''g'']" and ?req = "(new_Message initialSyncRequest)\<lparr>originatorNode := IPv6 7\<rparr>"
  let ?c = "\<lambda>p. if p = [''d'', ''f''] then ''old'' else ''more''"
  have s: "sends_to (IPv6 7) (IPv6 7) ?w"
    using cache_ok_sample
    by (simp add: sends_to_def cache_ok_def kept_world_def linked_def link_to_def is_broadcast_def is_self_def
        isValid_def)
  have b: "isFinishedConnecting ?w" "originatorNode ?req = IPv6 7" "receivedInitialFiles ?v = 0"
    "self_ip ?v = IPv6 7" "self_ip ?w \<in> remoteIP ` set (peers ?v)" "messageQueue ?v = []" "cache_ok ?v"
    using cache_ok_sample by (simp_all add: isFinishedConnecting_def kept_world_def cache_ok_def)
  have t: "ticks ?w = 0" "ticks ?v = 0" "clock ?w = sender_clock" "clock ?v = receiver_clock"
    by (simp_all add: kept_world_def)
  have dp: "dates_pass date_lib (clock ?w) (stamp_readings (ticks ?w) (length [?f, ?g]))
      (clock ?v) (check_readings (ticks ?v) (length [?f, ?g]))"
    using sample_dates_pass unfolding t by (simp add: numeral_2_eq_2)
  have tf: "\<forall>j \<in> set (stamp_readings (ticks ?w) (length [?f, ?g])). time_fits (clock ?w j)"
    unfolding t by (simp add: stamp_readings_def upt_conv_Cons sender_clock_def time_fits_def sys_to_time_t_def tdiv_def)
  have e: "enumerateAllFiles (folders ?w) (files ?w) = (Inr [?f, ?g], files ?w)"
    by (simp add: kept_world_def two_files_def enumerate_folder_def bnd_exec gets_exec ret_exec lookup_def entry_def
        resolve_def below_def path_div_def is_absolute_def)
  have f: "plain_file (files ?w) ?f ''old''" "plain_file (files ?w) ?g ''more''"
    using lockFilePath_eq [of "''f''" "''d''" "[]"] lockFilePath_eq [of "''g''" "''d''" "[]"]
    by (simp_all add: plain_file_def two_files_def content_read_def lookup_def entry_def resolve_def
      lexically_normal_def path_fits_def name_ok_def)
  have mg: "managed ?g" by (simp add: managed_def file_path_def name_ok_def is_good_iff resolve_def lock_name_def)
  have r: "receivable (files ?v) ?f" "receivable (files ?v) ?g"
    using managed_d_f(1) mg
    by (simp_all add: receivable_def no_dir_def can_write_def has_filename_def
        lookup_def entry_def resolve_def folder_there_def parent_writable_def writable_dir_def)
  have h: "\<forall>m. length (save_Message date_lib (m :: Message)) \<le> sizeof_Message date_lib"
    by (simp add: save_Message_def save_ip_def date_lib_def raw_lib_def split: ip_address.split)
  have "\<exists>w' datas. processInitialFileSyncRequestMessage date_lib ?req ?w = (Inr True, w')
    \<and> outbox w' = outbox ?w @ map (Pair (IPv6 7)) datas \<and> length datas = length [?f, ?g]
    \<and> (\<forall>arrived. mset arrived = mset datas \<longrightarrow> (\<exists>v1 v2. deliver date_lib (self_ip ?w) arrived ?v = Some v1
          \<and> process_messages date_lib (length [?f, ?g]) v1 = (Inr (), v2)
          \<and> messageQueue v2 = [] \<and> isFinishedConnecting v2
          \<and> (\<forall>p \<in> set [?f, ?g]. \<exists>pm t. map_of (files v2) p = Some (Regular pm (?c p) t))
          \<and> (\<forall>q. q \<notin> set [?f, ?g] \<longrightarrow> map_of (files v2) q = map_of (files ?v) q)))"
    by (rule joining_node_catches_up [OF date.lib_laws_axioms h s b(1,2) e _ _ _ tf b(4-7,3) _ dp])
      (use f r in simp_all)
  then obtain w' datas where w': "processInitialFileSyncRequestMessage date_lib ?req ?w = (Inr True, w')"
    "outbox w' = outbox ?w @ map (Pair (IPv6 7)) datas" "length datas = length [?f, ?g]"
    and all: "\<And>arrived. mset arrived = mset datas \<Longrightarrow> \<exists>v1 v2. deliver date_lib (self_ip ?w) arrived ?v = Some v1
          \<and> process_messages date_lib (length [?f, ?g]) v1 = (Inr (), v2)
          \<and> messageQueue v2 = [] \<and> isFinishedConnecting v2
          \<and> (\<forall>p \<in> set [?f, ?g]. \<exists>pm t. map_of (files v2) p = Some (Regular pm (?c p) t))
          \<and> (\<forall>q. q \<notin> set [?f, ?g] \<longrightarrow> map_of (files v2) q = map_of (files ?v) q)"
    by blast
  obtain a b where data: "datas = [a, b]" using w'(3) by (auto simp: length_Suc_conv)
  have k: "self_ip ?w = IPv6 9" "outbox ?w = []" "length [?f, ?g] = 2" by (simp_all add: kept_world_def)
  have "mset [b, a] = mset datas" by (simp add: data)
  from all [OF this] obtain v1 v2 where v: "deliver date_lib (self_ip ?w) [b, a] ?v = Some v1"
    "process_messages date_lib (length [?f, ?g]) v1 = (Inr (), v2)" "isFinishedConnecting v2"
    "\<forall>p \<in> set [?f, ?g]. \<exists>pm t. map_of (files v2) p = Some (Regular pm (?c p) t)"
    by blast
  have "\<exists>pm t. map_of (files v2) ?f = Some (Regular pm ''old'' t)"
    "\<exists>pm t. map_of (files v2) ?g = Some (Regular pm ''more'' t)"
    using v(4) by simp_all
  moreover have "outbox w' = [(IPv6 7, a), (IPv6 7, b)]" using w'(2) by (simp add: k(2) data)
  ultimately show ?thesis
    using w'(1) v(1-3) unfolding Let_def k by blast
qed

end
