(* ===== verification/Deque.thy ===== *)
theory Deque
  imports CircularBuffer
begin

text \<open>
  The rest of the ring of \<open>src/thirdparty/circular_buffer.hpp\<close>: its constructors and assignments,
  \<open>push_front\<close> and \<open>push_back\<close>, iterators that go backwards; and the ring as a double-ended queue of
  bounded length.  The reverse iterators are left out: \<open>rbegin\<close> and its like convert an iterator
  where \<open>std::reverse_iterator\<close> has an explicit constructor, so no use of them compiles.
\<close>

section \<open>Constructors and assignments\<close>

text \<open>From a container: all its slots but one count as used.  The overloads for \<open>const&&\<close> copy.\<close>

definition size_less_one :: "'a list \<Rightarrow> nat" where
  "size_less_one c = (length c + 2 ^ 64 - 1) mod 2 ^ 64"

definition from_container :: "'a list \<Rightarrow> nat \<Rightarrow> 'a circular_buffer" where
  "from_container c st = \<lparr>cells = c, bsize = size_less_one c, start = st\<rparr>"

definition copy_ring :: "('a, 'b) circular_buffer_scheme \<Rightarrow> 'a circular_buffer" where
  "copy_ring b = \<lparr>cells = cells b, bsize = bsize b, start = start b\<rparr>"

definition assign_ring ::
    "('a, 'c) circular_buffer_scheme \<Rightarrow> ('a, 'b) circular_buffer_scheme \<Rightarrow> ('a, 'b) circular_buffer_scheme" where
  "assign_ring other b = b\<lparr>cells := cells other, bsize := bsize other, start := start other\<rparr>"

text \<open>The assignment of a container ends without the \<open>return\<close> its type asks for.\<close>

definition assign_container :: "'a list \<Rightarrow> (('a, 'b) circular_buffer_scheme, unit) prog" where
  "assign_container c =
     bnd (updates (\<lambda>b. b\<lparr>cells := c, bsize := size_less_one c, start := 0\<rparr>)) (\<lambda>_.
     throw (Undefined ''missing return''))"

definition with_finalizer :: "'a circular_buffer \<Rightarrow> ('a \<Rightarrow> exn + 'a) \<Rightarrow> 'a finalizeable_buffer" where
  "with_finalizer b f = circular_buffer.extend b (finalizeable_buffer.fields f)"

definition f_destroy :: "('a finalizeable_buffer, unit) prog" where
  "f_destroy = f_clear"

section \<open>Iterators\<close>

definition it_decrement :: "('a, 'b) circular_buffer_scheme \<Rightarrow> circular_iterator \<Rightarrow> circular_iterator" where
  "it_decrement b it = \<lparr>it_i = decrement b (it_i it), it_isBegin = False\<rparr>"

definition it_post_increment ::
    "('a, 'b) circular_buffer_scheme \<Rightarrow> circular_iterator \<Rightarrow> circular_iterator \<times> circular_iterator" where
  "it_post_increment b it = (it, it_increment b it)"

definition it_post_decrement ::
    "('a, 'b) circular_buffer_scheme \<Rightarrow> circular_iterator \<Rightarrow> circular_iterator \<times> circular_iterator" where
  "it_post_decrement b it = (it, it_decrement b it)"

definition it_deref :: "('a, 'b) circular_buffer_scheme \<Rightarrow> circular_iterator \<Rightarrow> 'a" where
  "it_deref b it = cells b ! it_i it"

section \<open>Pushing\<close>

definition push_front ::
    "'a \<Rightarrow> ('a, 'b) circular_buffer_scheme \<Rightarrow> ('a, 'b) circular_buffer_scheme" where
  "push_front r b =
     (let b1 = (if bsize b < capacity b
                then b\<lparr>start := decrement b (start b), bsize := bsize b + 1\<rparr>
                else b\<lparr>start := decrement b (start b)\<rparr>)
      in b1\<lparr>cells := (cells b1)[start b1 := r]\<rparr>)"

definition push_back ::
    "'a \<Rightarrow> ('a, 'b) circular_buffer_scheme \<Rightarrow> ('a, 'b) circular_buffer_scheme" where
  "push_back r b =
     (let b1 = b\<lparr>cells := (cells b)[cb_end b := r]\<rparr>
      in if bsize b1 < capacity b1 then b1\<lparr>bsize := bsize b1 + 1\<rparr>
         else b1\<lparr>start := increment b1 (start b1)\<rparr>)"

definition f_push_front :: "'a \<Rightarrow> ('a finalizeable_buffer, unit) prog" where
  "f_push_front r =
     bnd (gets id) (\<lambda>b.
     bnd (if bsize b < capacity b
          then updates (\<lambda>b. b\<lparr>start := decrement b (start b), bsize := bsize b + 1\<rparr>)
          else bnd (updates (\<lambda>b. b\<lparr>start := decrement b (start b)\<rparr>)) (\<lambda>_.
               bnd (gets start) finalize_at)) (\<lambda>_.
     updates (\<lambda>b. b\<lparr>cells := (cells b)[start b := r]\<rparr>)))"

definition f_push_back :: "'a \<Rightarrow> ('a finalizeable_buffer, unit) prog" where
  "f_push_back r =
     bnd (gets id) (\<lambda>b.
     bnd (if capacity b \<le> bsize b then finalize_at (cb_end b) else ret ()) (\<lambda>_.
     bnd (updates (\<lambda>b. b\<lparr>cells := (cells b)[cb_end b := r]\<rparr>)) (\<lambda>_.
     updates (\<lambda>b. if bsize b < capacity b then b\<lparr>bsize := bsize b + 1\<rparr>
       else b\<lparr>start := increment b (start b)\<rparr>))))"

lemma push_is_emplace: "push_front = emplace_front" "push_back = emplace_back"
  by (intro ext; simp add: push_front_def emplace_front_def push_back_def emplace_back_def)+

lemma f_push_exec:
  assumes "total_finalizer b"
  shows "f_push_front x b = (Inr (), push_front x b)" and "f_push_back x b = (Inr (), push_back x b)"
proof -
  have "f_emplace_front x = bnd (f_push_front x) (\<lambda>_. gets cb_begin)"
    by (rule ext) (simp add: f_emplace_front_def f_push_front_def exec_simps split: prod.split sum.split)
  then show "f_push_front x b = (Inr (), push_front x b)"
    using f_emplace_front_exec [OF assms, of x]
    by (auto simp: exec_simps push_is_emplace split: prod.splits sum.splits)
  have "f_emplace_back x = bnd (f_push_back x) (\<lambda>_. gets emplace_back_iter)"
    by (rule ext) (simp add: f_emplace_back_def f_push_back_def emplace_back_def Let_def exec_simps
        capacity_def split: prod.split sum.split)
  then show "f_push_back x b = (Inr (), push_back x b)"
    using f_emplace_back_exec [OF assms, of x]
    by (auto simp: exec_simps push_is_emplace split: prod.splits sum.splits)
qed

section \<open>What the constructors make\<close>

lemma rotate_nth:
  assumes "st < length c" and "j < length c"
  shows "(drop st c @ take st c) ! j = c ! ((st + j) mod length c)"
proof (cases "j < length c - st")
  case True
  then show ?thesis using assms by (simp add: nth_append)
next
  case False
  then have "(st + j) mod length c = st + j - length c"
    using assms False le_mod_geq [of "length c" "st + j"] by simp
  then show ?thesis using False assms by (simp add: nth_append add.commute)
qed

text \<open>A ring made from a container does not contain the element before its start.\<close>

lemma from_container_contents:
  assumes "st < length c" and "length c < 2 ^ 64"
  shows "contents (from_container c st) = butlast (drop st c @ take st c)"
proof (rule nth_equalityI)
  have s: "size_less_one c = length c - 1"
  proof -
    have "length c + 2 ^ 64 - 1 = (length c - 1) + 2 ^ 64" using assms(1) by simp
    moreover have "length c - 1 < 2 ^ 64" using assms(2) by simp
    ultimately show ?thesis unfolding size_less_one_def by (simp only: mod_add_self2 mod_less)
  qed
  show "length (contents (from_container c st)) = length (butlast (drop st c @ take st c))"
    using assms(1) by (simp add: from_container_def s)
  fix i assume "i < length (contents (from_container c st))"
  then have i: "i < length c - 1" by (simp add: from_container_def s)
  then have "contents (from_container c st) ! i = c ! ((st + i) mod length c)"
    by (simp add: contents_nth from_container_def s slot_def capacity_def)
  also have "\<dots> = (drop st c @ take st c) ! i" using rotate_nth [OF assms(1), of i] i by simp
  also have "\<dots> = butlast (drop st c @ take st c) ! i" using i assms(1) by (simp add: nth_butlast)
  finally show "contents (from_container c st) ! i = butlast (drop st c @ take st c) ! i" .
qed

lemma copy_contents: "contents (copy_ring b) = contents b" "contents (assign_ring b c) = contents b"
  by (simp_all add: contents_def slot_def capacity_def copy_ring_def assign_ring_def)

text \<open>No step backwards leads to \<open>begin()\<close>, whose flag only a new iterator has.\<close>

lemma backwards_never_at_begin: "\<not> it_equal (it_decrement b it) (cb_begin c)"
  by (simp add: it_equal_def it_decrement_def cb_begin_def)

section \<open>A double-ended queue of bounded length\<close>

text \<open>What a slot holds that is changed from outside.\<close>

lemma contents_slot_update:
  assumes "cb_inv b" and "j < capacity b"
  shows "contents (b\<lparr>cells := (cells b)[(start b + j) mod capacity b := y]\<rparr>) = (contents b)[j := y]"
proof (rule nth_equalityI)
  let ?n = "capacity b" and ?b = "b\<lparr>cells := (cells b)[(start b + j) mod capacity b := y]\<rparr>"
  show "length (contents ?b) = length ((contents b)[j := y])" by simp
  fix i assume "i < length (contents ?b)"
  then have i: "i < bsize b" "i < ?n" using assms(1) by (simp_all add: cb_inv_def)
  have "(start b + i) mod ?n = (start b + j) mod ?n \<longleftrightarrow> i = j"
    using offset_inj [of i ?n j "start b"] i assms(2) by auto
  moreover have "(start b + i) mod ?n < length (cells b)"
    using i(2) unfolding capacity_def by (intro mod_less_divisor) auto
  ultimately show "contents ?b ! i = (contents b)[j := y] ! i"
    using i(1) by (auto simp: contents_nth slot_def capacity_def nth_list_update)
qed

lemma f_pop_front_exec:
  assumes inv: "cb_inv b" and f: "total_finalizer b"
  shows "\<exists>b'. f_pop_front b = (Inr (), b') \<and> cb_inv b' \<and> total_finalizer b' \<and> capacity b' = capacity b
    \<and> contents b' = tl (contents b)"
proof (cases "0 < bsize b")
  case True
  have n: "start b < capacity b" using inv by (simp add: cb_inv_def)
  obtain y where y: "finalizer b (cells b ! start b) = Inr y" using f by (auto simp: total_finalizer_def)
  let ?b = "b\<lparr>cells := (cells b)[start b := y]\<rparr>"
  have i: "cb_inv ?b" using inv by (simp add: cb_inv_def capacity_def)
  have "contents ?b = (contents b)[0 := y]"
    using contents_slot_update [OF inv, of 0 y] n by simp
  then have "contents (pop_front ?b) = tl (contents b)"
    using pop_front_contents [OF i] by (cases "contents b") simp_all
  moreover have "f_pop_front b = (Inr (), pop_front ?b)"
    using True by (simp add: f_pop_front_def exec_simps finalize_at_exec [OF y] pop_front_def)
  moreover have "capacity (pop_front ?b) = capacity b" by (simp add: capacity_def pop_front_def)
  moreover have "total_finalizer (pop_front ?b)" using f by (simp add: total_finalizer_def pop_front_def)
  ultimately show ?thesis using cb_inv_ops(3) [OF i] by blast
next
  case False
  then show ?thesis using assms by (simp add: f_pop_front_def exec_simps contents_def)
qed

lemma f_pop_back_exec:
  assumes inv: "cb_inv b" and f: "total_finalizer b"
  shows "\<exists>b'. f_pop_back b = (Inr (), b') \<and> cb_inv b' \<and> total_finalizer b' \<and> capacity b' = capacity b
    \<and> contents b' = butlast (contents b)"
proof (cases "0 < bsize b")
  case True
  let ?p = "pop_back b" and ?k = "bsize b - 1"
  have i: "cb_inv ?p" using inv by simp
  have e: "cb_end ?p = (start ?p + ?k) mod capacity ?p" and z: "bsize ?p = ?k" and k: "?k < capacity ?p"
    using True inv by (auto simp: cb_end_def pop_back_def capacity_def cb_inv_def)
  obtain y where y: "finalizer ?p (cells ?p ! cb_end ?p) = Inr y"
    using f that by (fastforce simp: total_finalizer_def pop_back_def split: if_splits)
  let ?b = "?p\<lparr>cells := (cells ?p)[cb_end ?p := y]\<rparr>"
  have "contents ?b = (contents ?p)[?k := y]"
    unfolding e by (rule contents_slot_update [OF i k])
  then have "contents ?b = butlast (contents b)" using z by (simp add: pop_back_contents list_update_beyond)
  moreover have "f_pop_back b = (Inr (), ?b)"
    using True finalize_at_exec [OF y] by (simp add: f_pop_back_def exec_simps pop_back_def)
  moreover have "cb_inv ?b" "capacity ?b = capacity b" using i by (simp_all add: cb_inv_def capacity_def pop_back_def)
  moreover have "total_finalizer ?b" using f by (simp add: total_finalizer_def pop_back_def)
  ultimately show ?thesis by blast
next
  case False
  then show ?thesis using assms by (simp add: f_pop_back_def exec_simps contents_def)
qed

text \<open>Operations at both ends, on the ring and on a list of at most \<open>n\<close> elements.\<close>

datatype 'a deque_op = Push_front 'a | Push_back 'a | Pop_front | Pop_back

primrec ring_op :: "'a deque_op \<Rightarrow> ('a finalizeable_buffer, unit) prog" where
  "ring_op (Push_front x) = f_push_front x"
| "ring_op (Push_back x) = f_push_back x"
| "ring_op Pop_front = f_pop_front"
| "ring_op Pop_back = f_pop_back"

primrec list_op :: "nat \<Rightarrow> 'a deque_op \<Rightarrow> 'a list \<Rightarrow> 'a list" where
  "list_op n (Push_front x) xs = take n (x # xs)"
| "list_op n (Push_back x) xs = drop (Suc (length xs) - n) (xs @ [x])"
| "list_op n Pop_front xs = tl xs"
| "list_op n Pop_back xs = butlast xs"

lemma ring_op_exec:
  assumes inv: "cb_inv b" and f: "total_finalizer b"
  shows "\<exists>b'. ring_op p b = (Inr (), b') \<and> cb_inv b' \<and> total_finalizer b' \<and> capacity b' = capacity b
    \<and> contents b' = list_op (capacity b) p (contents b)"
proof (cases p)
  case (Push_front x)
  have n: "0 < capacity b" "bsize b \<le> capacity b" using inv by (simp_all add: cb_inv_def)
  have "contents (emplace_front x b) = take (capacity b) (x # contents b)"
    using n by (cases "bsize b < capacity b")
      (simp_all add: emplace_front_contents [OF inv] take_Cons' butlast_conv_take)
  moreover have "total_finalizer (emplace_front x b)"
    using f by (simp add: total_finalizer_def emplace_front_def Let_def)
  ultimately show ?thesis using f_push_exec(1) [OF f, of x] inv Push_front by (simp add: push_is_emplace)
next
  case (Push_back x)
  then show ?thesis
    using f_push_exec(2) [OF f, of x] inv f cb_log.items_push [OF inv, of x] by (simp add: push_is_emplace)
qed (use f_pop_front_exec [OF assms] f_pop_back_exec [OF assms] in simp_all)

text \<open>C36: The ring is a double-ended queue of bounded length: any sequence of pushes and pops at both ends
  does to its contents what it does to a list that drops elements at the other end when it is full,
  whatever the finaliser makes of the slots, as long as it does not throw.\<close>

theorem ring_is_a_bounded_deque:
  assumes "cb_inv b" and "total_finalizer b"
  shows "\<exists>b'. for_each ring_op ops b = (Inr (), b') \<and> cb_inv b' \<and> capacity b' = capacity b
    \<and> contents b' = fold (list_op (capacity b)) ops (contents b)"
  using assms
proof (induction ops arbitrary: b)
  case Nil
  then show ?case by (simp add: ret_exec)
next
  case (Cons p ops)
  obtain c where c: "ring_op p b = (Inr (), c)" "cb_inv c" "total_finalizer c" "capacity c = capacity b"
    "contents c = list_op (capacity b) p (contents b)"
    using ring_op_exec [OF Cons.prems, of p] by blast
  obtain b' where "for_each ring_op ops c = (Inr (), b')" "cb_inv b'" "capacity b' = capacity c"
    "contents b' = fold (list_op (capacity c)) ops (contents c)"
    using Cons.IH [OF c(2,3)] by blast
  then show ?case using c by (auto simp: bnd_exec)
qed

theorem ring_is_a_bounded_deque_witness:
  "\<exists>b. for_each ring_op [Push_back 1, Push_back 2, Push_back 3, Push_front 4, Pop_back]
      (setFinalizer (\<lambda>x. Inr (- x)) (new_finalizeable 2 (0 :: int))) = (Inr (), b) \<and> contents b = [4]"
proof -
  let ?b = "setFinalizer (\<lambda>x. Inr (- x)) (new_finalizeable 2 (0 :: int))"
  have i: "cb_inv ?b" "total_finalizer ?b" "capacity ?b = 2" "contents ?b = []"
    by (simp_all add: cb_inv_def total_finalizer_def setFinalizer_def new_finalizeable_def capacity_def contents_def)
  show ?thesis
    using ring_is_a_bounded_deque [OF i(1,2), of "[Push_back 1, Push_back 2, Push_back 3, Push_front 4, Pop_back]"]
    unfolding i(3,4) by auto
qed

end
