(* ===== verification/Failures.thy ===== *)
theory Failures
  imports Replication
begin

text \<open>
  Errors that end a process.  Neither the main loop of \<open>src/src/main.cpp\<close> nor \<open>processNextMessage\<close>
  catches what the handlers of \<open>src/src/message_manager.cpp\<close> throw, and these change the permissions
  of a file before they look whether it is there.
\<close>

section \<open>Errors in the main loop\<close>

text \<open>The clock is within the second of processing.\<close>

definition within_second :: "int \<Rightarrow> world \<Rightarrow> bool" where
  "within_second began w \<longleftrightarrow> tdiv (clock w (ticks w) - began) 1000000 < 1000"

lemma second_fails:
  assumes "within_second began w" and "fst (processNextMessage L (w\<lparr>ticks := Suc (ticks w)\<rparr>)) = Inl e"
  shows "fst (process_for_a_second L (Suc fuel) began w) = Inl e"
proof (cases "processNextMessage L (w\<lparr>ticks := Suc (ticks w)\<rparr>)")
  case (Pair r v)
  then show ?thesis using assms by (simp add: exec_simps within_second_def)
qed

lemma next_fails:
  assumes "pq_top (messageQueue w) = Some (k, m)"
    and "dispatch L m (w\<lparr>messageQueue := pq_pop (messageQueue w)\<rparr>) = (Inl e, v)"
  shows "fst (processNextMessage L w) = Inl e"
  using assms(2) by (simp add: processNextMessage_exec [OF assms(1)] bnd_exec)

lemma main_loop_fails:
  assumes "within_second began w" and "messageQueue w = [(k, m)]"
    and "dispatch L m (w\<lparr>messageQueue := [], ticks := Suc (ticks w)\<rparr>) = (Inl e, v)"
  shows "fst (process_for_a_second L (Suc fuel) began w) = Inl e"
proof (rule second_fails [OF assms(1)])
  let ?w = "w\<lparr>ticks := Suc (ticks w)\<rparr>"
  have "?w\<lparr>messageQueue := pq_pop (messageQueue ?w)\<rparr> = w\<lparr>messageQueue := [], ticks := Suc (ticks w)\<rparr>"
    by (simp add: assms(2) queue_of_one)
  then have "dispatch L m (?w\<lparr>messageQueue := pq_pop (messageQueue ?w)\<rparr>) = (Inl e, v)"
    using assms(3) by (simp only:)
  then show "fst (processNextMessage L ?w) = Inl e"
    by (rule next_fails [rotated]) (simp add: assms(2) queue_of_one)
qed

text \<open>An idle process in sync that has neither the file nor a lock on it.\<close>

definition lacks_file :: "path \<Rightarrow> world \<Rightarrow> bool" where
  "lacks_file p w \<longleftrightarrow> isFinishedConnecting w \<and> messageQueue w = []
     \<and> map_of (files w) p = None \<and> map_of (files w) (the_lock_path p) = None"

lemma handlers_fail:
  assumes "lacks_file p w" and "managed p"
  shows "mtype x = type_code contentChange \<Longrightarrow> targetFile x = p \<Longrightarrow>
      \<exists>v. dispatch L (MContent x) (w\<lparr>ticks := k\<rparr>) = (Inl (FilesystemError ENOENT p), v)"
    and "mtype y = type_code deleteFile \<Longrightarrow> targetFile y = p \<Longrightarrow>
      \<exists>v. dispatch L (MFile y) (w\<lparr>ticks := k\<rparr>) = (Inl (FilesystemError ENOENT p), v)"
proof -
  let ?w = "w\<lparr>ticks := k\<rparr>"
  have w: "isFinishedConnecting ?w" "map_of (files ?w) p = None" "map_of (files ?w) (the_lock_path p) = None"
    using assms(1) by (simp_all add: lacks_file_def isFinishedConnecting_def)
  note throws = change_of_a_missing_file_throws [OF w(1) assms(2) w(2,3), of _ L]
  show "\<exists>v. dispatch L (MContent x) ?w = (Inl (FilesystemError ENOENT p), v)"
    if "mtype x = type_code contentChange" "targetFile x = p"
    using that(1) throws(1) [OF that(2)] msg_kind_Some [of "MContent x" contentChange]
    by (simp add: dispatch_def as_content_def cast_def exec_simps Message.defs)
  show "\<exists>v. dispatch L (MFile y) ?w = (Inl (FilesystemError ENOENT p), v)"
    if "mtype y = type_code deleteFile" "targetFile y = p"
    using that(1) throws(2) [OF that(2)] msg_kind_Some [of "MFile y" deleteFile]
    by (simp add: dispatch_def as_file_def cast_def exec_simps Message.defs)
qed

section \<open>A new file\<close>

lemma queued_failure:
  assumes "lacks_file p w" and "managed p" and "announced_as m p s" and "within_second began (queued_at m q w)"
  shows "fst (process_for_a_second L (Suc fuel) began (queued_at m q w)) = Inl (FilesystemError ENOENT p)"
proof -
  let ?u = "queued_at m q w"
  obtain x where x: "received m = MContent x" "targetFile x = p" "mtype x = type_code contentChange"
    using assms(3) by (auto simp: announced_as_def)
  have "lacks_file p (?u\<lparr>messageQueue := []\<rparr>)"
    using assms(1) by (simp add: lacks_file_def isFinishedConnecting_def queued_at_def)
  then obtain v where "dispatch L (MContent x) (?u\<lparr>messageQueue := [], ticks := Suc (ticks ?u)\<rparr>)
      = (Inl (FilesystemError ENOENT p), v)"
    using handlers_fail(1) [OF _ assms(2) x(3,2)] by blast
  moreover have "messageQueue ?u = [(q, MContent x)]"
    using assms(1) x(1) by (simp add: queued_at_def lacks_file_def pq_emplace_def)
  ultimately show ?thesis by (intro main_loop_fails [OF assms(4)])
qed

text \<open>C14: A new file ends the other processes of a network without cycles whose nodes all accept the
  announcement, the origin included: the content is queued at every other node, and each of them that
  is in sync, idle and has no such file (and no lock file for it) throws in its main loop, when it
  processes messages next, since adding permissions to a missing file is an error.\<close>

theorem new_file_ends_the_others:
  fixes L c s
  defines "w \<equiv> c s"
  assumes "lib_laws L" and "tree_network c (Site s ts)" and "depth (Site s ts) \<le> Suc n"
    and "cache_ok w" and "managed p" and "spelled p" and "length content < 2 ^ 64"
    and "lookup (files w) p = Some (Regular pm content tp)" and "pm AND owner_read \<noteq> 0"
    and "unsent w p content"
    and "time_fits (convertTimepoint tp (clock w (ticks w)) (clock w (ticks w + 1)))"
    and "m = announcement L w p content tp" and "accepted L m (w\<lparr>ticks := ticks w + 4\<rparr>)"
    and "length (save_Message L (header m)) \<le> sizeof_Message L"
    and "\<forall>y \<in> set (sites (Site s ts)) - {s}. accepted L m (c y)"
  shows "\<exists>c'. publish L n s (onFileCreatedOrModified_cb L p) c = Some c'
    \<and> (\<forall>y \<in> set (sites (Site s ts)) - {s}. c' y = queued_at m filePriority (c y)
      \<and> (\<forall>fuel began. lacks_file p (c y) \<and> within_second began (c' y) \<longrightarrow>
            fst (process_for_a_second L (Suc fuel) began (c' y)) = Inl (FilesystemError ENOENT p)))"
proof -
  let ?t = "Site s ts"
  note q = change_is_queued_everywhere [OF assms(2-4) _ assms(7,8) _ assms(10) _ _ _ _ assms(15,16),
      folded w_def, OF assms(5,9,11-14)]
  obtain v where v: "publish L n s (onFileCreatedOrModified_cb L p) c = Some (\<lambda>y. if y = s then v
      else if y \<in> set (sites ?t) then queued_at m filePriority (c y) else c y)" (is "_ = Some ?c")
    using q(1) by blast
  have "fst (process_for_a_second L (Suc fuel) began (?c y)) = Inl (FilesystemError ENOENT p)"
    if y: "y \<in> set (sites ?t) - {s}" and l: "lacks_file p (c y)" and b: "within_second began (?c y)"
    for y fuel began
  proof -
    have c: "?c y = queued_at m filePriority (c y)" using y by simp
    show ?thesis unfolding c by (rule queued_failure [OF l assms(6) q(2)]) (use b in \<open>simp only: c\<close>)
  qed
  moreover have "?c y = queued_at m filePriority (c y)" if "y \<in> set (sites ?t) - {s}" for y
    using that by simp
  ultimately show ?thesis using v by blast
qed

text \<open>The node 7 has a new file \<open>d/f\<close>; its peer 8 has the peer 6.\<close>

definition newcomer_cluster :: cluster where
  "newcomer_cluster y = (sample_cluster y)\<lparr>files := (if y = IPv6 7 then files (sample_cluster y)
     else [([''d''], Directory 0x1ED)])\<rparr>"

theorem new_file_ends_the_others_witness:
  "\<exists>c'. publish raw_lib 2 (IPv6 7) (onFileCreatedOrModified_cb raw_lib [''d'', ''f'']) newcomer_cluster = Some c'
    \<and> fst (process_for_a_second raw_lib 1 0 (c' (IPv6 6))) = Inl (FilesystemError ENOENT [''d'', ''f''])"
proof -
  let ?p = "[''d'', ''f'']" and ?ts = "[Site (IPv6 8) [Site (IPv6 6) []]]"
  let ?w = "newcomer_cluster (IPv6 7)"
  have same: "peers (newcomer_cluster y) = peers (sample_cluster y)" "self_ip (newcomer_cluster y) = y"
    "clock (newcomer_cluster y) = backward_clock" "ticks (newcomer_cluster y) = 0" for y
    by (simp_all add: newcomer_cluster_def)
  have net: "tree_network newcomer_cluster (Site (IPv6 7) ?ts)"
    by (simp add: tree_network_def addressed_def ordinary_def isValid_def peers_of_def peers_fresh_def same)
      (simp add: sample_cluster_def peers_of_def)
  have sp: "spelled ?p"
    by (simp add: spelled_def path_fits_def lexically_normal_def name_ok_def)
  have wp: "wntsPath ?p = Some [''d'', ''.wnts'', ''f'']" by code_simp
  have f: "lookup (files ?w) ?p = Some (Regular 0x1A4 ''new'' 5500000001)" "unsent ?w ?p ''new''"
    by (simp_all add: unsent_def wp newcomer_cluster_def sample_cluster_def kept_world_def lookup_def entry_def
        resolve_def)
  have m: "sample_announcement = announcement raw_lib ?w ?p ''new'' 5500000001"
    by (simp add: sample_announcement_def announcement_def same)
  have sz: "length (save_Message raw_lib (header sample_announcement)) \<le> sizeof_Message raw_lib"
    by (simp add: sample_announcement_def announcement_def Let_def add_routing_def on_base_def
        content_defs save_Message_def save_ip_def raw_lib_def)
  have c: "cache_ok ?w" by (simp add: newcomer_cluster_def cache_ok_cong [of _ "sample_cluster (IPv6 7)"])
  have ready: "accepted raw_lib sample_announcement (newcomer_cluster y) \<and> lacks_file ?p (newcomer_cluster y)"
    if "y \<noteq> IPv6 7" for y
  proof -
    have "isFinishedConnecting (newcomer_cluster y)" "messageQueue (newcomer_cluster y) = []"
      using sample_cluster_simps(6) [of y] by (simp_all add: newcomer_cluster_def isFinishedConnecting_def)
    then show ?thesis
      using that by (simp add: sample_announcement_accepted same lacks_file_def managed_d_f newcomer_cluster_def)
  qed
  have "\<exists>c'. publish raw_lib 2 (IPv6 7) (onFileCreatedOrModified_cb raw_lib ?p) newcomer_cluster = Some c'
    \<and> (\<forall>y \<in> set (sites (Site (IPv6 7) ?ts)) - {IPv6 7}. c' y = queued_at sample_announcement filePriority (newcomer_cluster y)
      \<and> (\<forall>fuel began. lacks_file ?p (newcomer_cluster y) \<and> within_second began (c' y) \<longrightarrow>
            fst (process_for_a_second raw_lib (Suc fuel) began (c' y)) = Inl (FilesystemError ENOENT ?p)))"
    by (rule new_file_ends_the_others [OF raw.lib_laws_axioms net _ c managed_d_f(1) sp _ f(1) _ f(2) _ m _ sz])
      (use ready in \<open>auto simp: same sample_announcement_accepted backward_clock_def time_fits_def
        sys_to_time_t_def convertTimepoint_def tdiv_def\<close>)
  then obtain c' where c': "publish raw_lib 2 (IPv6 7) (onFileCreatedOrModified_cb raw_lib ?p) newcomer_cluster = Some c'"
    "c' (IPv6 6) = queued_at sample_announcement filePriority (newcomer_cluster (IPv6 6))"
    "\<forall>fuel began. within_second began (c' (IPv6 6)) \<longrightarrow>
      fst (process_for_a_second raw_lib (Suc fuel) began (c' (IPv6 6))) = Inl (FilesystemError ENOENT ?p)"
    using ready [of "IPv6 6"] by fastforce
  have "within_second 0 (c' (IPv6 6))"
    by (simp add: c'(2) within_second_def queued_at_def same backward_clock_def tdiv_def)
  then have "fst (process_for_a_second raw_lib (Suc 0) 0 (c' (IPv6 6))) = Inl (FilesystemError ENOENT ?p)"
    using c'(3) by blast
  then show ?thesis using c'(1) by (auto simp del: process_for_a_second.simps)
qed

section \<open>A deleted file\<close>

text \<open>What a process sends when it finds \<open>p\<close> deleted.\<close>

definition deletion_notice :: "lib \<Rightarrow> world \<Rightarrow> path \<Rightarrow> any_message" where
  "deletion_notice L w p =
     (let ts = clock w (ticks w);
          m = add_routing (self_ip w) ipv6Unspecified (MFile (new_File deleteFile p ts));
          t = to_time_t ts (clock w (ticks w + 1)) (clock w (ticks w + 2))
      in set_hash (msg_hash L t m) m)"

text \<open>C15: A process that is in sync with the network and has nothing else queued ends when it finds a file
  deleted that no lock file is left for, provided that it accepts its own message (the date of the
  deletion passes its check, which it does not in every tenth second): it tells every peer, queues its
  own message as it does, and throws in its main loop when it processes it, since the file is not there
  any more.\<close>

theorem deleting_a_file_ends_the_process:
  assumes "lib_laws L" and "cache_ok w" and "isValid (self_ip w)" and "self_ip w \<noteq> ipv6Unspecified"
    and "\<forall>q \<in> set (peers w). remoteIP q \<noteq> ipv6Unspecified"
    and "managed p" and "spelled p" and "lacks_file p w" and "time_fits (clock w (ticks w))"
    and "m = deletion_notice L w p" and "accepted L m (w\<lparr>ticks := ticks w + 3\<rparr>)"
    and "v = sent_to_all L m filePriority (w\<lparr>ticks := ticks w + 3\<rparr>)"
  shows "onFileDeleted_cb L p w = (Inr (), v)
    \<and> outbox v = outbox w @ map (\<lambda>q. (socketIP q, save_any L m)) (peers w)
    \<and> (\<forall>fuel began. within_second began v \<longrightarrow>
        fst (process_for_a_second L (Suc fuel) began v) = Inl (FilesystemError ENOENT p))"
proof -
  let ?ts = "clock w (ticks w)" and ?u = "w\<lparr>ticks := Suc (ticks w)\<rparr>"
  let ?d = "MFile (new_File deleteFile p ?ts)"
  note d = new_File_def new_Message_def Message.defs FileMessage.defs
  have k: "msg_kind ?d = Some deleteFile" by (simp add: msg_kind_Some d)
  have rd: "hash_timestamp ?d = Some ?ts" "readings ?d = 2" by (simp_all add: readings_def d)
  have f: "fits (add_routing (self_ip ?u) ipv6Unspecified ?d)" "well_typed ?d" "paths_normal ?d"
    using assms(3,7,9) k
    by (simp_all add: d add_routing_def on_base_def Let_def base_fits_def isValid_def spelled_def well_typed_def)
  let ?out = "set_hash (msg_hash L (case hash_timestamp ?d of None \<Rightarrow> 0
       | Some ts \<Rightarrow> to_time_t ts (clock ?u (ticks ?u)) (clock ?u (Suc (ticks ?u))))
       (add_routing (self_ip ?u) ipv6Unspecified ?d)) (add_routing (self_ip ?u) ipv6Unspecified ?d)"
  have m: "m = ?out"
    by (simp add: assms(10) deletion_notice_def Let_def numeral_2_eq_2 del: hash_timestamp.simps) (simp add: rd d)
  have v: "v = sent_to_all L m filePriority (?u\<lparr>ticks := ticks ?u + readings ?d\<rparr>)"
    by (simp add: assms(12) rd eval_nat_numeral)
  have "accepted L ?out (?u\<lparr>ticks := ticks ?u + readings ?d\<rparr>)"
    using assms(11) unfolding m [symmetric] by (simp add: rd eval_nat_numeral)
  then have "broadcast L ?d ?u = (Inr (), v)"
    unfolding v m by (intro broadcast_accepted [OF assms(1), where k = deleteFile])
      (use assms(2,4,5) f k in \<open>simp_all add: wire_priority_def cache_ok_def\<close>)
  then have run: "onFileDeleted_cb L p w = (Inr (), v)"
    by (simp add: onFileDeleted_cb_def bnd_exec now_exec)
  obtain x where x: "received m = MFile x" "targetFile x = p" "mtype x = type_code deleteFile"
    using assms(7) by (simp add: assms(10) deletion_notice_def Let_def add_routing_def set_hash_def on_base_def d
        spelled_def)
  have "lacks_file p (v\<lparr>messageQueue := []\<rparr>)"
    using assms(8) by (simp add: assms(12) lacks_file_def isFinishedConnecting_def sent_to_all_def)
  then obtain u where "dispatch L (MFile x) (v\<lparr>messageQueue := [], ticks := Suc (ticks v)\<rparr>)
      = (Inl (FilesystemError ENOENT p), u)"
    using handlers_fail(2) [OF _ assms(6) x(3,2)] by blast
  moreover have "messageQueue v = [(filePriority, MFile x)]"
    using assms(8) by (simp add: assms(12) sent_to_all_def x(1) lacks_file_def pq_emplace_def)
  ultimately have "fst (process_for_a_second L (Suc fuel) began v) = Inl (FilesystemError ENOENT p)"
    if "within_second began v" for fuel began
    using main_loop_fails [OF that] by blast
  then show ?thesis using run by (simp add: assms(12) sent_to_all_def)
qed

text \<open>The process 9 has lost \<open>d/f\<close>; the clock stands still but for the moment when it takes its own
  message.\<close>

theorem deleting_a_file_ends_the_process_witness:
  "let w = kept_world\<lparr>files := [([''d''], Directory 0x1ED)],
       clock := (\<lambda>i. if i = 0 then 5000000000 else if i = 3 then 1 else 0)\<rparr>
   in \<exists>v. onFileDeleted_cb raw_lib [''d'', ''f''] w = (Inr (), v)
     \<and> fst (process_for_a_second raw_lib 1 5000000000 v) = Inl (FilesystemError ENOENT [''d'', ''f''])"
proof -
  let ?w = "kept_world\<lparr>files := [([''d''], Directory 0x1ED)],
       clock := (\<lambda>i. if i = 0 then 5000000000 else if i = 3 then 1 else 0)\<rparr>" and ?p = "[''d'', ''f'']"
  have c: "cache_ok ?w" using cache_ok_sample by (simp add: kept_world_def cache_ok_def)
  have b: "isValid (self_ip ?w)" "self_ip ?w \<noteq> ipv6Unspecified" "\<forall>q \<in> set (peers ?w). remoteIP q \<noteq> ipv6Unspecified"
    "time_fits (clock ?w (ticks ?w))"
    by (simp_all add: kept_world_def isValid_def time_fits_def sys_to_time_t_def tdiv_def)
  have sp: "spelled ?p" by (simp add: spelled_def path_fits_def lexically_normal_def name_ok_def)
  have l: "lacks_file ?p ?w"
    by (simp add: lacks_file_def isFinishedConnecting_def kept_world_def managed_d_f)
  let ?m = "deletion_notice raw_lib ?w ?p"
  have s: "hash_timestamp ?m = Some 5000000000" "messageHash (header ?m) = msg_hash raw_lib 5 ?m"
    by (simp_all add: deletion_notice_def Let_def kept_world_def new_File_def Message.defs FileMessage.defs
        to_time_t_def convertTimepoint_def sys_to_time_t_def tdiv_def)
  have t: "arrival_time ?m (?w\<lparr>ticks := ticks ?w + 3\<rparr>) = 4"
    unfolding arrival_time_def s(1)
    by (simp add: kept_world_def to_time_t_def whole_seconds_def sys_from_time_t_def
        sys_to_time_t_def tdiv_def convertTimepoint_def)
  have "hash_str (ctime raw_lib 5) = hash_str (ctime raw_lib 4) + 1"
    by (simp add: raw_lib_def) code_simp
  then have a: "accepted raw_lib ?m (?w\<lparr>ticks := ticks ?w + 3\<rparr>)"
    by (simp only: accepted_iff_time [OF s] t)
  let ?v = "sent_to_all raw_lib ?m filePriority (?w\<lparr>ticks := ticks ?w + 3\<rparr>)"
  have v: "onFileDeleted_cb raw_lib ?p ?w = (Inr (), ?v)"
    "\<forall>fuel began. within_second began ?v \<longrightarrow>
        fst (process_for_a_second raw_lib (Suc fuel) began ?v) = Inl (FilesystemError ENOENT ?p)"
    using deleting_a_file_ends_the_process [OF raw.lib_laws_axioms c b(1-3) managed_d_f(1) sp l b(4) refl a refl]
    by blast+
  have "within_second 5000000000 ?v"
    by (simp add: within_second_def sent_to_all_def kept_world_def tdiv_def)
  then have "fst (process_for_a_second raw_lib (Suc 0) 5000000000 ?v) = Inl (FilesystemError ENOENT ?p)"
    using v(2) by blast
  then show ?thesis using v(1) unfolding Let_def One_nat_def by blast
qed

end
