(* ===== verification/Reachable.thy ===== *)
theory Reachable
  imports Liveness Framing
begin

text \<open>
  The states a process can reach: what its threads do, one step at a time in any order, and what
  users and other programs do to the files in between; and what holds in all of them.
\<close>

section \<open>The steps of a process\<close>




section \<open>What the steps keep\<close>





section \<open>What holds in every reachable state\<close>



end
