(* ===== verification/Spec2Isabelle.thy ===== *)
theory Spec2Isabelle
  imports Framing Liveness Monitor Pointers ZTNode Replication Footprint Listener Storm Shutdown Arrival Deque
    Failures Reachable
begin

text \<open>
  A verification of the Whisper Network file synchroniser (the C++ program under \<open>src/\<close>): processes
  that keep the files of some managed folders the same on every node of a peer-to-peer network.

  \<^bold>\<open>The program.\<close>  \<open>src/src/main.cpp\<close> sweeps the managed folders once a second
  (\<open>src/src/file_sweep.hpp\<close>); what changed is broadcast as messages (\<open>src/src/messages.hpp\<close>) by
  \<open>PeerManager::send\<close> (\<open>src/src/peer_manager.hpp\<close>), which routes data to the peers and to the process
  itself.  A peer (\<open>src/src/peer.hpp\<close>, \<open>src/src/peer.cpp\<close>) sends data over a socket and listens on it
  in a thread of its own, which hands what it receives to routing again.  Data for the process is
  loaded, checked against its hash and put into a priority queue (\<open>src/src/message_manager.hpp\<close>);
  between two sweeps the main loop takes messages from the queue and handles them
  (\<open>src/src/message_manager.cpp\<close>): file changes, locks, the initial synchronisation, links that come
  and go, resend requests served from a ring of the last 100 messages
  (\<open>src/thirdparty/circular_buffer.hpp\<close>).  The peers and the queue are behind monitors
  (\<open>src/src/monitor.hpp\<close>); \<open>src/src/ztnode.hpp\<close> connects the process to ZeroTier.

  \<^bold>\<open>The theories.\<close>
  \<^item> \<open>Prelude\<close>: the state-and-exception monad \<open>('s, 'a) prog\<close>, in which every operation with an effect
    is written, rules to execute it (\<open>exec_simps\<close>) and to show that a program keeps a predicate of the
    state and avoids some exceptions (\<open>safely\<close>), words as bytes, numbers as text.
  \<^item> \<open>Paths\<close> (\<open>wntsPath\<close>, \<open>lockFilePath\<close>, \<open>std::filesystem::path\<close> as the list of its elements) and
    \<open>FileSystem\<close> (a map from resolved paths to files and directories, with the operations the program
    calls, their permissions and errors, and \<open>enumerateAllFiles\<close>).
  \<^item> \<open>CircularBuffer\<close>: the ring as cells and two indices, its iterators, its finaliser; it refines the
    list of its last elements (locale \<open>bounded_log\<close>).  \<open>Deque\<close>: its constructors, assignments and the
    pushes; it refines a double-ended queue of bounded length.
  \<^item> \<open>Messages\<close>, \<open>Serialization\<close>, \<open>MessageQueue\<close>: the message classes as records that extend each
    other, their hash, their bytes (locales \<open>codec\<close> and \<open>lib_laws\<close>, the contract of the archive), and
    the priority queue with its comparator (locale \<open>ranked_queue\<close>).  The queue is the list of the
    waiting entries in the order of their arrival; of several greatest entries it serves the oldest,
    where the standard leaves the choice to the heap.  Comparing two entries that the comparator
    casts wrongly is \<open>Undefined ''PrioComp''\<close>; in a queue of \<open>comparable\<close> entries none is.
  \<^item> \<open>World\<close>: the state of a process, that is the singletons, the files, the peers with the addresses
    they cache, what was written to the sockets, and the readings of the clock still to come.
  \<^item> \<open>Network\<close>, \<open>Validation\<close>, \<open>Sending\<close>: \<open>send\<close>, \<open>routeData\<close>, \<open>deserializeMessage\<close>,
    \<open>validateMessageHash\<close>, \<open>Peer::processMessage\<close> of the peer with a given index, whose cached address
    it may set, accepting a connection; which messages pass the hash check; what a send does, that is
    the data it writes to each peer, what it caches and what it keeps.  \<open>Dates\<close>: which seconds of a
    date pass the check.  \<open>Storm\<close>: a refused message is requested and sent again for ever.
  \<^item> \<open>Framing\<close>: \<open>Peer::send\<close> and \<open>Peer::threadFunction\<close> over the bytes of the socket, with the handler
    of its exceptions, which queues \<open>linkLost\<close>.
  \<^item> \<open>Locks\<close>, \<open>Handlers\<close>, \<open>Changes\<close>, \<open>Links\<close>: the message handlers and what they do; the lock files
    implement a store of locks (locale \<open>lock_store\<close>) whose holder is the earliest request.
  \<^item> \<open>Joining\<close>: a node that joins is told of the network and sent every file.  \<open>Arrival\<close>: these messages
    come in, are checked, queued and handled until the node has caught up.  \<open>Listener\<close>: the
    thread that accepts connections, over what its polls return and the other threads do.
  \<^item> \<open>Processing\<close>: \<open>processNextMessage\<close>, the destructor of \<open>MessageManager\<close>, and the invariant that
    makes the casts of the message classes sound.  \<open>Shutdown\<close>: what the destructor does to the locks.
  \<^item> \<open>Sweeper\<close>, \<open>MainLoop\<close>, \<open>Program\<close>, \<open>Liveness\<close>: the sweep over an environment of callbacks, the
    callbacks of \<open>main.cpp\<close>, the options, the start and the main loop, what a changed file sends to the
    peers, and that sends and a second of processing end (two nested sends are enough).  \<open>Reachable\<close>: the
    steps of a process, those of its listening threads included, and what holds in every state they
    lead to.
  \<^item> \<open>Footprint\<close>: the files a message can change, and what the start of the sweeper removes.
  \<^item> \<open>Monitor\<close>: the mutexes of the monitors, threads as the sequences of their lock operations, any
    interleaving, and when the threads can and cannot deadlock.  \<open>Pointers\<close>: the pointers of a monitor
    as threads get, move and destroy them, and that they account for the state of its mutex.
  \<^item> \<open>ZTNode\<close>: the event handlers of \<open>ZeroTierNode\<close> and its \<open>setup\<close>.
  \<^item> \<open>Flooding\<close>, \<open>Cluster\<close>, \<open>Replication\<close>: many processes; data from hop to hop, messages that arrive
    in the queues of a whole network, and a change of a file that reaches every node.  \<open>Failures\<close>: a
    new file and a deleted file end processes in their main loops.

  \<^bold>\<open>Parameters.\<close>  The record \<open>lib\<close> holds what the program calls and the repository does not contain:
  the archive of cereal, the text of addresses and dates, the size of the class \<open>Message\<close>.  The locale
  \<open>lib_laws\<close> states what is used of them (what was saved is loaded again), and \<open>raw_lib\<close> is an instance
  that the witnesses run.  The clock is a sequence of readings in the order of the text; as the readings
  are arbitrary, this includes the programs in which a compiler evaluates two calls of one expression
  the other way round.  Connecting succeeds or fails as the
  table \<open>dials\<close> says, and ZeroTier answers calls and delivers events; all are arbitrary.  Asking
  an open socket for its other end is taken to succeed.

  \<^bold>\<open>Fuel.\<close>  \<open>send\<close> counts nested sends; two are enough for every message.  \<open>process_for_a_second\<close>
  counts the calls of \<open>processNextMessage\<close>; as many as the clock has readings within the second are
  enough, whatever is queued.  \<open>drain\<close> counts the iterations of the destructor's loop, and no number
  is enough while messages wait for the initial synchronisation.  Loops over the ring have one unit more
  than it has slots, which is enough.  \<open>spread\<close> and \<open>flood\<close> count hops, for which the depth of the network is enough; in a
  network with a cycle a broadcast has no end.

  \<^bold>\<open>What the lemmas show.\<close>  Round trips: the bytes of a message, the frames of the stream.
  Invariants of the reachable states: classes of queued and cached messages, the well-formed ring, and
  that no step runs for ever or casts wrongly, save the comparison of queued messages that the
  comparator takes for file messages; mutual exclusion, files
  outside the footprint of a message, bookkeeping files that are never enumerated.  Functional
  behaviour: every handler on its branches, errors
  included.  Agreement of nodes: broadcasts, locks, replicated changes.  Termination: sends,
  processing.  Many properties state what the code does where this is not what it is meant to do:
  locks that cannot be undone, changes that their own lock drops, files that end the processes that
  hear of them, deadlocks, shutdown that never ends.

  \<^bold>\<open>Not modelled.\<close>  The command line parser (Argos), whose results are the record \<open>options\<close>, the signal
  handler, which ends the process, and printing; the shutdown calls
  of \<open>ZeroTierNode\<close>; ZeroTier, cereal, dtl and the vendored headers other than the ring, of which only
  documented behaviour is used; the skip list, which nothing includes.  The setups that \<open>main\<close> runs in
  threads are run one after the other (they do not touch each other's state,
  \<open>setup_threads_commute\<close>), that of ZeroTier and the listening thread as the parameter \<open>network\<close> of
  \<open>startup\<close>.  Each handler is one step of
  its process: interleavings of threads are explored for the monitors only, so races on the message
  cache, which no monitor guards, are not.  Of the ring, the reverse iterators are left out, no use of which
  compiles.
  In the file system there are no links, one unprivileged owner, and directories can always be listed.
\<close>

end
